(* ===== verification/Prelude.thy ===== *)
theory Prelude
  imports Main "HOL-Library.Word"
begin

text \<open>
  Shared vocabulary of the development: Go strings and byte slices, time stamps, durations,
  the error values that cross component boundaries, and the generic lemmas on lists that
  several components use.

  A Go \<^verbatim>\<open>string\<close> and a Go \<^verbatim>\<open>[]byte\<close> are both sequences of bytes.  HOL's
  \<^typ>\<open>char\<close> is exactly a byte (eight booleans), so both are \<^typ>\<open>char list\<close> here and a
  conversion \<^verbatim>\<open>[]byte(s)\<close> is the identity.
\<close>

section \<open>Names of the model's types\<close>

type_synonym bytes = "char list"

text \<open>A \<^verbatim>\<open>pgtype.UUID\<close> that is valid: its sixteen bytes.\<close>

type_synonym uuid = "char list"

text \<open>A \<^verbatim>\<open>time.Time\<close> as nanoseconds since the Unix epoch, a \<^verbatim>\<open>time.Duration\<close> as
  nanoseconds.\<close>

type_synonym time = int
type_synonym duration = int

abbreviation ord :: "char \<Rightarrow> nat" where
  "ord c \<equiv> of_char c"

abbreviation chr :: "nat \<Rightarrow> char" where
  "chr n \<equiv> char_of n"

section \<open>Error values\<close>

text \<open>
  The error values the code inspects or passes on.  \<open>ErrNoRows\<close> is \<^verbatim>\<open>pgx.ErrNoRows\<close>,
  \<open>PgError c\<close> a \<^verbatim>\<open>*pgconn.PgError\<close> with SQLSTATE \<open>c\<close>, \<open>ConnectError e\<close> a
  \<^verbatim>\<open>*pgconn.ConnectError\<close> that unwraps to \<open>e\<close>, \<open>Wrapped m e\<close> a \<^verbatim>\<open>fmt.Errorf("...%w")\<close>,
  \<open>MaxBytesError\<close> the error of \<^verbatim>\<open>http.MaxBytesReader\<close>, \<open>RandError\<close> a failing CSPRNG read,
  \<open>TxCommitRollback\<close> pgx's error for committing a failed transaction, and \<open>ErrMsg\<close> any other
  error, by its text.
\<close>

datatype gerr =
    ErrNoRows
  | PgError string
  | DeadlineExceeded
  | Canceled
  | ConnectError gerr
  | MaxBytesError
  | RandError
  | TxCommitRollback
  | ErrMsg string
  | Wrapped string gerr

text \<open>\<^verbatim>\<open>errors.Is\<close>: the error or one it wraps.\<close>

fun err_is :: "gerr \<Rightarrow> gerr \<Rightarrow> bool" where
  "err_is target (Wrapped m e) = (Wrapped m e = target \<or> err_is target e)"
| "err_is target (ConnectError e) = (ConnectError e = target \<or> err_is target e)"
| "err_is target e = (e = target)"

section \<open>Durations\<close>

definition millisecond :: duration where "millisecond = 1000000"
definition second :: duration where "second = 1000 * millisecond"
definition minute :: duration where "minute = 60 * second"
definition hour :: duration where "hour = 60 * minute"

lemmas duration_defs = millisecond_def second_def minute_def hour_def

text \<open>\<^verbatim>\<open>Time.Sub\<close> saturates at the ends of \<^verbatim>\<open>int64\<close>; \<^verbatim>\<open>Time.UnixMilli\<close> rounds down.\<close>

definition time_sub :: "time \<Rightarrow> time \<Rightarrow> duration" where
  "time_sub a b = max (- (2 ^ 63)) (min (2 ^ 63 - 1) (a - b))"

definition unix_milli :: "time \<Rightarrow> int" where
  "unix_milli t = t div 1000000"

lemma time_sub_le_iff:
  assumes "0 \<le> d" and "d < 2 ^ 63 - 1"
  shows "time_sub a b \<le> d \<longleftrightarrow> a - b \<le> d"
  using assms by (auto simp: time_sub_def)

section \<open>Generic lemmas\<close>

named_theorems state_simps
  \<open>how the operations act on the parts of the state they do not write\<close>

named_theorems bounds
  \<open>length and range facts\<close>

lemma ord_less [simp, bounds]: "ord c < 256"
  by (rule nat_of_char_less_256)

lemma ord_div [simp, bounds]:
  "ord c div 4 < 64" "ord c div 16 < 16" "ord c div 64 < 4"
  by (rule less_mult_imp_div_less, use ord_less [of c] in simp)+

lemma chr_eq_iff: "n < 256 \<Longrightarrow> chr n = c \<longleftrightarrow> n = ord c"
  by (metis char_of_char mod_less of_char_of)

text \<open>Updating the rows of a table that satisfy a condition, the shape of every SQL
  \<^verbatim>\<open>UPDATE ... WHERE\<close>.\<close>

definition update_where :: "('r \<Rightarrow> bool) \<Rightarrow> ('r \<Rightarrow> 'r) \<Rightarrow> 'r list \<Rightarrow> 'r list" where
  "update_where p f rs = map (\<lambda>r. if p r then f r else r) rs"

lemma length_update_where [simp]: "length (update_where p f rs) = length rs"
  by (simp add: update_where_def)

lemma update_where_none: "(\<And>r. r \<in> set rs \<Longrightarrow> \<not> p r) \<Longrightarrow> update_where p f rs = rs"
  by (induction rs) (auto simp: update_where_def)

lemma map_update_where:
  "(\<And>r. g (f r) = g r) \<Longrightarrow> map g (update_where p f rs) = map g rs"
  by (auto simp: update_where_def)

lemma in_update_where:
  "r' \<in> set (update_where p f rs) \<longleftrightarrow> (\<exists>r \<in> set rs. r' = (if p r then f r else r))"
  by (auto simp: update_where_def)

lemma update_where_one:
  "distinct (map k xs) \<Longrightarrow> u \<in> set xs \<Longrightarrow>
     update_where (\<lambda>v. k v = k u) (\<lambda>v. f v) xs = update_where (\<lambda>v. v = u) (\<lambda>v. f u) xs"
  unfolding update_where_def by (rule map_cong) (auto simp: distinct_map inj_on_def)

lemma find_SomeD: "find P xs = Some x \<Longrightarrow> x \<in> set xs \<and> P x"
  by (induction xs) (auto split: if_splits)

lemma find_None_all: "find P xs = None \<longleftrightarrow> (\<forall>x \<in> set xs. \<not> P x)"
  by (induction xs) auto

text \<open>A lookup by a key that is unique in the table finds the one row with that key.\<close>

lemma find_unique:
  assumes "distinct (map k xs)" and "x \<in> set xs"
  shows "find (\<lambda>r. k r = k x) xs = Some x"
  using assms
proof (induction xs)
  case (Cons y ys)
  show ?case
  proof (cases "x = y")
    case False
    with Cons.prems have "x \<in> set ys" and "k y \<noteq> k x" by auto
    with Cons show ?thesis by simp
  qed simp
qed simp

lemma find_unique_iff:
  assumes "distinct (map k xs)"
  shows "find (\<lambda>r. k r = v) xs = Some x \<longleftrightarrow> x \<in> set xs \<and> k x = v"
proof
  assume "x \<in> set xs \<and> k x = v"
  then show "find (\<lambda>r. k r = v) xs = Some x" using find_unique [OF assms] by blast
qed (auto dest: find_SomeD)

text \<open>Storing into a Go map that is kept as an association list.\<close>

fun put :: "'k \<Rightarrow> 'v \<Rightarrow> ('k \<times> 'v) list \<Rightarrow> ('k \<times> 'v) list" where
  "put k v [] = [(k, v)]"
| "put k v ((k', v') # m) = (if k = k' then (k, v) # m else (k', v') # put k v m)"

lemma find_append: "find P (xs @ ys) = (case find P xs of None \<Rightarrow> find P ys | Some x \<Rightarrow> Some x)"
  by (induction xs) auto

lemma filter_update_where:
  "(\<And>x. q x \<Longrightarrow> \<not> P x \<and> \<not> P (f x)) \<Longrightarrow> filter P (update_where q f xs) = filter P xs"
  by (induction xs) (auto simp: update_where_def)

lemma find_update_where:
  "(\<And>x. P (f x) = P x) \<Longrightarrow> find P (update_where q f xs) = map_option (\<lambda>x. if q x then f x else x) (find P xs)"
  by (induction xs) (auto simp: update_where_def)

end
