(* ===== verification/GoStrings.thy ===== *)
theory GoStrings
  imports Prelude
begin

text \<open>
  The functions of Go's standard packages \<^verbatim>\<open>strings\<close>, \<^verbatim>\<open>strconv\<close> and \<^verbatim>\<open>fmt\<close> that the
  program calls, on byte strings: \<open>split_on\<close> (\<^verbatim>\<open>strings.Split\<close> with a one-byte separator),
  \<open>cut_on\<close> (\<^verbatim>\<open>strings.Cut\<close>), \<open>cut_prefix\<close> (\<^verbatim>\<open>strings.CutPrefix\<close>), \<open>to_lower\<close>,
  \<open>trim_space\<close>, \<open>str_join\<close>, decimal rendering and the \<^verbatim>\<open>%d\<close> scanner of \<^verbatim>\<open>fmt.Sscanf\<close>.
\<close>

section \<open>Splitting and joining\<close>

fun split_on :: "char \<Rightarrow> string \<Rightarrow> string list" where
  "split_on c [] = [[]]"
| "split_on c (x # xs) =
     (if x = c then [] # split_on c xs
      else (case split_on c xs of [] \<Rightarrow> [[x]] | p # ps \<Rightarrow> (x # p) # ps))"

fun cut_on :: "char \<Rightarrow> string \<Rightarrow> (string \<times> string) option" where
  "cut_on c [] = None"
| "cut_on c (x # xs) =
     (if x = c then Some ([], xs)
      else (case cut_on c xs of None \<Rightarrow> None | Some (a, b) \<Rightarrow> Some (x # a, b)))"

fun cut_prefix :: "string \<Rightarrow> string \<Rightarrow> string option" where
  "cut_prefix [] s = Some s"
| "cut_prefix (p # ps) [] = None"
| "cut_prefix (p # ps) (x # xs) = (if p = x then cut_prefix ps xs else None)"

definition has_prefix :: "string \<Rightarrow> string \<Rightarrow> bool" where
  "has_prefix p s \<longleftrightarrow> cut_prefix p s \<noteq> None"

fun str_join :: "string \<Rightarrow> string list \<Rightarrow> string" where
  "str_join sep [] = []"
| "str_join sep [x] = x"
| "str_join sep (x # y # r) = x @ sep @ str_join sep (y # r)"

lemma split_on_nonempty [simp]: "split_on c s \<noteq> []"
  by (induction s) (auto split: list.splits)

lemma split_on_no_sep: "c \<notin> set s \<Longrightarrow> split_on c s = [s]"
  by (induction s) auto

lemma split_on_append: "c \<notin> set a \<Longrightarrow> split_on c (a @ c # b) = a # split_on c b"
  by (induction a) auto

lemma split_on_parts: "p \<in> set (split_on c s) \<Longrightarrow> c \<notin> set p"
  by (induction s arbitrary: p) (auto split: list.splits if_splits)

lemma join_split_on: "str_join [c] (split_on c s) = s"
proof (induction s)
  case (Cons x xs)
  obtain p ps where sp: "split_on c xs = p # ps" by (cases "split_on c xs") auto
  show ?case
  proof (cases ps)
    case Nil
    with Cons sp show ?thesis by auto
  next
    case (Cons q qs)
    with sp \<open>str_join [c] (split_on c xs) = xs\<close> show ?thesis by auto
  qed
qed simp

lemma split_join_on:
  "xs \<noteq> [] \<Longrightarrow> (\<And>x. x \<in> set xs \<Longrightarrow> c \<notin> set x) \<Longrightarrow> split_on c (str_join [c] xs) = xs"
proof (induction "[c]" xs rule: str_join.induct)
  case (3 x y r)
  have "split_on c (x @ c # str_join [c] (y # r)) = x # split_on c (str_join [c] (y # r))"
    using "3.prems" by (intro split_on_append) auto
  with 3 show ?case by auto
qed (auto simp: split_on_no_sep)

lemma str_join_inj:
  assumes eq: "str_join [c] xs = str_join [c] ys" and ne: "xs \<noteq> []" "ys \<noteq> []"
    and xs: "\<And>x. x \<in> set xs \<Longrightarrow> c \<notin> set x" and ys: "\<And>y. y \<in> set ys \<Longrightarrow> c \<notin> set y"
  shows "xs = ys"
proof -
  have "xs = split_on c (str_join [c] xs)" by (rule split_join_on [OF ne(1) xs, symmetric])
  also have "\<dots> = split_on c (str_join [c] ys)" by (simp only: eq)
  also have "\<dots> = ys" by (rule split_join_on [OF ne(2) ys])
  finally show ?thesis .
qed

lemma cut_on_append: "c \<notin> set a \<Longrightarrow> cut_on c (a @ c # b) = Some (a, b)"
  by (induction a) auto

lemma cut_on_SomeD: "cut_on c s = Some (a, b) \<Longrightarrow> s = a @ c # b \<and> c \<notin> set a"
  by (induction s arbitrary: a) (auto split: if_splits option.splits)

lemma cut_on_None_iff: "cut_on c s = None \<longleftrightarrow> c \<notin> set s"
  by (induction s) (auto split: option.splits)

lemma cut_prefix_append [simp]: "cut_prefix p (p @ s) = Some s"
  by (induction p) auto

lemma cut_prefix_SomeD: "cut_prefix p s = Some r \<Longrightarrow> s = p @ r"
  by (induction p s rule: cut_prefix.induct) (auto split: if_splits)

lemma cut_prefix_iff: "cut_prefix p s = Some r \<longleftrightarrow> s = p @ r"
  by (auto dest: cut_prefix_SomeD)

section \<open>Letter case\<close>

text \<open>
  \<^verbatim>\<open>strings.ToLower\<close> maps bytes directly when the string is pure ASCII; otherwise it maps code
  points through Go's Unicode tables, which are the parameter \<open>ul\<close>.
\<close>

definition ascii_lower :: "char \<Rightarrow> char" where
  "ascii_lower c = (if 65 \<le> ord c \<and> ord c \<le> 90 then chr (ord c + 32) else c)"

definition is_ascii :: "string \<Rightarrow> bool" where
  "is_ascii s \<longleftrightarrow> list_all (\<lambda>c. ord c < 128) s"

definition to_lower :: "(string \<Rightarrow> string) \<Rightarrow> string \<Rightarrow> string" where
  "to_lower ul s = (if is_ascii s then map ascii_lower s else ul s)"

lemma ascii_lower_idem [simp]: "ascii_lower (ascii_lower c) = ascii_lower c"
  by (auto simp: ascii_lower_def)

lemma ascii_lower_less: "ord c < 128 \<Longrightarrow> ord (ascii_lower c) < 128"
  by (auto simp: ascii_lower_def)

lemma to_lower_idem_ascii: "is_ascii s \<Longrightarrow> to_lower ul (to_lower ul s) = to_lower ul s"
  by (auto simp: to_lower_def is_ascii_def list_all_iff ascii_lower_less)

section \<open>White space\<close>

text \<open>The UTF-8 encodings of the code points for which \<^verbatim>\<open>unicode.IsSpace\<close> holds.\<close>

definition space_seqs :: "nat list list" where
  "space_seqs =
     [[0x09], [0x0A], [0x0B], [0x0C], [0x0D], [0x20], [0xC2, 0x85], [0xC2, 0xA0],
      [0xE1, 0x9A, 0x80]]
     @ map (\<lambda>b. [0xE2, 0x80, b]) [0x80, 0x81, 0x82, 0x83, 0x84, 0x85, 0x86, 0x87, 0x88, 0x89,
                                  0x8A, 0xA8, 0xA9, 0xAF]
     @ [[0xE2, 0x81, 0x9F], [0xE3, 0x80, 0x80]]"

definition strip_one :: "nat list list \<Rightarrow> string \<Rightarrow> string option" where
  "strip_one qs s =
     (case find (\<lambda>q. take (length q) (map ord (take 3 s)) = q) qs of
        Some q \<Rightarrow> Some (drop (length q) s) | None \<Rightarrow> None)"

fun strip_all :: "nat list list \<Rightarrow> nat \<Rightarrow> string \<Rightarrow> string" where
  "strip_all qs 0 s = s"
| "strip_all qs (Suc n) s =
     (case strip_one qs s of None \<Rightarrow> s | Some r \<Rightarrow> strip_all qs n r)"

text \<open>Each step of the stripping loop removes at least one byte, so as many steps as the string
  has bytes are enough.\<close>

definition trim_left :: "string \<Rightarrow> string" where
  "trim_left s = strip_all space_seqs (length s) s"

definition trim_right :: "string \<Rightarrow> string" where
  "trim_right s = rev (strip_all (map rev space_seqs) (length s) (rev s))"

definition trim_space :: "string \<Rightarrow> string" where
  "trim_space s = trim_right (trim_left s)"

lemma space_seqs_nonempty: "q \<in> set space_seqs \<Longrightarrow> q \<noteq> []"
  by (auto simp: space_seqs_def)

text \<open>A byte that begins (or, read backwards, ends) no white-space code point stops the loop.\<close>

lemma strip_all_stop:
  assumes "\<And>q. q \<in> set qs \<Longrightarrow> q \<noteq> [] \<and> hd q \<noteq> ord c"
  shows "strip_all qs n (c # s) = c # s"
proof -
  have "find (\<lambda>q. take (length q) (map ord (take 3 (c # s))) = q) qs = None"
    unfolding find_None_all
  proof (intro ballI)
    fix q assume "q \<in> set qs"
    then have "q \<noteq> []" and "hd q \<noteq> ord c" using assms by auto
    then show "take (length q) (map ord (take 3 (c # s))) \<noteq> q"
      by (cases q) auto
  qed
  then have "strip_one qs (c # s) = None" by (simp add: strip_one_def)
  then show ?thesis by (cases n) simp_all
qed

text \<open>Printable ASCII other than the blank is not touched by trimming.\<close>

definition graphic :: "char \<Rightarrow> bool" where
  "graphic c \<longleftrightarrow> 0x21 \<le> ord c \<and> ord c \<le> 0x7E"

lemma trim_space_graphic:
  assumes "list_all graphic s"
  shows "trim_space s = s"
proof -
  have heads: "\<And>q c. q \<in> set space_seqs \<Longrightarrow> graphic c \<Longrightarrow> q \<noteq> [] \<and> hd q \<noteq> ord c"
    by (auto simp: space_seqs_def graphic_def)
  have lasts: "\<And>q c. q \<in> set (map rev space_seqs) \<Longrightarrow> graphic c \<Longrightarrow> q \<noteq> [] \<and> hd q \<noteq> ord c"
    by (auto simp: space_seqs_def graphic_def)
  have stop: "strip_all qs (length t) t = t"
    if "list_all graphic t" and "\<And>q c. q \<in> set qs \<Longrightarrow> graphic c \<Longrightarrow> q \<noteq> [] \<and> hd q \<noteq> ord c" for qs t
  proof (cases t)
    case (Cons c r)
    with that have "\<And>q. q \<in> set qs \<Longrightarrow> q \<noteq> [] \<and> hd q \<noteq> ord c" by auto
    then show ?thesis unfolding Cons by (rule strip_all_stop)
  qed simp
  have "list_all graphic (rev s)" using assms by (simp add: list_all_iff)
  then have "strip_all (map rev space_seqs) (length (rev s)) (rev s) = rev s"
    using lasts by (rule stop)
  moreover have "strip_all space_seqs (length s) s = s"
    using assms heads by (rule stop)
  ultimately show ?thesis by (simp add: trim_space_def trim_right_def trim_left_def)
qed

end
