(* ===== verification/GoFmt.thy ===== *)
theory GoFmt
  imports GoStrings
begin

text \<open>
  Decimal rendering (\<^verbatim>\<open>strconv.Itoa\<close>, the \<^verbatim>\<open>%d\<close> verb of \<^verbatim>\<open>fmt.Sprintf\<close>) and the \<^verbatim>\<open>%d\<close> verb of
  \<^verbatim>\<open>fmt.Sscanf\<close>: optional white space (a newline is an error), an optional sign for signed
  operands, at least one digit, a range check at the operand's width; what follows the digits is
  left in the input.
\<close>

section \<open>Rendering\<close>

fun itoa :: "nat \<Rightarrow> string" where
  "itoa n = (if n < 10 then [chr (48 + n)] else itoa (n div 10) @ [chr (48 + n mod 10)])"

declare itoa.simps [simp del]

definition itoa_int :: "int \<Rightarrow> string" where
  "itoa_int i = (if i < 0 then CHR ''-'' # itoa (nat (- i)) else itoa (nat i))"

definition is_digit :: "char \<Rightarrow> bool" where
  "is_digit c \<longleftrightarrow> 48 \<le> ord c \<and> ord c \<le> 57"

definition parse_nat :: "string \<Rightarrow> nat" where
  "parse_nat s = foldl (\<lambda>a c. 10 * a + (ord c - 48)) 0 s"

lemma itoa_digits: "list_all is_digit (itoa n)"
proof (induction n rule: itoa.induct)
  case (1 n)
  show ?case
  proof (cases "n < 10")
    case True
    then show ?thesis by (subst itoa.simps) (simp add: is_digit_def)
  next
    case False
    with 1 have "list_all is_digit (itoa (n div 10))" by simp
    with False show ?thesis by (subst itoa.simps) (simp add: is_digit_def)
  qed
qed

lemma itoa_nonempty [simp]: "itoa n \<noteq> []"
  by (subst itoa.simps) simp

lemma parse_itoa [simp]: "parse_nat (itoa n) = n"
proof (induction n rule: itoa.induct)
  case (1 n)
  show ?case
  proof (cases "n < 10")
    case True
    then show ?thesis by (subst itoa.simps) (simp add: parse_nat_def)
  next
    case False
    with 1 have "parse_nat (itoa (n div 10)) = n div 10" by simp
    with False show ?thesis by (subst itoa.simps) (simp add: parse_nat_def)
  qed
qed

lemma itoa_inj [simp]: "itoa m = itoa n \<longleftrightarrow> m = n"
  by (metis parse_itoa)

lemma digit_graphic: "is_digit c \<Longrightarrow> graphic c"
  by (auto simp: is_digit_def graphic_def)

lemma itoa_graphic: "list_all graphic (itoa n)"
  using itoa_digits [of n] by (auto simp: list_all_iff digit_graphic)

lemma not_in_itoa: "\<not> is_digit c \<Longrightarrow> c \<notin> set (itoa n)"
  using itoa_digits [of n] by (auto simp: list_all_iff)

section \<open>Scanning\<close>

fun scan_skip :: "nat \<Rightarrow> string \<Rightarrow> string option" where
  "scan_skip 0 s = Some s"
| "scan_skip (Suc n) s =
     (case s of
        [] \<Rightarrow> Some []
      | c # r \<Rightarrow>
          if c = CHR 0x0A then None
          else (case strip_one space_seqs s of None \<Rightarrow> Some s | Some r' \<Rightarrow> scan_skip n r'))"

definition skip_space :: "string \<Rightarrow> string option" where
  "skip_space s = scan_skip (length s) s"

definition scan_digits :: "string \<Rightarrow> (string \<times> string) option" where
  "scan_digits s = (let d = takeWhile is_digit s in if d = [] then None else Some (d, dropWhile is_digit s))"

definition scan_uint :: "nat \<Rightarrow> string \<Rightarrow> (nat \<times> string) option" where
  "scan_uint bits s =
     (case skip_space s of None \<Rightarrow> None | Some r \<Rightarrow>
      (case scan_digits r of None \<Rightarrow> None | Some (d, rest) \<Rightarrow>
       if parse_nat d < 2 ^ bits then Some (parse_nat d, rest) else None))"

definition scan_int :: "string \<Rightarrow> (int \<times> string) option" where
  "scan_int s =
     (case skip_space s of None \<Rightarrow> None | Some r \<Rightarrow>
      (let (neg, r') = (case r of
             [] \<Rightarrow> (False, [])
           | c # t \<Rightarrow> if c = CHR ''-'' then (True, t) else if c = CHR ''+'' then (False, t) else (False, r))
       in case scan_digits r' of None \<Rightarrow> None | Some (d, rest) \<Rightarrow>
         (let v = (if neg then - int (parse_nat d) else int (parse_nat d))
          in if - (2 ^ 63) \<le> v \<and> v < 2 ^ 63 then Some (v, rest) else None)))"

lemma space_heads: "q \<in> set space_seqs \<Longrightarrow> graphic c \<Longrightarrow> q \<noteq> [] \<and> hd q \<noteq> ord c"
  by (auto simp: space_seqs_def graphic_def)

lemma skip_space_graphic: "graphic c \<Longrightarrow> skip_space (c # s) = Some (c # s)"
proof -
  assume g: "graphic c"
  have "find (\<lambda>q. take (length q) (map ord (take 3 (c # s))) = q) space_seqs = None"
    unfolding find_None_all
  proof (intro ballI)
    fix q assume "q \<in> set space_seqs"
    from space_heads [OF this g] show "take (length q) (map ord (take 3 (c # s))) \<noteq> q"
      by (cases q) auto
  qed
  then have "strip_one space_seqs (c # s) = None" by (simp add: strip_one_def)
  moreover have "c \<noteq> CHR 0x0A" using g by (auto simp: graphic_def)
  ultimately show ?thesis by (simp add: skip_space_def)
qed

lemma scan_digits_itoa:
  assumes "r = [] \<or> \<not> is_digit (hd r)"
  shows "scan_digits (itoa n @ r) = Some (itoa n, r)"
proof -
  have all: "\<And>c. c \<in> set (itoa n) \<Longrightarrow> is_digit c"
    using itoa_digits [of n] by (auto simp: list_all_iff)
  have "takeWhile is_digit (itoa n @ r) = itoa n" and "dropWhile is_digit (itoa n @ r) = r"
    using assms all by (cases r; auto simp: takeWhile_append dropWhile_append)+
  then show ?thesis by (simp add: scan_digits_def Let_def)
qed

lemma itoa_Cons: obtains c t where "itoa n = c # t" and "is_digit c"
  using itoa_digits [of n] by (cases "itoa n") auto

lemma skip_space_itoa: "skip_space (itoa n @ r) = Some (itoa n @ r)"
proof -
  obtain c t where "itoa n = c # t" "is_digit c" by (rule itoa_Cons)
  then show ?thesis by (simp add: skip_space_graphic digit_graphic)
qed

lemma scan_uint_itoa:
  assumes "n < 2 ^ bits" and "r = [] \<or> \<not> is_digit (hd r)"
  shows "scan_uint bits (itoa n @ r) = Some (n, r)"
  using assms by (simp add: scan_uint_def skip_space_itoa scan_digits_itoa)

lemma scan_int_itoa:
  assumes "n < 2 ^ 63" and "r = [] \<or> \<not> is_digit (hd r)"
  shows "scan_int (itoa n @ r) = Some (int n, r)"
proof -
  obtain c t where c: "itoa n = c # t" "is_digit c" by (rule itoa_Cons)
  then have "c \<noteq> CHR ''-''" "c \<noteq> CHR ''+''" by (auto simp: is_digit_def)
  moreover have "scan_digits (c # t @ r) = Some (itoa n, r)"
    using scan_digits_itoa [OF assms(2), of n] c by simp
  moreover have "parse_nat (c # t) = n" using c parse_itoa [of n] by simp
  moreover have "int n < 2 ^ 63" using assms(1) by simp
  ultimately show ?thesis
    using skip_space_itoa [of n r] c by (simp add: scan_int_def)
qed

lemma scan_uint_range: "scan_uint bits s = Some (n, r) \<Longrightarrow> n < 2 ^ bits"
  by (auto simp: scan_uint_def split: option.splits if_splits)

end
