(* ===== verification/GoEncoding.thy ===== *)
theory GoEncoding
  imports GoStrings
begin

text \<open>
  Go's \<^verbatim>\<open>encoding/base64\<close> and \<^verbatim>\<open>encoding/hex\<close>, as the program uses them: \<open>raw_std\<close>
  (\<^verbatim>\<open>base64.RawStdEncoding\<close>, the PHC strings), \<open>raw_url\<close> (\<^verbatim>\<open>RawURLEncoding\<close>, the opaque tokens)
  and \<open>std\<close> (\<^verbatim>\<open>StdEncoding\<close>, the offline signatures and keys).  The decoders are the ones of the
  package in its default, non-strict mode: carriage returns and line feeds are skipped wherever
  they stand, and the unused bits of the last character are not checked.  The locale \<open>codec\<close> is
  the interface its clients rely on; it is interpreted for the three encodings.
\<close>

section \<open>Alphabets\<close>

definition b64_common :: string where
  "b64_common = ''ABCDEFGHIJKLMNOPQRSTUVWXYZabcdefghijklmnopqrstuvwxyz0123456789''"

definition std_alphabet :: string where
  "std_alphabet = b64_common @ ''+/''"

definition url_alphabet :: string where
  "url_alphabet = b64_common @ ''-_''"

definition sextet :: "string \<Rightarrow> char \<Rightarrow> nat option" where
  "sextet tbl = map_of (zip tbl [0..<64])"

definition b64_alphabet :: "string \<Rightarrow> bool" where
  "b64_alphabet tbl \<longleftrightarrow> length tbl = 64 \<and> distinct tbl \<and>
     CHR ''='' \<notin> set tbl \<and> CHR 0x0A \<notin> set tbl \<and> CHR 0x0D \<notin> set tbl"

lemma b64_alphabets: "b64_alphabet std_alphabet" "b64_alphabet url_alphabet"
  by (simp_all add: b64_alphabet_def std_alphabet_def url_alphabet_def b64_common_def)

lemma sextet_nth: "b64_alphabet tbl \<Longrightarrow> i < 64 \<Longrightarrow> sextet tbl (tbl ! i) = Some i"
  using map_of_zip_nth [of tbl "[0..<64]" i] by (simp add: sextet_def b64_alphabet_def)

lemma sextet_range: "sextet tbl c = Some n \<Longrightarrow> n < 64"
  using map_of_SomeD [of "zip tbl [0..<64]" c n] by (auto simp: sextet_def dest: set_zip_rightD)

section \<open>Encoding\<close>

definition enc_char :: "string \<Rightarrow> nat \<Rightarrow> char" where
  "enc_char tbl n = tbl ! (n mod 64)"

fun b64_enc :: "string \<Rightarrow> bool \<Rightarrow> bytes \<Rightarrow> string" where
  "b64_enc tbl pad [] = []"
| "b64_enc tbl pad [a] =
     [enc_char tbl (ord a div 4), enc_char tbl (ord a mod 4 * 16)]
     @ (if pad then ''=='' else '''')"
| "b64_enc tbl pad [a, b] =
     [enc_char tbl (ord a div 4), enc_char tbl (ord a mod 4 * 16 + ord b div 16),
      enc_char tbl (ord b mod 16 * 4)]
     @ (if pad then ''='' else '''')"
| "b64_enc tbl pad (a # b # c # r) =
     [enc_char tbl (ord a div 4), enc_char tbl (ord a mod 4 * 16 + ord b div 16),
      enc_char tbl (ord b mod 16 * 4 + ord c div 64), enc_char tbl (ord c mod 64)]
     @ b64_enc tbl pad r"

section \<open>Decoding\<close>

definition dec1 :: "string \<Rightarrow> char \<Rightarrow> char \<Rightarrow> bytes option" where
  "dec1 tbl w x =
     (case (sextet tbl w, sextet tbl x) of
        (Some p, Some q) \<Rightarrow> Some [chr (p * 4 + q div 16)]
      | _ \<Rightarrow> None)"

definition dec2 :: "string \<Rightarrow> char \<Rightarrow> char \<Rightarrow> char \<Rightarrow> bytes option" where
  "dec2 tbl w x y =
     (case (sextet tbl w, sextet tbl x, sextet tbl y) of
        (Some p, Some q, Some r) \<Rightarrow>
          Some [chr (p * 4 + q div 16), chr (q mod 16 * 16 + r div 4)]
      | _ \<Rightarrow> None)"

definition dec3 :: "string \<Rightarrow> char \<Rightarrow> char \<Rightarrow> char \<Rightarrow> char \<Rightarrow> bytes option" where
  "dec3 tbl w x y z =
     (case (sextet tbl w, sextet tbl x, sextet tbl y, sextet tbl z) of
        (Some p, Some q, Some r, Some s) \<Rightarrow>
          Some [chr (p * 4 + q div 16), chr (q mod 16 * 16 + r div 4), chr (r mod 4 * 64 + s)]
      | _ \<Rightarrow> None)"

definition opt_append :: "bytes option \<Rightarrow> bytes option \<Rightarrow> bytes option" where
  "opt_append a b = (case a of None \<Rightarrow> None | Some x \<Rightarrow> map_option ((@) x) b)"

fun dec_raw :: "string \<Rightarrow> string \<Rightarrow> bytes option" where
  "dec_raw tbl [] = Some []"
| "dec_raw tbl [w] = None"
| "dec_raw tbl [w, x] = dec1 tbl w x"
| "dec_raw tbl [w, x, y] = dec2 tbl w x y"
| "dec_raw tbl (w # x # y # z # r) = opt_append (dec3 tbl w x y z) (dec_raw tbl r)"

fun dec_pad :: "string \<Rightarrow> string \<Rightarrow> bytes option" where
  "dec_pad tbl [] = Some []"
| "dec_pad tbl [w, x, y, z] =
     (if y = CHR ''='' then (if z = CHR ''='' then dec1 tbl w x else None)
      else if z = CHR ''='' then dec2 tbl w x y
      else dec3 tbl w x y z)"
| "dec_pad tbl (w # x # y # z # r) = opt_append (dec3 tbl w x y z) (dec_pad tbl r)"
| "dec_pad tbl _ = None"

definition newline_char :: "char \<Rightarrow> bool" where
  "newline_char c \<longleftrightarrow> c = CHR 0x0A \<or> c = CHR 0x0D"

definition b64_dec :: "string \<Rightarrow> bool \<Rightarrow> string \<Rightarrow> bytes option" where
  "b64_dec tbl pad s =
     (let t = filter (\<lambda>c. \<not> newline_char c) s in if pad then dec_pad tbl t else dec_raw tbl t)"

definition raw_std_enc :: "bytes \<Rightarrow> string" where "raw_std_enc = b64_enc std_alphabet False"
definition raw_std_dec :: "string \<Rightarrow> bytes option" where "raw_std_dec = b64_dec std_alphabet False"
definition raw_url_enc :: "bytes \<Rightarrow> string" where "raw_url_enc = b64_enc url_alphabet False"
definition raw_url_dec :: "string \<Rightarrow> bytes option" where "raw_url_dec = b64_dec url_alphabet False"
definition std_enc :: "bytes \<Rightarrow> string" where "std_enc = b64_enc std_alphabet True"
definition std_dec :: "string \<Rightarrow> bytes option" where "std_dec = b64_dec std_alphabet True"

section \<open>Round trip\<close>

lemma enc_char_in: "b64_alphabet tbl \<Longrightarrow> enc_char tbl n \<in> set tbl"
  by (simp add: enc_char_def b64_alphabet_def)

lemma sextet_enc_char [simp]: "b64_alphabet tbl \<Longrightarrow> sextet tbl (enc_char tbl n) = Some (n mod 64)"
  by (simp add: enc_char_def sextet_nth)

lemma enc_char_not_eq [simp]: "b64_alphabet tbl \<Longrightarrow> enc_char tbl n \<noteq> CHR ''=''"
  using enc_char_in [of tbl n] by (auto simp: b64_alphabet_def)

lemma enc_char_not_nl [simp]: "b64_alphabet tbl \<Longrightarrow> \<not> newline_char (enc_char tbl n)"
  using enc_char_in [of tbl n] by (auto simp: b64_alphabet_def newline_char_def)

lemma enc_no_newlines: "b64_alphabet tbl \<Longrightarrow> filter (\<lambda>c. \<not> newline_char c) (b64_enc tbl pad bs) = b64_enc tbl pad bs"
  by (induction tbl pad bs rule: b64_enc.induct) (simp_all add: newline_char_def [of "CHR ''=''"])

lemma sextet_byte: "a < 256 \<Longrightarrow> a div 4 mod 64 * 4 + (a mod 4 * 16 + b) mod 64 div 16 = (a :: nat)" if "b < 16" for b
proof -
  assume "a < 256"
  then have "a div 4 mod 64 = a div 4" by simp
  moreover have "(a mod 4 * 16 + b) mod 64 div 16 = a mod 4"
    using that by (subst mod_less) auto
  ultimately show ?thesis by simp
qed

lemma dec1_enc:
  assumes "b64_alphabet tbl"
  shows "dec1 tbl (enc_char tbl (ord a div 4)) (enc_char tbl (ord a mod 4 * 16)) = Some [a]"
  using assms sextet_byte [of 0 "ord a"] by (simp add: dec1_def)

lemma nibble_join: "(a * 16 + b div 16) mod 64 mod 16 * 16 + (b mod 16 * 4 + c) mod 64 div 4 = b"
  if "b < 256" "c < 4" for a b c :: nat
proof -
  have "(a * 16 + b div 16) mod 64 mod 16 = b div 16"
    using that by (simp add: mod_mod_cancel)
  moreover have "(b mod 16 * 4 + c) mod 64 div 4 = b mod 16"
    using that by (subst mod_less) auto
  ultimately show ?thesis by simp
qed

lemma crumb_join: "(b * 4 + c div 64) mod 64 mod 4 * 64 + c mod 64 mod 64 = c"
  if "c < 256" for b c :: nat
proof -
  have "(b * 4 + c div 64) mod 64 mod 4 = c div 64"
    using that by (simp add: mod_mod_cancel)
  then show ?thesis by simp
qed

lemma dec2_enc:
  assumes "b64_alphabet tbl"
  shows "dec2 tbl (enc_char tbl (ord a div 4)) (enc_char tbl (ord a mod 4 * 16 + ord b div 16))
           (enc_char tbl (ord b mod 16 * 4)) = Some [a, b]"
  using assms sextet_byte [of "ord b div 16" "ord a"] nibble_join [of "ord b" 0 "ord a mod 4"]
  by (simp add: dec2_def)

lemma dec3_enc:
  assumes "b64_alphabet tbl"
  shows "dec3 tbl (enc_char tbl (ord a div 4)) (enc_char tbl (ord a mod 4 * 16 + ord b div 16))
           (enc_char tbl (ord b mod 16 * 4 + ord c div 64)) (enc_char tbl (ord c mod 64)) = Some [a, b, c]"
proof -
  have small: "ord b div 16 < 16" "ord c div 64 < 4" by simp_all
  have "ord a div 4 mod 64 * 4 + (ord a mod 4 * 16 + ord b div 16) mod 64 div 16 = ord a"
    by (rule sextet_byte) (use small in simp_all)
  moreover have "(ord a mod 4 * 16 + ord b div 16) mod 64 mod 16 * 16
      + (ord b mod 16 * 4 + ord c div 64) mod 64 div 4 = ord b"
    by (rule nibble_join) (use small in simp_all)
  moreover have "(ord b mod 16 * 4 + ord c div 64) mod 64 mod 4 * 64 + ord c mod 64 mod 64 = ord c"
    by (rule crumb_join) simp
  ultimately show ?thesis using assms by (simp add: dec3_def)
qed

lemma dec3_single: "dec3 tbl w x y z = Some bs \<Longrightarrow> length bs = 3"
  by (auto simp: dec3_def split: option.splits)

lemma dec_raw_enc:
  assumes "b64_alphabet tbl"
  shows "dec_raw tbl (b64_enc tbl False bs) = Some bs"
  using assms
  by (induction tbl False bs rule: b64_enc.induct)
     (simp_all add: dec1_enc dec2_enc dec3_enc opt_append_def)

lemma dec_pad_step:
  "r \<noteq> [] \<Longrightarrow> dec_pad tbl (w # x # y # z # r) = opt_append (dec3 tbl w x y z) (dec_pad tbl r)"
  by (cases r) auto

lemma dec_pad_enc:
  assumes "b64_alphabet tbl"
  shows "dec_pad tbl (b64_enc tbl True bs) = Some bs"
  using assms
proof (induction tbl True bs rule: b64_enc.induct)
  case (4 tbl a b c r)
  show ?case
  proof (cases r)
    case Nil
    with 4 show ?thesis by (simp add: dec3_enc)
  next
    case (Cons d s)
    then have "b64_enc tbl True r \<noteq> []" by (cases s rule: remdups_adj.cases) auto
    with 4 show ?thesis by (simp add: dec_pad_step dec3_enc opt_append_def)
  qed
qed (simp_all add: dec1_enc dec2_enc)

lemma b64_roundtrip:
  "b64_alphabet tbl \<Longrightarrow> b64_dec tbl pad (b64_enc tbl pad bs) = Some bs"
  by (cases pad) (simp_all add: b64_dec_def enc_no_newlines dec_raw_enc dec_pad_enc)

lemma set_b64_enc:
  assumes "b64_alphabet tbl"
  shows "set (b64_enc tbl False bs) \<subseteq> set tbl"
  using assms by (induction tbl False bs rule: b64_enc.induct) (auto simp: enc_char_in)

lemma length_b64_raw: "length (b64_enc tbl False bs) = (4 * length bs + 2) div 3"
  by (induction tbl False bs rule: b64_enc.induct) simp_all

lemma length_b64_pad: "length (b64_enc tbl True bs) = 4 * ((length bs + 2) div 3)"
proof (induction tbl True bs rule: b64_enc.induct)
  case (4 tbl a b c r)
  have "(length r + 5) div 3 = Suc ((length r + 2) div 3)" by presburger
  with 4 show ?case by (simp add: add.commute)
qed simp_all

section \<open>The interface of an encoding\<close>

text \<open>What a client needs of an encoding: decoding undoes encoding.  It follows that encoding is
  injective, and that a decoder applied to an encoder's output never fails.\<close>

locale codec =
  fixes enc :: "bytes \<Rightarrow> string" and dec :: "string \<Rightarrow> bytes option"
  assumes dec_enc: "dec (enc b) = Some b"
begin

lemma enc_inj: "enc a = enc b \<longleftrightarrow> a = b"
  by (metis dec_enc option.inject)

lemma dec_total: "dec (enc b) \<noteq> None"
  by (simp add: dec_enc)

end

text \<open>An encoding whose output keeps to a set of characters: a separator outside the set can be
  used to join encoded parts, and cutting at it recovers them.\<close>

locale token_codec = codec +
  fixes sep :: char
  assumes sep_free: "sep \<notin> set (enc b)"
begin

lemma cut_joined: "cut_on sep (enc a @ sep # rest) = Some (enc a, rest)"
  by (rule cut_on_append) (rule sep_free)

lemma split_joined: "split_on sep (enc a @ sep # enc b) = [enc a, enc b]"
  using split_on_append [OF sep_free, of a "enc b"] by (simp add: split_on_no_sep sep_free)

end

interpretation rawstd: token_codec raw_std_enc raw_std_dec "CHR ''$''"
proof unfold_locales
  show "raw_std_dec (raw_std_enc b) = Some b" for b
    by (simp add: raw_std_enc_def raw_std_dec_def b64_roundtrip b64_alphabets)
  show "CHR ''$'' \<notin> set (raw_std_enc b)" for b
    using set_b64_enc [OF b64_alphabets(1), of b]
    by (auto simp: raw_std_enc_def std_alphabet_def b64_common_def)
qed

interpretation rawurl: token_codec raw_url_enc raw_url_dec "CHR ''.''"
proof unfold_locales
  show "raw_url_dec (raw_url_enc b) = Some b" for b
    by (simp add: raw_url_enc_def raw_url_dec_def b64_roundtrip b64_alphabets)
  show "CHR ''.'' \<notin> set (raw_url_enc b)" for b
    using set_b64_enc [OF b64_alphabets(2), of b]
    by (auto simp: raw_url_enc_def url_alphabet_def b64_common_def)
qed

interpretation stdb64: codec std_enc std_dec
  by unfold_locales (simp add: std_enc_def std_dec_def b64_roundtrip b64_alphabets)

lemma raw_url_enc_length: "length (raw_url_enc b) = (4 * length b + 2) div 3"
  by (simp add: raw_url_enc_def length_b64_raw)

lemma raw_url_enc_empty [simp]: "raw_url_enc b = [] \<longleftrightarrow> b = []"
  using raw_url_enc_length [of b] by (cases b) auto

lemma raw_std_enc_empty [simp]: "raw_std_enc b = [] \<longleftrightarrow> b = []"
  by (metis raw_std_enc_def length_b64_raw b64_enc.simps(1) rawstd.enc_inj)

section \<open>Hexadecimal\<close>

definition hex_alphabet :: string where
  "hex_alphabet = ''0123456789abcdef''"

definition hex_hi :: "char \<Rightarrow> char" where "hex_hi b = hex_alphabet ! (ord b div 16)"
definition hex_lo :: "char \<Rightarrow> char" where "hex_lo b = hex_alphabet ! (ord b mod 16)"

text \<open>\<^verbatim>\<open>hex.EncodeToString\<close>.\<close>

definition hex_enc :: "bytes \<Rightarrow> string" where
  "hex_enc bs = concat (map (\<lambda>b. [hex_hi b, hex_lo b]) bs)"

definition is_lower_hex :: "char \<Rightarrow> bool" where
  "is_lower_hex c \<longleftrightarrow> (48 \<le> ord c \<and> ord c \<le> 57) \<or> (97 \<le> ord c \<and> ord c \<le> 102)"

lemma length_hex_enc [simp]: "length (hex_enc bs) = 2 * length bs"
  by (induction bs) (simp_all add: hex_enc_def)

lemma hex_nth_inj: "i < 16 \<Longrightarrow> j < 16 \<Longrightarrow> hex_alphabet ! i = hex_alphabet ! j \<longleftrightarrow> i = j"
  by (rule nth_eq_iff_index_eq) (simp_all add: hex_alphabet_def)

lemma hex_digits_inj: "hex_hi a = hex_hi b \<Longrightarrow> hex_lo a = hex_lo b \<Longrightarrow> a = b"
proof -
  assume h: "hex_hi a = hex_hi b" "hex_lo a = hex_lo b"
  from h have "ord a div 16 = ord b div 16" "ord a mod 16 = ord b mod 16"
    by (simp_all add: hex_hi_def hex_lo_def hex_nth_inj)
  then have "ord a = ord b" by (metis div_mult_mod_eq)
  then show ?thesis by simp
qed

lemma hex_enc_inj [simp]: "hex_enc a = hex_enc b \<longleftrightarrow> a = b"
proof
  show "hex_enc a = hex_enc b \<Longrightarrow> a = b"
  proof (induction a arbitrary: b)
    case Nil
    then show ?case by (cases b) (simp_all add: hex_enc_def)
  next
    case (Cons x xs)
    then obtain y ys where b: "b = y # ys" by (cases b) (simp_all add: hex_enc_def)
    with Cons.prems have "hex_hi x = hex_hi y" "hex_lo x = hex_lo y" "hex_enc xs = hex_enc ys"
      by (simp_all add: hex_enc_def)
    with Cons.IH b show ?case by (auto intro: hex_digits_inj)
  qed
qed simp

lemma hex_enc_lower: "list_all is_lower_hex (hex_enc bs)"
proof -
  have "list_all is_lower_hex hex_alphabet"
    by (simp add: hex_alphabet_def is_lower_hex_def)
  then have n: "i < 16 \<Longrightarrow> is_lower_hex (hex_alphabet ! i)" for i
    by (simp add: list_all_length hex_alphabet_def)
  have "is_lower_hex (hex_hi b)" "is_lower_hex (hex_lo b)" for b
    unfolding hex_hi_def hex_lo_def by (rule n, simp)+
  then show ?thesis by (induction bs) (simp_all add: hex_enc_def)
qed

end
