(* ===== verification/GoJson.thy ===== *)
theory GoJson
  imports GoFmt GoEncoding
begin

text \<open>
  The parts of \<^verbatim>\<open>unicode/utf8\<close> and \<^verbatim>\<open>encoding/json\<close> the handlers rest on, at the level of bytes:
  UTF-8 decoding, the string encoder of \<^verbatim>\<open>json.Encoder\<close>, a parser for JSON values as
  \<^verbatim>\<open>json.Decoder\<close> reads them off a stream, the reader behind \<^verbatim>\<open>http.MaxBytesReader\<close>, and the
  decoding of an object into a struct with \<^verbatim>\<open>DisallowUnknownFields\<close>.
\<close>

section \<open>UTF-8\<close>

definition cont_byte :: "nat \<Rightarrow> bool" where
  "cont_byte b \<longleftrightarrow> 0x80 \<le> b \<and> b \<le> 0xBF"

text \<open>\<^verbatim>\<open>utf8.DecodeRune\<close>: the code point at the front of the string and its width; the replacement
  character with width 1 where the bytes are not valid UTF-8.\<close>

definition rune_error :: nat where "rune_error = 0xFFFD"

fun utf8_multi :: "nat list \<Rightarrow> nat \<times> nat" where
  "utf8_multi (a # b # r) =
     (if 0xC2 \<le> a \<and> a \<le> 0xDF then
        (if cont_byte b then ((a - 0xC0) * 64 + (b - 0x80), 2) else (rune_error, 1))
      else (case r of
          [] \<Rightarrow> (rune_error, 1)
        | c # r' \<Rightarrow>
            if 0xE0 \<le> a \<and> a \<le> 0xEF then
              (if (if a = 0xE0 then 0xA0 \<le> b \<and> b \<le> 0xBF
                   else if a = 0xED then 0x80 \<le> b \<and> b \<le> 0x9F else cont_byte b) \<and> cont_byte c
               then ((a - 0xE0) * 4096 + (b - 0x80) * 64 + (c - 0x80), 3) else (rune_error, 1))
            else (case r' of
                [] \<Rightarrow> (rune_error, 1)
              | d # _ \<Rightarrow>
                  if 0xF0 \<le> a \<and> a \<le> 0xF4 then
                    (if (if a = 0xF0 then 0x90 \<le> b \<and> b \<le> 0xBF
                         else if a = 0xF4 then 0x80 \<le> b \<and> b \<le> 0x8F else cont_byte b)
                        \<and> cont_byte c \<and> cont_byte d
                     then ((a - 0xF0) * 262144 + (b - 0x80) * 4096 + (c - 0x80) * 64 + (d - 0x80), 4)
                     else (rune_error, 1))
                  else (rune_error, 1))))"
| "utf8_multi _ = (rune_error, 1)"

definition utf8_decode :: "string \<Rightarrow> nat \<times> nat" where
  "utf8_decode s =
     (case s of
        [] \<Rightarrow> (rune_error, 0)
      | c # _ \<Rightarrow> if ord c < 0x80 then (ord c, 1) else utf8_multi (map ord (take 4 s)))"

text \<open>\<^verbatim>\<open>utf8.AppendRune\<close>.\<close>

definition utf8_encode :: "nat \<Rightarrow> string" where
  "utf8_encode r =
     (if r < 0x80 then [chr r]
      else if r < 0x800 then [chr (0xC0 + r div 64), chr (0x80 + r mod 64)]
      else if (0xD800 \<le> r \<and> r \<le> 0xDFFF) \<or> 0x10FFFF < r then [CHR 0xEF, CHR 0xBF, CHR 0xBD]
      else if r < 0x10000 then
        [chr (0xE0 + r div 4096), chr (0x80 + r div 64 mod 64), chr (0x80 + r mod 64)]
      else [chr (0xF0 + r div 262144), chr (0x80 + r div 4096 mod 64),
            chr (0x80 + r div 64 mod 64), chr (0x80 + r mod 64)])"

definition replacement :: string where
  "replacement = [CHR 0xEF, CHR 0xBF, CHR 0xBD]"

lemma utf8_multi_width: "1 \<le> snd (utf8_multi s) \<and> snd (utf8_multi s) \<le> 4"
  by (induction s rule: utf8_multi.induct) (auto split: if_splits list.splits)

lemma utf8_width_pos: "s \<noteq> [] \<Longrightarrow> 1 \<le> snd (utf8_decode s)"
  using utf8_multi_width by (cases s) (auto simp: utf8_decode_def)

section \<open>Encoding strings\<close>

text \<open>\<^verbatim>\<open>encoding/json\<close>'s string encoder with HTML escaping on, as \<^verbatim>\<open>json.Marshal\<close> and
  \<^verbatim>\<open>json.Encoder\<close> use it.\<close>

definition esc_ascii :: "char \<Rightarrow> string" where
  "esc_ascii c =
     (if c = CHR 0x5C \<or> c = CHR 0x22 then [CHR 0x5C, c]
      else if c = CHR 0x08 then [CHR 0x5C, CHR ''b'']
      else if c = CHR 0x0C then [CHR 0x5C, CHR ''f'']
      else if c = CHR 0x0A then [CHR 0x5C, CHR ''n'']
      else if c = CHR 0x0D then [CHR 0x5C, CHR ''r'']
      else if c = CHR 0x09 then [CHR 0x5C, CHR ''t'']
      else if ord c < 0x20 \<or> c = CHR ''<'' \<or> c = CHR ''>'' \<or> c = CHR ''&''
        then [CHR 0x5C, CHR ''u'', CHR ''0'', CHR ''0'', hex_hi c, hex_lo c]
      else [c])"

function json_body :: "string \<Rightarrow> string" where
  "json_body s =
     (case s of
        [] \<Rightarrow> []
      | c # r \<Rightarrow>
          if ord c < 0x80 then esc_ascii c @ json_body r
          else (let (rn, n) = utf8_decode s in
            if n \<le> 1 then [CHR 0x5C, CHR ''u'', CHR ''f'', CHR ''f'', CHR ''f'', CHR ''d''] @ json_body r
            else if rn = 0x2028 \<or> rn = 0x2029
              then [CHR 0x5C, CHR ''u'', CHR ''2'', CHR ''0'', CHR ''2'', hex_alphabet ! (rn mod 16)]
                   @ json_body (drop n s)
            else take n s @ json_body (drop n s)))"
  by pat_completeness auto
termination
  by (relation "measure length") auto

declare json_body.simps [simp del]

definition json_quote :: "string \<Rightarrow> string" where
  "json_quote s = CHR 0x22 # json_body s @ [CHR 0x22]"

section \<open>Values\<close>

datatype json =
    JNull
  | JBool bool
  | JNum string
  | JStr string
  | JArr "json list"
  | JObj "(string \<times> json) list"

definition json_ws :: "char \<Rightarrow> bool" where
  "json_ws c \<longleftrightarrow> c = CHR 0x20 \<or> c = CHR 0x09 \<or> c = CHR 0x0D \<or> c = CHR 0x0A"

definition skip_ws :: "string \<Rightarrow> string" where
  "skip_ws s = dropWhile json_ws s"

subsection \<open>Strings\<close>

definition hex_val :: "char \<Rightarrow> nat option" where
  "hex_val c =
     (if 48 \<le> ord c \<and> ord c \<le> 57 then Some (ord c - 48)
      else if 97 \<le> ord c \<and> ord c \<le> 102 then Some (ord c - 87)
      else if 65 \<le> ord c \<and> ord c \<le> 70 then Some (ord c - 55)
      else None)"

fun hex4 :: "string \<Rightarrow> (nat \<times> string) option" where
  "hex4 (a # b # c # d # r) =
     (case (hex_val a, hex_val b, hex_val c, hex_val d) of
        (Some w, Some x, Some y, Some z) \<Rightarrow> Some (w * 4096 + x * 256 + y * 16 + z, r)
      | _ \<Rightarrow> None)"
| "hex4 _ = None"

text \<open>The text of a string literal up to the closing quote, as the scanner accepts it: no raw
  control characters, only the escapes of the grammar.  The result is the raw text and the input
  after the quote.\<close>

fun scan_str :: "nat \<Rightarrow> string \<Rightarrow> (string \<times> string) option" where
  "scan_str 0 s = None"
| "scan_str (Suc n) s =
     (case s of
        [] \<Rightarrow> None
      | c # r \<Rightarrow>
          if c = CHR 0x22 then Some ([], r)
          else if ord c < 0x20 then None
          else if c = CHR 0x5C then
            (case r of
               [] \<Rightarrow> None
             | e # r' \<Rightarrow>
                 if e \<in> {CHR ''b'', CHR ''f'', CHR ''n'', CHR ''r'', CHR ''t'', CHR 0x5C, CHR ''/'', CHR 0x22}
                 then map_option (\<lambda>(t, q). (c # e # t, q)) (scan_str n r')
                 else if e = CHR ''u'' \<and> hex4 r' \<noteq> None
                 then map_option (\<lambda>(t, q). (c # e # take 4 r' @ t, q)) (scan_str n (drop 4 r'))
                 else None)
          else map_option (\<lambda>(t, q). (c # t, q)) (scan_str n r))"

text \<open>\<^verbatim>\<open>unquote\<close>: escapes are replaced, surrogate pairs joined, unpaired surrogates and invalid UTF-8
  replaced by U+FFFD.\<close>

definition surrogate :: "nat \<Rightarrow> bool" where
  "surrogate r \<longleftrightarrow> 0xD800 \<le> r \<and> r \<le> 0xDFFF"

definition unescape :: "char \<Rightarrow> char" where
  "unescape e =
     (if e = CHR ''b'' then CHR 0x08 else if e = CHR ''f'' then CHR 0x0C
      else if e = CHR ''n'' then CHR 0x0A else if e = CHR ''r'' then CHR 0x0D
      else if e = CHR ''t'' then CHR 0x09 else e)"

definition low_surrogate_after :: "string \<Rightarrow> (nat \<times> string) option" where
  "low_surrogate_after r =
     (case r of
        a # b # t \<Rightarrow> if a = CHR 0x5C \<and> b = CHR ''u'' then hex4 t else None
      | _ \<Rightarrow> None)"

lemma hex4_length: "hex4 s = Some (v, r) \<Longrightarrow> length r < length s"
  by (induction s rule: hex4.induct) (auto split: option.splits)

lemma low_surrogate_length: "low_surrogate_after s = Some (v, r) \<Longrightarrow> length r < length s"
  by (auto simp: low_surrogate_after_def split: list.splits if_splits dest!: hex4_length)

function unquote :: "string \<Rightarrow> string" where
  "unquote s =
     (case s of
        [] \<Rightarrow> []
      | c # r \<Rightarrow>
          if c = CHR 0x5C then
            (case r of
               [] \<Rightarrow> []
             | e # r' \<Rightarrow>
                 if e = CHR ''u'' then
                   (case hex4 r' of
                      None \<Rightarrow> []
                    | Some (v, t) \<Rightarrow>
                        if surrogate v then
                          (case low_surrogate_after t of
                             Some (v2, t2) \<Rightarrow>
                               if v \<le> 0xDBFF \<and> 0xDC00 \<le> v2 \<and> v2 \<le> 0xDFFF
                               then utf8_encode ((v - 0xD800) * 1024 + (v2 - 0xDC00) + 0x10000) @ unquote t2
                               else replacement @ unquote t
                           | None \<Rightarrow> replacement @ unquote t)
                        else utf8_encode v @ unquote t)
                 else unescape e # unquote r')
          else if ord c < 0x80 then c # unquote r
          else (let (rn, n) = utf8_decode s in
            if n \<le> 1 then replacement @ unquote r
            else take n s @ unquote (drop n s)))"
  by pat_completeness auto
termination
  by (relation "measure length")
     (auto dest!: hex4_length low_surrogate_length)

declare unquote.simps [simp del]

definition parse_str :: "string \<Rightarrow> (string \<times> string) option" where
  "parse_str s = map_option (\<lambda>(t, r). (unquote t, r)) (scan_str (Suc (length s)) s)"

subsection \<open>Numbers\<close>

definition num_digits :: "string \<Rightarrow> (string \<times> string) option" where
  "num_digits s = (let d = takeWhile is_digit s in if d = [] then None else Some (d, dropWhile is_digit s))"

definition num_int :: "string \<Rightarrow> (string \<times> string) option" where
  "num_int s =
     (case s of
        [] \<Rightarrow> None
      | c # r \<Rightarrow> if c = CHR ''0'' then Some ([c], r) else num_digits s)"

definition num_frac :: "string \<Rightarrow> (string \<times> string) option" where
  "num_frac s =
     (case s of
        [] \<Rightarrow> Some ([], [])
      | c # r \<Rightarrow> if c = CHR ''.'' then map_option (\<lambda>(d, t). (c # d, t)) (num_digits r) else Some ([], s))"

definition num_exp :: "string \<Rightarrow> (string \<times> string) option" where
  "num_exp s =
     (case s of
        [] \<Rightarrow> Some ([], [])
      | c # r \<Rightarrow>
          if c = CHR ''e'' \<or> c = CHR ''E'' then
            (case r of
               [] \<Rightarrow> None
             | x # r' \<Rightarrow>
                 if x = CHR ''+'' \<or> x = CHR ''-''
                 then map_option (\<lambda>(d, t). (c # x # d, t)) (num_digits r')
                 else map_option (\<lambda>(d, t). (c # d, t)) (num_digits r))
          else Some ([], s))"

definition parse_num :: "string \<Rightarrow> (string \<times> string) option" where
  "parse_num s =
     (let (sg, r0) = (case s of [] \<Rightarrow> ([], []) | c # r \<Rightarrow> if c = CHR ''-'' then ([c], r) else ([], s))
      in case num_int r0 of None \<Rightarrow> None | Some (i, r1) \<Rightarrow>
        (case num_frac r1 of None \<Rightarrow> None | Some (f, r2) \<Rightarrow>
         (case num_exp r2 of None \<Rightarrow> None | Some (e, r3) \<Rightarrow> Some (sg @ i @ f @ e, r3))))"

subsection \<open>The parser\<close>

text \<open>One value at the front of the input, white space before it skipped.  \<open>n\<close> is fuel (every call
  on the way to a nested value or to the next element consumes at least one byte of the input), \<open>d\<close> the
  nesting still allowed; \<^verbatim>\<open>encoding/json\<close> allows 10000 levels.\<close>

fun p_value :: "nat \<Rightarrow> nat \<Rightarrow> string \<Rightarrow> (json \<times> string) option"
and p_elems :: "nat \<Rightarrow> nat \<Rightarrow> string \<Rightarrow> (json list \<times> string) option"
and p_members :: "nat \<Rightarrow> nat \<Rightarrow> string \<Rightarrow> ((string \<times> json) list \<times> string) option" where
  "p_value 0 d s = None"
| "p_value (Suc n) d s =
     (case skip_ws s of
        [] \<Rightarrow> None
      | c # r \<Rightarrow>
          if c = CHR 0x22 then map_option (\<lambda>(t, q). (JStr t, q)) (parse_str r)
          else if c = CHR ''{'' then
            (if d = 0 then None
             else (case skip_ws r of
                 [] \<Rightarrow> None
               | c' # r' \<Rightarrow>
                   if c' = CHR ''}'' then Some (JObj [], r')
                   else map_option (\<lambda>(m, q). (JObj m, q)) (p_members n (d - 1) r)))
          else if c = CHR ''['' then
            (if d = 0 then None
             else (case skip_ws r of
                 [] \<Rightarrow> None
               | c' # r' \<Rightarrow>
                   if c' = CHR '']'' then Some (JArr [], r')
                   else map_option (\<lambda>(m, q). (JArr m, q)) (p_elems n (d - 1) r)))
          else if c = CHR ''t'' then map_option (\<lambda>q. (JBool True, q)) (cut_prefix ''rue'' r)
          else if c = CHR ''f'' then map_option (\<lambda>q. (JBool False, q)) (cut_prefix ''alse'' r)
          else if c = CHR ''n'' then map_option (\<lambda>q. (JNull, q)) (cut_prefix ''ull'' r)
          else map_option (\<lambda>(t, q). (JNum t, q)) (parse_num (c # r)))"
| "p_elems 0 d s = None"
| "p_elems (Suc n) d s =
     (case p_value n d s of
        None \<Rightarrow> None
      | Some (v, r) \<Rightarrow>
          (case skip_ws r of
             [] \<Rightarrow> None
           | c # r' \<Rightarrow>
               if c = CHR '']'' then Some ([v], r')
               else if c = CHR '','' then map_option (\<lambda>(vs, q). (v # vs, q)) (p_elems n d r')
               else None))"
| "p_members 0 d s = None"
| "p_members (Suc n) d s =
     (case skip_ws s of
        [] \<Rightarrow> None
      | c # r \<Rightarrow>
          if c \<noteq> CHR 0x22 then None
          else (case parse_str r of
              None \<Rightarrow> None
            | Some (k, r1) \<Rightarrow>
                (case skip_ws r1 of
                   [] \<Rightarrow> None
                 | c2 # r2 \<Rightarrow>
                     if c2 \<noteq> CHR '':'' then None
                     else (case p_value n d r2 of
                         None \<Rightarrow> None
                       | Some (v, r3) \<Rightarrow>
                           (case skip_ws r3 of
                              [] \<Rightarrow> None
                            | c4 # r4 \<Rightarrow>
                                if c4 = CHR ''}'' then Some ([(k, v)], r4)
                                else if c4 = CHR '','' then
                                  map_option (\<lambda>(ms, q). ((k, v) # ms, q)) (p_members n d r4)
                                else None)))))"

definition max_nesting :: nat where "max_nesting = 10000"

definition json_parse :: "string \<Rightarrow> (json \<times> string) option" where
  "json_parse s = p_value (2 * length s + 2) max_nesting s"

section \<open>Request bodies\<close>

text \<open>A request body: the bytes it delivers, and the error its reader ends with (\<^const>\<open>None\<close> is
  \<^verbatim>\<open>io.EOF\<close>).  \<^verbatim>\<open>http.MaxBytesReader\<close> delivers at most \<open>n\<close> bytes and then fails if there are
  more.\<close>

record body =
  b_data :: string
  b_err :: "gerr option"

definition max_bytes_reader :: "nat \<Rightarrow> body \<Rightarrow> body" where
  "max_bytes_reader n b =
     (if length (b_data b) \<le> n then b
      else \<lparr>b_data = take n (b_data b), b_err = Some MaxBytesError\<rparr>)"

text \<open>The first \<^verbatim>\<open>Decode\<close> of a \<^verbatim>\<open>json.Decoder\<close>: the value and what is left in the stream.  An object
  or an array ends with its bracket; any other value needs one more byte or the end of the stream
  to be known to have ended.\<close>

fun composite :: "json \<Rightarrow> bool" where
  "composite (JObj _) = True"
| "composite (JArr _) = True"
| "composite _ = False"

definition decode_value :: "body \<Rightarrow> (json \<times> string) option" where
  "decode_value b =
     (case json_parse (b_data b) of
        None \<Rightarrow> None
      | Some (v, rest) \<Rightarrow>
          if composite v \<or> rest \<noteq> [] \<or> b_err b = None then Some (v, rest) else None)"

text \<open>Whether a further \<^verbatim>\<open>Decode\<close> returns \<^verbatim>\<open>io.EOF\<close>, and \<^verbatim>\<open>Decoder.More\<close>, each on what the first
  \<^verbatim>\<open>Decode\<close> left.\<close>

definition decode_eof :: "string \<Rightarrow> gerr option \<Rightarrow> bool" where
  "decode_eof rest err \<longleftrightarrow> skip_ws rest = [] \<and> err = None"

definition decoder_more :: "string \<Rightarrow> bool" where
  "decoder_more rest =
     (case skip_ws rest of [] \<Rightarrow> False | c # _ \<Rightarrow> c \<noteq> CHR '']'' \<and> c \<noteq> CHR ''}'')"

section \<open>Decoding an object into a struct of strings\<close>

text \<open>Field names match exactly or under Unicode simple folding: for an ASCII name these are the two
  letter cases, the long s (U+017F) for s and the Kelvin sign (U+212A) for k.\<close>

fun fold_key :: "string \<Rightarrow> string" where
  "fold_key [] = []"
| "fold_key (c # r) =
     (if c = CHR 0xC5 \<and> take 1 r = [CHR 0xBF] then CHR ''s'' # fold_key (drop 1 r)
      else if c = CHR 0xE2 \<and> take 2 r = [CHR 0x84, CHR 0xAA] then CHR ''k'' # fold_key (drop 2 r)
      else ascii_lower c # fold_key r)"

definition find_field :: "string list \<Rightarrow> string \<Rightarrow> string option" where
  "find_field names k =
     (if k \<in> set names then Some k else find (\<lambda>n. fold_key n = fold_key k) names)"

text \<open>\<^verbatim>\<open>DisallowUnknownFields\<close>: an unknown field is an error, as is a value of the wrong type;
  \<^verbatim>\<open>null\<close> leaves the field as it is; a repeated field overwrites.\<close>

fun decode_fields ::
  "string list \<Rightarrow> (string \<times> json) list \<Rightarrow> (string \<Rightarrow> string) \<Rightarrow> (string \<Rightarrow> string) option" where
  "decode_fields names [] f = Some f"
| "decode_fields names ((k, v) # ms) f =
     (case find_field names k of
        None \<Rightarrow> None
      | Some n \<Rightarrow>
          (case v of
             JStr s \<Rightarrow> decode_fields names ms (f(n := s))
           | JNull \<Rightarrow> decode_fields names ms f
           | _ \<Rightarrow> None))"

definition decode_struct :: "string list \<Rightarrow> json \<Rightarrow> (string \<Rightarrow> string) option" where
  "decode_struct names v =
     (case v of
        JObj ms \<Rightarrow> decode_fields names ms (\<lambda>_. [])
      | JNull \<Rightarrow> Some (\<lambda>_. [])
      | _ \<Rightarrow> None)"

lemma decode_fields_known:
  "decode_fields names ms f = Some g \<Longrightarrow> \<forall>(k, v) \<in> set ms. find_field names k \<noteq> None"
  by (induction names ms f rule: decode_fields.induct) (auto split: option.splits json.splits)

end
