(* ===== verification/Wire.thy ===== *)
theory Wire
  imports GoJson
begin

text \<open>
  What goes out on the wire: responses, and the error envelope.  The envelope has one writer per
  package (\<^verbatim>\<open>internal/http/errors.go\<close>, \<^verbatim>\<open>auth/login.go\<close>, \<^verbatim>\<open>observability/errors.go\<close>), because the
  modules may not import the HTTP package; the three are modelled one by one and proved to write
  the same bytes.
\<close>

record response =
  rsp_status :: nat
  rsp_headers :: "(string \<times> string) list"
  rsp_body :: string

definition content_type_json :: "(string \<times> string) list" where
  "content_type_json = [(''Content-Type'', ''application/json'')]"

definition json_field :: "string \<Rightarrow> string \<Rightarrow> string" where
  "json_field k v = json_quote k @ CHR '':'' # v"

section \<open>The envelope structs\<close>

record error_detail =
  ed_code :: string
  ed_message :: string

record error_envelope =
  ee_error :: error_detail
  ee_request_id :: string

definition marshal_envelope :: "error_envelope \<Rightarrow> string" where
  "marshal_envelope e =
     ''{'' @ json_field ''error''
        (''{'' @ json_field ''code'' (json_quote (ed_code (ee_error e)))
         @ '','' @ json_field ''message'' (json_quote (ed_message (ee_error e))) @ ''}'')
     @ '','' @ json_field ''requestId'' (json_quote (ee_request_id e)) @ ''}''"

text \<open>\<^verbatim>\<open>json.NewEncoder(w).Encode\<close> ends the value with a newline.\<close>

definition http_write_error :: "nat \<Rightarrow> string \<Rightarrow> string \<Rightarrow> string \<Rightarrow> response" where
  "http_write_error status code msg rid =
     \<lparr>rsp_status = status, rsp_headers = content_type_json,
      rsp_body = marshal_envelope
        \<lparr>ee_error = \<lparr>ed_code = code, ed_message = msg\<rparr>, ee_request_id = rid\<rparr> @ [CHR 0x0A]\<rparr>"

definition auth_write_error :: "nat \<Rightarrow> string \<Rightarrow> string \<Rightarrow> string \<Rightarrow> response" where
  "auth_write_error status code msg rid =
     \<lparr>rsp_status = status, rsp_headers = content_type_json,
      rsp_body = marshal_envelope
        \<lparr>ee_error = \<lparr>ed_code = code, ed_message = msg\<rparr>, ee_request_id = rid\<rparr> @ [CHR 0x0A]\<rparr>"

definition obs_write_error :: "nat \<Rightarrow> string \<Rightarrow> string \<Rightarrow> string \<Rightarrow> response" where
  "obs_write_error status code msg rid =
     \<lparr>rsp_status = status, rsp_headers = content_type_json,
      rsp_body = marshal_envelope
        \<lparr>ee_error = \<lparr>ed_code = code, ed_message = msg\<rparr>, ee_request_id = rid\<rparr> @ [CHR 0x0A]\<rparr>"

lemma write_error_agree:
  "auth_write_error = http_write_error" "obs_write_error = http_write_error"
  by (simp_all add: fun_eq_iff http_write_error_def auth_write_error_def obs_write_error_def)

end
