(* ===== verification/Sha256.thy ===== *)
theory Sha256
  imports GoEncoding
begin

text \<open>
  SHA-256 (\<^verbatim>\<open>crypto/sha256\<close>, FIPS 180-4), the hash of the access tokens, the refresh verifiers and
  the ingest tokens.  A 32-bit word is an \<^typ>\<open>int\<close> kept below \<open>2 ^ 32\<close> by \<open>take_bit 32\<close> after
  every addition and left shift, so that closed instances evaluate quickly in the kernel.
\<close>

unbundle bit_operations_syntax

type_synonym w32 = int

section \<open>Words\<close>

definition rotr32 :: "nat \<Rightarrow> w32 \<Rightarrow> w32" where
  "rotr32 n x = drop_bit n x OR take_bit 32 (push_bit (32 - n) x)"

definition add32 :: "w32 \<Rightarrow> w32 \<Rightarrow> w32" where
  "add32 x y = take_bit 32 (x + y)"

definition ssig0 :: "w32 \<Rightarrow> w32" where
  "ssig0 x = rotr32 7 x XOR rotr32 18 x XOR drop_bit 3 x"

definition ssig1 :: "w32 \<Rightarrow> w32" where
  "ssig1 x = rotr32 17 x XOR rotr32 19 x XOR drop_bit 10 x"

definition bsig0 :: "w32 \<Rightarrow> w32" where
  "bsig0 x = rotr32 2 x XOR rotr32 13 x XOR rotr32 22 x"

definition bsig1 :: "w32 \<Rightarrow> w32" where
  "bsig1 x = rotr32 6 x XOR rotr32 11 x XOR rotr32 25 x"

definition ch_fun :: "w32 \<Rightarrow> w32 \<Rightarrow> w32 \<Rightarrow> w32" where
  "ch_fun e f g = (e AND f) XOR ((0xFFFFFFFF - e) AND g)"

definition maj_fun :: "w32 \<Rightarrow> w32 \<Rightarrow> w32 \<Rightarrow> w32" where
  "maj_fun a b c = (a AND b) XOR (a AND c) XOR (b AND c)"

text \<open>The round constants, eight to a row.\<close>

definition sha_k :: "w32 list" where
  "sha_k = concat
    [[0x428a2f98, 0x71374491, 0xb5c0fbcf, 0xe9b5dba5, 0x3956c25b, 0x59f111f1, 0x923f82a4, 0xab1c5ed5],
     [0xd807aa98, 0x12835b01, 0x243185be, 0x550c7dc3, 0x72be5d74, 0x80deb1fe, 0x9bdc06a7, 0xc19bf174],
     [0xe49b69c1, 0xefbe4786, 0x0fc19dc6, 0x240ca1cc, 0x2de92c6f, 0x4a7484aa, 0x5cb0a9dc, 0x76f988da],
     [0x983e5152, 0xa831c66d, 0xb00327c8, 0xbf597fc7, 0xc6e00bf3, 0xd5a79147, 0x06ca6351, 0x14292967],
     [0x27b70a85, 0x2e1b2138, 0x4d2c6dfc, 0x53380d13, 0x650a7354, 0x766a0abb, 0x81c2c92e, 0x92722c85],
     [0xa2bfe8a1, 0xa81a664b, 0xc24b8b70, 0xc76c51a3, 0xd192e819, 0xd6990624, 0xf40e3585, 0x106aa070],
     [0x19a4c116, 0x1e376c08, 0x2748774c, 0x34b0bcb5, 0x391c0cb3, 0x4ed8aa4a, 0x5b9cca4f, 0x682e6ff3],
     [0x748f82ee, 0x78a5636f, 0x84c87814, 0x8cc70208, 0x90befffa, 0xa4506ceb, 0xbef9a3f7, 0xc67178f2]]"

definition sha_init :: "w32 list" where
  "sha_init =
    [0x6a09e667, 0xbb67ae85, 0x3c6ef372, 0xa54ff53a, 0x510e527f, 0x9b05688c, 0x1f83d9ab, 0x5be0cd19]"

section \<open>Blocks\<close>

fun be_words :: "bytes \<Rightarrow> w32 list" where
  "be_words (a # b # c # d # r) =
     (((of_char a * 256 + of_char b) * 256 + of_char c) * 256 + of_char d) # be_words r"
| "be_words _ = []"

definition be_bytes :: "w32 \<Rightarrow> bytes" where
  "be_bytes w = map (\<lambda>i. char_of (take_bit 8 (drop_bit i w))) [24, 16, 8, 0]"

definition len_bytes :: "int \<Rightarrow> bytes" where
  "len_bytes n = map (\<lambda>i. char_of (take_bit 8 (drop_bit i n))) [56, 48, 40, 32, 24, 16, 8, 0]"

definition sha_pad :: "bytes \<Rightarrow> bytes" where
  "sha_pad m = m @ [CHR 0x80] @ replicate ((119 - length m mod 64) mod 64) (CHR 0x00)
     @ len_bytes (8 * int (length m))"

text \<open>The message schedule, over a window of the words made so far, newest first.\<close>

fun sha_sched :: "nat \<Rightarrow> w32 list \<Rightarrow> w32 list" where
  "sha_sched 0 w = rev w"
| "sha_sched (Suc n) w =
     sha_sched n (add32 (add32 (w ! 15) (ssig0 (w ! 14))) (add32 (w ! 6) (ssig1 (w ! 1))) # w)"

fun sha_upd :: "w32 list \<Rightarrow> w32 \<Rightarrow> w32 \<Rightarrow> w32 list" where
  "sha_upd [a, b, c, d, e, f, g, h] t1 t2 = [add32 t1 t2, a, b, c, add32 d t1, e, f, g]"
| "sha_upd s t1 t2 = s"

fun sha_step :: "w32 list \<Rightarrow> w32 \<Rightarrow> w32 \<Rightarrow> w32 list" where
  "sha_step [a, b, c, d, e, f, g, h] k w =
     sha_upd [a, b, c, d, e, f, g, h]
       (add32 (add32 (add32 h (bsig1 e)) (ch_fun e f g)) (add32 k w))
       (add32 (bsig0 a) (maj_fun a b c))"
| "sha_step s k w = s"

fun sha_rounds :: "(w32 \<times> w32) list \<Rightarrow> w32 list \<Rightarrow> w32 list" where
  "sha_rounds [] s = s"
| "sha_rounds ((k, w) # r) s = sha_rounds r (sha_step s k w)"

definition sha_block :: "w32 list \<Rightarrow> bytes \<Rightarrow> w32 list" where
  "sha_block hs bl = map2 add32 hs (sha_rounds (zip sha_k (sha_sched 48 (rev (be_words bl)))) hs)"

fun sha_blocks :: "nat \<Rightarrow> w32 list \<Rightarrow> bytes \<Rightarrow> w32 list" where
  "sha_blocks 0 hs m = hs"
| "sha_blocks (Suc n) hs m = sha_blocks n (sha_block hs (take 64 m)) (drop 64 m)"

definition sha_hash :: "bytes \<Rightarrow> bytes" where
  "sha_hash p = concat (map be_bytes (sha_blocks (length p div 64) sha_init p))"

definition sha256 :: "bytes \<Rightarrow> bytes" where
  "sha256 m = sha_hash (sha_pad m)"

section \<open>The digest has 32 bytes\<close>

lemma length_sha_upd [simp]: "length (sha_upd s t1 t2) = length s"
  by (induction s t1 t2 rule: sha_upd.induct) simp_all

lemma length_sha_step [simp]: "length (sha_step s k w) = length s"
  by (induction s k w rule: sha_step.induct) simp_all

lemma length_sha_rounds [simp]: "length (sha_rounds r s) = length s"
  by (induction r s rule: sha_rounds.induct) simp_all

lemma length_sha_block [simp]: "length (sha_block hs bl) = length hs"
  by (simp add: sha_block_def)

lemma length_sha_blocks [simp]: "length (sha_blocks n hs m) = length hs"
  by (induction n hs m rule: sha_blocks.induct) simp_all

lemma length_concat_be: "length (concat (map be_bytes ws)) = 4 * length ws"
  by (induction ws) (simp_all add: be_bytes_def)

lemma length_sha256 [simp, bounds]: "length (sha256 m) = 32"
  by (simp add: sha256_def sha_hash_def length_concat_be sha_init_def)

lemma length_sha_pad: "length (sha_pad m) mod 64 = 0"
proof -
  define n r where "n = length m" and "r = length m mod 64"
  have "r < 64" by (simp add: r_def)
  have "length (sha_pad m) mod 64 = (n + 9 + (119 - r) mod 64) mod 64"
    by (simp add: sha_pad_def len_bytes_def n_def r_def ac_simps)
  also have "\<dots> = (n + 9 + (119 - r)) mod 64"
    by (rule mod_add_right_eq)
  also have "\<dots> = (n mod 64 + (9 + (119 - r))) mod 64"
    by (simp add: mod_add_left_eq add.assoc)
  also have "n mod 64 + (9 + (119 - r)) = 128"
    using \<open>r < 64\<close> by (simp add: n_def r_def)
  finally show ?thesis by simp
qed

section \<open>Test vectors\<close>

text \<open>The digest of the empty message, which the configuration refuses as an ingest-token hash.\<close>

lemma sha256_empty_hex:
  "hex_enc (sha256 []) = ''e3b0c44298fc1c149afbf4c8996fb92427ae41e4649b934ca495991b7852b855''"
  by code_simp

lemma sha256_abc_hex:
  "hex_enc (sha256 ''abc'') = ''ba7816bf8f01cfea414140de5dae2223b00361a396177a9cb410ff61f20015ad''"
  by code_simp

end
