(* ===== verification/Database.thy ===== *)
theory Database
  imports Prelude
begin

text \<open>
  The database as the modules see it: the tables of \<^verbatim>\<open>db/migrations\<close>, the statements of
  \<^verbatim>\<open>internal/platform/db/gen/auth.sql.go\<close> as functions on the tables, single statements and
  transactions over a world that holds the tables, the two clocks, the random source and the trace
  of the work done.

  A world carries a script of what the environment does: for every database round trip, how long it
  takes and whether it fails before or after taking effect (a lost acknowledgement).  A theorem
  about an arbitrary world is therefore a theorem about every latency and every failure.  With an
  empty script no time passes and nothing fails.
\<close>

section \<open>Rows and tables\<close>

text \<open>Column types: a nullable \<^verbatim>\<open>timestamptz\<close> is a \<^typ>\<open>time option\<close>, as is any
  \<^verbatim>\<open>pgtype.Timestamptz\<close> whose \<^verbatim>\<open>Valid\<close> flag the Go code reads.\<close>

record user_row =
  u_id :: uuid
  u_username :: string
  u_password_hash :: string
  u_status :: string
  u_failed_attempts :: int
  u_locked_until :: "time option"
  u_created_at :: time
  u_updated_at :: time

record user_now_row = user_row +
  u_db_now :: time

record refresh_row =
  rt_id :: uuid
  rt_user_id :: uuid
  rt_selector :: string
  rt_verifier_hash :: bytes
  rt_token_family :: uuid
  rt_expires_at :: "time option"
  rt_revoked_at :: "time option"
  rt_used_at :: "time option"
  rt_created_at :: time

record refresh_now_row = refresh_row +
  rt_db_now :: time

record access_row =
  at_id :: uuid
  at_user_id :: uuid
  at_token_hash :: bytes
  at_expires_at :: "time option"
  at_revoked_at :: "time option"
  at_created_at :: time

text \<open>An event, without its identity column, which no query reads.\<close>

record event_row =
  ev_source :: string
  ev_event_id :: string
  ev_kind :: string
  ev_trace_id :: string
  ev_name :: string
  ev_event_ts :: time
  ev_attributes :: bytes
  ev_received_at :: time

record tables =
  users :: "user_row list"
  refresh_tokens :: "refresh_row list"
  access_tokens :: "access_row list"
  events :: "event_row list"

section \<open>The world\<close>

text \<open>What a round trip does: succeed, fail without effect, or take effect and lose the answer.\<close>

datatype fault = NoFault | FailBefore gerr | FailAfter gerr

text \<open>The trace: one entry per unit of work and per log line.\<close>

datatype work =
    WArgon2
  | WSelect string
  | WUpdate string
  | WInsert string
  | WLock string
  | WBegin
  | WCommit
  | WRollback
  | LogAccountLocked string string
  | LogInternalError string string gerr
  | LogEventsIngested string int int int int
  | LogIngestRejected string
  | LogRequest string string string nat int string
  | LogPanic string string string

record world =
  w_tabs :: tables
  w_db :: time
  w_app :: time
  w_script :: "(nat \<times> fault) list"
  w_rand :: "bytes option list"
  w_ids :: "uuid list"
  w_trace :: "work list"

definition emit :: "work \<Rightarrow> world \<Rightarrow> world" where
  "emit e w = w\<lparr>w_trace := w_trace w @ [e]\<rparr>"

text \<open>The start of a round trip: take the next entry of the script, let its time pass on both
  clocks.\<close>

definition next_fault :: "world \<Rightarrow> fault \<times> world" where
  "next_fault w =
     (case w_script w of
        [] \<Rightarrow> (NoFault, w)
      | (d, f) # r \<Rightarrow>
          (f, w\<lparr>w_script := r, w_db := w_db w + int d, w_app := w_app w + int d\<rparr>))"

text \<open>\<^verbatim>\<open>crypto/rand\<close>: \<open>n\<close> bytes, or an error.  The script of the random source supplies the bytes;
  missing ones are zero, which no proof relies on.\<close>

definition random_bytes :: "nat \<Rightarrow> world \<Rightarrow> (gerr + bytes) \<times> world" where
  "random_bytes n w =
     (case w_rand w of
        [] \<Rightarrow> (Inr (replicate n (CHR 0x00)), w)
      | None # r \<Rightarrow> (Inl RandError, w\<lparr>w_rand := r\<rparr>)
      | Some bs # r \<Rightarrow> (Inr (take n (bs @ replicate n (CHR 0x00))), w\<lparr>w_rand := r\<rparr>))"

lemma random_bytes_length: "random_bytes n w = (Inr bs, w') \<Longrightarrow> length bs = n"
  by (auto simp: random_bytes_def split: list.splits option.splits)

text \<open>\<^verbatim>\<open>gen_random_uuid()\<close> of the database, from a supply; a value already in use is refused by the
  primary key of the table.\<close>

definition next_id :: "world \<Rightarrow> uuid \<times> world" where
  "next_id w =
     (case w_ids w of [] \<Rightarrow> (replicate 16 (CHR 0x00), w) | i # r \<Rightarrow> (i, w\<lparr>w_ids := r\<rparr>))"

section \<open>Single statements and transactions\<close>

text \<open>The effect of a statement on the tables: its result, or the server's error, which leaves the
  tables as they were.\<close>

type_synonym 'a stmt = "time \<Rightarrow> tables \<Rightarrow> (gerr + 'a) \<times> tables"

text \<open>A statement outside a transaction commits by itself; \<^verbatim>\<open>now()\<close> is the clock when it runs.\<close>

definition exec_stmt :: "work \<Rightarrow> 'a stmt \<Rightarrow> world \<Rightarrow> (gerr + 'a) \<times> world" where
  "exec_stmt k st w0 =
     (let (f, w) = next_fault w0; w' = emit k w; (r, t) = st (w_db w) (w_tabs w) in
      case f of
        FailBefore e \<Rightarrow> (Inl e, w')
      | FailAfter e \<Rightarrow> (Inl e, w'\<lparr>w_tabs := t\<rparr>)
      | NoFault \<Rightarrow> (r, w'\<lparr>w_tabs := t\<rparr>))"

text \<open>A transaction: its start time, which is \<^verbatim>\<open>now()\<close> for all its statements, the tables as it sees
  and changes them, and whether a statement has failed (PostgreSQL then refuses every further
  statement and turns the commit into a rollback).\<close>

record tx =
  tx_now :: time
  tx_tabs :: tables
  tx_failed :: bool

definition tx_begin :: "world \<Rightarrow> (gerr + tx) \<times> world" where
  "tx_begin w0 =
     (let (f, w) = next_fault w0; w' = emit WBegin w in
      case f of
        NoFault \<Rightarrow> (Inr \<lparr>tx_now = w_db w, tx_tabs = w_tabs w, tx_failed = False\<rparr>, w')
      | FailBefore e \<Rightarrow> (Inl e, w')
      | FailAfter e \<Rightarrow> (Inl e, w'))"

definition tx_exec :: "work \<Rightarrow> 'a stmt \<Rightarrow> tx \<Rightarrow> world \<Rightarrow> (gerr + 'a) \<times> tx \<times> world" where
  "tx_exec k st x w0 =
     (let (f, w) = next_fault w0; w' = emit k w in
      if tx_failed x then (Inl (PgError ''25P02''), x, w')
      else (case f of
          NoFault \<Rightarrow>
            (case st (tx_now x) (tx_tabs x) of
               (Inl e, t) \<Rightarrow> (Inl e, x\<lparr>tx_failed := True\<rparr>, w')
             | (Inr a, t) \<Rightarrow> (Inr a, x\<lparr>tx_tabs := t\<rparr>, w'))
        | FailBefore e \<Rightarrow> (Inl e, x\<lparr>tx_failed := True\<rparr>, w')
        | FailAfter e \<Rightarrow> (Inl e, x\<lparr>tx_failed := True\<rparr>, w')))"

definition tx_commit :: "tx \<Rightarrow> world \<Rightarrow> (gerr + unit) \<times> world" where
  "tx_commit x w0 =
     (let (f, w) = next_fault w0; w' = emit WCommit w in
      case f of
        FailBefore e \<Rightarrow> (Inl e, w')
      | FailAfter e \<Rightarrow> (Inl e, if tx_failed x then w' else w'\<lparr>w_tabs := tx_tabs x\<rparr>)
      | NoFault \<Rightarrow>
          if tx_failed x then (Inl TxCommitRollback, w')
          else (Inr (), w'\<lparr>w_tabs := tx_tabs x\<rparr>))"

definition tx_rollback :: "tx \<Rightarrow> world \<Rightarrow> world" where
  "tx_rollback x w = emit WRollback (snd (next_fault w))"

section \<open>The statements on users\<close>

text \<open>\<^verbatim>\<open>pgx.ErrNoRows\<close> for a \<^verbatim>\<open>:one\<close> query without a row.\<close>

definition one_row :: "'a option \<Rightarrow> tables \<Rightarrow> (gerr + 'a) \<times> tables" where
  "one_row r t = (case r of None \<Rightarrow> Inl ErrNoRows | Some a \<Rightarrow> Inr a, t)"

definition with_db_now :: "user_row \<Rightarrow> time \<Rightarrow> user_now_row" where
  "with_db_now u now = user_row.extend u \<lparr>u_db_now = now\<rparr>"

definition get_user_by_username :: "(string \<Rightarrow> string) \<Rightarrow> string \<Rightarrow> user_now_row stmt" where
  "get_user_by_username pl name now t =
     one_row (map_option (\<lambda>u. with_db_now u now)
       (find (\<lambda>u. pl (u_username u) = pl name) (users t))) t"

definition get_user_by_id :: "uuid \<Rightarrow> user_row stmt" where
  "get_user_by_id i now t = one_row (find (\<lambda>u. u_id u = i) (users t)) t"

definition create_user :: "(string \<Rightarrow> string) \<Rightarrow> uuid \<Rightarrow> string \<Rightarrow> string \<Rightarrow> user_row stmt" where
  "create_user pl i name hash now t =
     (let u = \<lparr>u_id = i, u_username = name, u_password_hash = hash, u_status = ''active'',
               u_failed_attempts = 0, u_locked_until = None, u_created_at = now, u_updated_at = now\<rparr>
      in if (\<exists>v \<in> set (users t). u_id v = i \<or> pl (u_username v) = pl name)
         then (Inl (PgError ''23505''), t)
         else (Inr u, t\<lparr>users := users t @ [u]\<rparr>))"

definition set_user_lock :: "uuid \<Rightarrow> int \<Rightarrow> time option \<Rightarrow> unit stmt" where
  "set_user_lock i n l now t =
     (Inr (), t\<lparr>users := update_where (\<lambda>u. u_id u = i)
        (\<lambda>u. u\<lparr>u_failed_attempts := n, u_locked_until := l, u_updated_at := now\<rparr>) (users t)\<rparr>)"

definition touch_user_timing :: "uuid \<Rightarrow> unit stmt" where
  "touch_user_timing i now t =
     (Inr (), t\<lparr>users := update_where (\<lambda>u. u_id u = i) (\<lambda>u. u\<lparr>u_updated_at := now\<rparr>) (users t)\<rparr>)"

subsection \<open>The failure counter\<close>

text \<open>The three \<^verbatim>\<open>CASE\<close> expressions of \<^verbatim>\<open>RecordLoginFailure\<close>, on the old values of the row.\<close>

definition still_locked :: "time option \<Rightarrow> time \<Rightarrow> bool" where
  "still_locked l now \<longleftrightarrow> (case l of None \<Rightarrow> False | Some u \<Rightarrow> now < u)"

definition failed_next :: "int \<Rightarrow> time option \<Rightarrow> time \<Rightarrow> int" where
  "failed_next n l now =
     (if still_locked l now then n
      else if l \<noteq> None then 1
      else n + 1)"

definition locked_next :: "int \<Rightarrow> duration \<Rightarrow> int \<Rightarrow> time option \<Rightarrow> time \<Rightarrow> time option" where
  "locked_next threshold window n l now =
     (if still_locked l now then l
      else if threshold \<le> (if l \<noteq> None then 1 else n + 1) then Some (now + window)
      else None)"

record login_failure_row =
  lf_failed_attempts :: int
  lf_locked_until :: "time option"
  lf_just_locked :: bool

definition max_int4 :: int where "max_int4 = 2147483647"

text \<open>The statement: the addition is PostgreSQL's \<^verbatim>\<open>integer\<close> addition, which fails out of range.\<close>

definition record_login_failure :: "uuid \<Rightarrow> int \<Rightarrow> duration \<Rightarrow> login_failure_row stmt" where
  "record_login_failure i threshold window now t =
     (case find (\<lambda>u. u_id u = i) (users t) of
        None \<Rightarrow> (Inl ErrNoRows, t)
      | Some old \<Rightarrow>
          (let n = u_failed_attempts old; l = u_locked_until old;
               n' = failed_next n l now; l' = locked_next threshold window n l now
           in if max_int4 < n' then (Inl (PgError ''22003''), t)
              else (Inr \<lparr>lf_failed_attempts = n', lf_locked_until = l',
                         lf_just_locked = (\<not> still_locked l now \<and> l' \<noteq> None)\<rparr>,
                    t\<lparr>users := update_where (\<lambda>u. u_id u = i)
                       (\<lambda>u. u\<lparr>u_failed_attempts := n', u_locked_until := l', u_updated_at := now\<rparr>)
                       (users t)\<rparr>)))"

section \<open>The statements on tokens\<close>

text \<open>A \<^verbatim>\<open>timestamptz\<close> holds microseconds: pgx drops what is below.\<close>

definition pg_time :: "time \<Rightarrow> time" where
  "pg_time t = t div 1000 * 1000"

record insert_refresh =
  ir_user_id :: uuid
  ir_selector :: string
  ir_verifier_hash :: bytes
  ir_token_family :: uuid
  ir_expires_at :: "time option"

record insert_access =
  ia_user_id :: uuid
  ia_token_hash :: bytes
  ia_expires_at :: "time option"

definition insert_refresh_token :: "uuid \<Rightarrow> insert_refresh \<Rightarrow> refresh_row stmt" where
  "insert_refresh_token i a now t =
     (let r = \<lparr>rt_id = i, rt_user_id = ir_user_id a, rt_selector = ir_selector a,
               rt_verifier_hash = ir_verifier_hash a, rt_token_family = ir_token_family a,
               rt_expires_at = map_option pg_time (ir_expires_at a),
               rt_revoked_at = None, rt_used_at = None, rt_created_at = now\<rparr>
      in if ir_expires_at a = None then (Inl (PgError ''23502''), t)
         else if (\<exists>q \<in> set (refresh_tokens t). rt_id q = i \<or> rt_selector q = ir_selector a)
         then (Inl (PgError ''23505''), t)
         else if \<not> (\<exists>u \<in> set (users t). u_id u = ir_user_id a) then (Inl (PgError ''23503''), t)
         else (Inr r, t\<lparr>refresh_tokens := refresh_tokens t @ [r]\<rparr>))"

definition insert_access_token :: "uuid \<Rightarrow> insert_access \<Rightarrow> access_row stmt" where
  "insert_access_token i a now t =
     (let r = \<lparr>at_id = i, at_user_id = ia_user_id a, at_token_hash = ia_token_hash a,
               at_expires_at = map_option pg_time (ia_expires_at a), at_revoked_at = None,
               at_created_at = now\<rparr>
      in if ia_expires_at a = None then (Inl (PgError ''23502''), t)
         else if (\<exists>q \<in> set (access_tokens t). at_id q = i \<or> at_token_hash q = ia_token_hash a)
         then (Inl (PgError ''23505''), t)
         else if \<not> (\<exists>u \<in> set (users t). u_id u = ia_user_id a) then (Inl (PgError ''23503''), t)
         else (Inr r, t\<lparr>access_tokens := access_tokens t @ [r]\<rparr>))"

definition get_refresh_token_by_selector :: "string \<Rightarrow> refresh_row stmt" where
  "get_refresh_token_by_selector s now t =
     one_row (find (\<lambda>r. rt_selector r = s) (refresh_tokens t)) t"

definition get_refresh_token_by_selector_for_update :: "string \<Rightarrow> refresh_now_row stmt" where
  "get_refresh_token_by_selector_for_update s now t =
     one_row (map_option (\<lambda>r. refresh_row.extend r \<lparr>rt_db_now = now\<rparr>)
       (find (\<lambda>r. rt_selector r = s) (refresh_tokens t))) t"

definition lock_token_family :: "uuid \<Rightarrow> unit stmt" where
  "lock_token_family f now t = (Inr (), t)"

definition mark_refresh_token_used :: "uuid \<Rightarrow> unit stmt" where
  "mark_refresh_token_used i now t =
     (Inr (), t\<lparr>refresh_tokens := update_where (\<lambda>r. rt_id r = i) (\<lambda>r. r\<lparr>rt_used_at := Some now\<rparr>)
                  (refresh_tokens t)\<rparr>)"

definition revoke_token_family :: "uuid \<Rightarrow> unit stmt" where
  "revoke_token_family f now t =
     (Inr (), t\<lparr>refresh_tokens := update_where (\<lambda>r. rt_token_family r = f \<and> rt_revoked_at r = None)
                  (\<lambda>r. r\<lparr>rt_revoked_at := Some now\<rparr>) (refresh_tokens t)\<rparr>)"

definition get_access_token :: "bytes \<Rightarrow> access_row stmt" where
  "get_access_token h now t = one_row (find (\<lambda>r. at_token_hash r = h) (access_tokens t)) t"

definition revoke_access_token :: "uuid \<Rightarrow> unit stmt" where
  "revoke_access_token i now t =
     (Inr (), t\<lparr>access_tokens := update_where (\<lambda>r. at_id r = i) (\<lambda>r. r\<lparr>at_revoked_at := Some now\<rparr>)
                  (access_tokens t)\<rparr>)"

section \<open>The statement on events\<close>

record insert_event_params =
  ie_source :: string
  ie_event_id :: string
  ie_kind :: string
  ie_trace_id :: string
  ie_name :: string
  ie_event_ts :: time
  ie_attributes :: bytes

text \<open>\<^verbatim>\<open>ON CONFLICT (source, event_id) DO NOTHING\<close>: the result is the number of rows inserted.
  \<open>refuses\<close> is what the driver and the server make of the values themselves (a zero byte in a text,
  a time stamp out of range): an error, or \<^const>\<open>None\<close>.\<close>

definition event_row_of :: "insert_event_params \<Rightarrow> time \<Rightarrow> event_row" where
  "event_row_of a now =
     \<lparr>ev_source = ie_source a, ev_event_id = ie_event_id a, ev_kind = ie_kind a,
      ev_trace_id = ie_trace_id a, ev_name = ie_name a, ev_event_ts = pg_time (ie_event_ts a),
      ev_attributes = ie_attributes a, ev_received_at = now\<rparr>"

definition insert_event ::
  "(insert_event_params \<Rightarrow> gerr option) \<Rightarrow> insert_event_params \<Rightarrow> int stmt" where
  "insert_event refuses a now t =
     (case refuses a of
        Some e \<Rightarrow> (Inl e, t)
      | None \<Rightarrow>
          if (\<exists>e \<in> set (events t). ev_source e = ie_source a \<and> ev_event_id e = ie_event_id a)
          then (Inr 0, t)
          else (Inr 1, t\<lparr>events := events t @ [event_row_of a now]\<rparr>))"

section \<open>What a round trip can do\<close>

lemma emit_simps [simp, state_simps]:
  "w_tabs (emit e w) = w_tabs w" "w_db (emit e w) = w_db w" "w_app (emit e w) = w_app w"
  "w_script (emit e w) = w_script w" "w_rand (emit e w) = w_rand w" "w_ids (emit e w) = w_ids w"
  "w_trace (emit e w) = w_trace w @ [e]"
  by (simp_all add: emit_def)

lemma next_fault_simps [simp, state_simps]:
  "w_tabs (snd (next_fault w)) = w_tabs w" "w_rand (snd (next_fault w)) = w_rand w"
  "w_ids (snd (next_fault w)) = w_ids w" "w_trace (snd (next_fault w)) = w_trace w"
  by (auto simp: next_fault_def split: list.splits)

lemma next_fault_clock: "w_db w \<le> w_db (snd (next_fault w))"
  by (auto simp: next_fault_def split: list.splits)

lemma next_fault_skew: "w_db (snd (next_fault w)) - w_app (snd (next_fault w)) = w_db w - w_app w"
  by (auto simp: next_fault_def split: list.splits)

lemma next_fault_quiet: "w_script w = [] \<Longrightarrow> next_fault w = (NoFault, w)"
  by (simp add: next_fault_def)

text \<open>A statement outside a transaction: some moment at which it runs, its result or an error that
  may or may not have taken effect, one entry in the trace.\<close>

lemma exec_stmt_outcome:
  assumes "exec_stmt k st w = (r, w')"
  obtains now a t where "w_db w \<le> now" and "st now (w_tabs w) = (a, t)"
    and "(r = a \<and> w_tabs w' = t) \<or> (\<exists>e. r = Inl e \<and> (w_tabs w' = w_tabs w \<or> w_tabs w' = t))"
    and "w_trace w' = w_trace w @ [k]" and "w_rand w' = w_rand w" and "w_ids w' = w_ids w"
    and "w_db w' = now" and "w_db w' - w_app w' = w_db w - w_app w"
proof -
  obtain f v where nf: "next_fault w = (f, v)" by (cases "next_fault w")
  obtain a t where st: "st (w_db v) (w_tabs w) = (a, t)" by (cases "st (w_db v) (w_tabs w)")
  have v: "w_tabs v = w_tabs w" "w_rand v = w_rand w" "w_ids v = w_ids w" "w_trace v = w_trace w"
    "w_db w \<le> w_db v" "w_db v - w_app v = w_db w - w_app w"
    using next_fault_simps [of w] next_fault_clock [of w] next_fault_skew [of w] by (simp_all add: nf)
  show thesis
    by (rule that [of "w_db v" a t])
       (use assms v nf st in \<open>auto simp: exec_stmt_def Let_def split: fault.splits\<close>)
qed

lemma exec_stmt_quiet:
  assumes "w_script w = []" and "st (w_db w) (w_tabs w) = (a, t)"
  shows "exec_stmt k st w = (a, (emit k w)\<lparr>w_tabs := t\<rparr>)"
  using assms by (simp add: exec_stmt_def next_fault_quiet)

lemma exec_stmt_Inr:
  assumes "exec_stmt k st w = (Inr x, w')"
  obtains now where "w_db w \<le> now" and "st now (w_tabs w) = (Inr x, w_tabs w')"
    and "w_trace w' = w_trace w @ [k]" and "w_rand w' = w_rand w" and "w_ids w' = w_ids w"
    and "w_db w' = now" and "w_db w' - w_app w' = w_db w - w_app w"
  using assms by (rule exec_stmt_outcome) (use that in \<open>auto\<close>)

lemma exec_stmt_trace: "exec_stmt k st w = (r, w') \<Longrightarrow> w_trace w' = w_trace w @ [k]"
  by (erule exec_stmt_outcome) simp

text \<open>Queries that only read never change the tables, whatever happens.\<close>

definition read_only :: "'a stmt \<Rightarrow> bool" where
  "read_only st \<longleftrightarrow> (\<forall>now t. snd (st now t) = t)"

lemma exec_stmt_read_only:
  assumes "read_only st" and "exec_stmt k st w = (r, w')"
  shows "w_tabs w' = w_tabs w"
  using assms(2)
proof (rule exec_stmt_outcome)
  fix now a t
  assume "st now (w_tabs w) = (a, t)"
    and "r = a \<and> w_tabs w' = t \<or> (\<exists>e. r = Inl e \<and> (w_tabs w' = w_tabs w \<or> w_tabs w' = t))"
  moreover from this(1) assms(1) have "t = w_tabs w" by (metis read_only_def snd_conv)
  ultimately show ?thesis by auto
qed

lemma read_only_queries [intro, simp]:
  "read_only (get_user_by_username pl n)" "read_only (get_user_by_id i)"
  "read_only (get_refresh_token_by_selector s)"
  "read_only (get_refresh_token_by_selector_for_update s)"
  "read_only (lock_token_family f)" "read_only (get_access_token h)"
  by (simp_all add: read_only_def one_row_def get_user_by_username_def get_user_by_id_def
      get_refresh_token_by_selector_def get_refresh_token_by_selector_for_update_def
      lock_token_family_def get_access_token_def)

section \<open>What a transaction can do\<close>

lemma next_fault_D:
  "next_fault w = (f, v) \<Longrightarrow> w_tabs v = w_tabs w \<and> w_rand v = w_rand w \<and> w_ids v = w_ids w \<and>
     w_trace v = w_trace w \<and> w_db w \<le> w_db v \<and> w_db v - w_app v = w_db w - w_app w"
  by (auto simp: next_fault_def split: list.splits)

lemma tx_begin_frame [state_simps]:
  "tx_begin w = (r, w') \<Longrightarrow> w_tabs w' = w_tabs w \<and> w_trace w' = w_trace w @ [WBegin] \<and>
     w_rand w' = w_rand w \<and> w_ids w' = w_ids w"
  by (auto simp: tx_begin_def Let_def split: prod.splits fault.splits dest!: next_fault_D)

lemma tx_begin_Inr:
  "tx_begin w = (Inr x, w') \<Longrightarrow>
     tx_tabs x = w_tabs w \<and> \<not> tx_failed x \<and> tx_now x = w_db w' \<and> w_db w \<le> w_db w' \<and>
     w_db w' - w_app w' = w_db w - w_app w"
  by (auto simp: tx_begin_def Let_def split: prod.splits fault.splits dest!: next_fault_D)

lemma tx_exec_frame [state_simps]:
  "tx_exec k st x w = (r, x', w') \<Longrightarrow> w_tabs w' = w_tabs w \<and> w_trace w' = w_trace w @ [k] \<and>
     w_rand w' = w_rand w \<and> w_ids w' = w_ids w \<and> tx_now x' = tx_now x \<and> w_db w \<le> w_db w' \<and>
     w_db w' - w_app w' = w_db w - w_app w"
  by (auto simp: tx_exec_def Let_def split: prod.splits fault.splits if_splits sum.splits dest!: next_fault_D)

lemma tx_exec_Inr:
  "tx_exec k st x w = (Inr a, x', w') \<Longrightarrow>
     \<not> tx_failed x \<and> \<not> tx_failed x' \<and> st (tx_now x) (tx_tabs x) = (Inr a, tx_tabs x')"
  by (auto simp: tx_exec_def Let_def split: prod.splits fault.splits if_splits sum.splits dest!: next_fault_D)

lemma tx_exec_Inl:
  "tx_exec k st x w = (Inl e, x', w') \<Longrightarrow> tx_failed x' \<and> tx_tabs x' = tx_tabs x"
  by (auto simp: tx_exec_def Let_def split: prod.splits fault.splits if_splits sum.splits dest!: next_fault_D)

lemma tx_exec_quiet:
  "w_script w = [] \<Longrightarrow> \<not> tx_failed x \<Longrightarrow> st (tx_now x) (tx_tabs x) = (Inr a, t) \<Longrightarrow>
     tx_exec k st x w = (Inr a, x\<lparr>tx_tabs := t\<rparr>, emit k w)"
  by (simp add: tx_exec_def next_fault_quiet)

lemma tx_commit_Inr:
  "tx_commit x w = (Inr u, w') \<Longrightarrow> \<not> tx_failed x \<and> w_tabs w' = tx_tabs x \<and> w_trace w' = w_trace w @ [WCommit]"
  by (auto simp: tx_commit_def Let_def split: prod.splits fault.splits if_splits dest!: next_fault_D)

lemma tx_commit_Inl:
  "tx_commit x w = (Inl e, w') \<Longrightarrow>
     (w_tabs w' = w_tabs w \<or> \<not> tx_failed x \<and> w_tabs w' = tx_tabs x) \<and> w_trace w' = w_trace w @ [WCommit]"
  by (auto simp: tx_commit_def Let_def split: prod.splits fault.splits if_splits dest!: next_fault_D)

lemma tx_rollback_frame [simp, state_simps]:
  "w_tabs (tx_rollback x w) = w_tabs w" "w_trace (tx_rollback x w) = w_trace w @ [WRollback]"
  by (simp_all add: tx_rollback_def)

lemma next_id_D:
  "next_id w = (i, v) \<Longrightarrow> w_tabs v = w_tabs w \<and> w_script v = w_script w \<and> w_db v = w_db w \<and>
     w_app v = w_app w \<and> w_trace v = w_trace w \<and> w_rand v = w_rand w"
  by (auto simp: next_id_def split: list.splits)

text \<open>The rows a session writes.\<close>

definition access_row_of :: "uuid \<Rightarrow> insert_access \<Rightarrow> time \<Rightarrow> access_row" where
  "access_row_of i a now =
     \<lparr>at_id = i, at_user_id = ia_user_id a, at_token_hash = ia_token_hash a,
      at_expires_at = map_option pg_time (ia_expires_at a), at_revoked_at = None, at_created_at = now\<rparr>"

definition refresh_row_of :: "uuid \<Rightarrow> insert_refresh \<Rightarrow> time \<Rightarrow> refresh_row" where
  "refresh_row_of i a now =
     \<lparr>rt_id = i, rt_user_id = ir_user_id a, rt_selector = ir_selector a,
      rt_verifier_hash = ir_verifier_hash a, rt_token_family = ir_token_family a,
      rt_expires_at = map_option pg_time (ir_expires_at a),
      rt_revoked_at = None, rt_used_at = None, rt_created_at = now\<rparr>"

lemma insert_access_Inr:
  "insert_access_token i a now t = (Inr r, t') \<Longrightarrow>
     r = access_row_of i a now \<and> t' = t\<lparr>access_tokens := access_tokens t @ [r]\<rparr> \<and>
     (\<forall>q \<in> set (access_tokens t). at_token_hash q \<noteq> ia_token_hash a) \<and>
     (\<exists>u \<in> set (users t). u_id u = ia_user_id a)"
  by (auto simp: insert_access_token_def access_row_of_def Let_def split: if_splits)

lemma insert_refresh_Inr:
  "insert_refresh_token i a now t = (Inr r, t') \<Longrightarrow>
     r = refresh_row_of i a now \<and> t' = t\<lparr>refresh_tokens := refresh_tokens t @ [r]\<rparr> \<and>
     (\<forall>q \<in> set (refresh_tokens t). rt_selector q \<noteq> ir_selector a) \<and>
     (\<exists>u \<in> set (users t). u_id u = ir_user_id a)"
  by (auto simp: insert_refresh_token_def refresh_row_of_def Let_def split: if_splits)

end
