(* ===== verification/Token.thy ===== *)
theory Token
  imports Sha256 Database
begin

text \<open>
  \<^verbatim>\<open>internal/modules/auth/token.go\<close>: minting of the opaque access token, of the split refresh token
  and of the token family, and the textual form of a user id (\<^verbatim>\<open>uuidToString\<close> of \<^verbatim>\<open>login.go\<close>).
\<close>

section \<open>Minting\<close>

definition access_token_bytes :: nat where "access_token_bytes = 32"
definition selector_bytes :: nat where "selector_bytes = 16"
definition verifier_bytes :: nat where "verifier_bytes = 16"

definition refresh_separator :: char where "refresh_separator = CHR ''.''"

record access_token =
  acc_plaintext :: string
  acc_hash :: bytes

record refresh_token =
  ref_plaintext :: string
  ref_selector :: string
  ref_verifier_hash :: bytes

definition access_of :: "bytes \<Rightarrow> access_token" where
  "access_of raw = \<lparr>acc_plaintext = raw_url_enc raw, acc_hash = sha256 raw\<rparr>"

definition new_access_token :: "world \<Rightarrow> (gerr + access_token) \<times> world" where
  "new_access_token w =
     (case random_bytes access_token_bytes w of
        (Inl e, w') \<Rightarrow> (Inl (Wrapped ''auth: mint access token'' e), w')
      | (Inr raw, w') \<Rightarrow> (Inr (access_of raw), w'))"

definition refresh_of :: "bytes \<Rightarrow> bytes \<Rightarrow> refresh_token" where
  "refresh_of sel ver =
     \<lparr>ref_plaintext = raw_url_enc sel @ refresh_separator # raw_url_enc ver,
      ref_selector = raw_url_enc sel,
      ref_verifier_hash = sha256 ver\<rparr>"

definition new_refresh_token :: "world \<Rightarrow> (gerr + refresh_token) \<times> world" where
  "new_refresh_token w =
     (case random_bytes selector_bytes w of
        (Inl e, w1) \<Rightarrow> (Inl (Wrapped ''auth: mint refresh selector'' e), w1)
      | (Inr sel, w1) \<Rightarrow>
          (case random_bytes verifier_bytes w1 of
             (Inl e, w2) \<Rightarrow> (Inl (Wrapped ''auth: mint refresh verifier'' e), w2)
           | (Inr ver, w2) \<Rightarrow> (Inr (refresh_of sel ver), w2)))"

text \<open>\<^verbatim>\<open>b[6] = (b[6] & 0x0f) | 0x40\<close> and \<^verbatim>\<open>b[8] = (b[8] & 0x3f) | 0x80\<close>.\<close>

definition v4_bits :: "bytes \<Rightarrow> uuid" where
  "v4_bits b = b[6 := chr ((ord (b ! 6) AND 0x0F) OR 0x40), 8 := chr ((ord (b ! 8) AND 0x3F) OR 0x80)]"

definition new_token_family :: "world \<Rightarrow> (gerr + uuid) \<times> world" where
  "new_token_family w =
     (case random_bytes 16 w of
        (Inl e, w') \<Rightarrow> (Inl (Wrapped ''auth: mint token family'' e), w')
      | (Inr b, w') \<Rightarrow> (Inr (v4_bits b), w'))"

section \<open>The textual form of a user id\<close>

definition zero_uuid :: uuid where "zero_uuid = replicate 16 (CHR 0x00)"

definition uuid_to_string :: "uuid \<Rightarrow> string" where
  "uuid_to_string b =
     concat (map (\<lambda>i. (if i = 4 \<or> i = 6 \<or> i = 8 \<or> i = 10 then ''-'' else '''')
                       @ [hex_hi (b ! i), hex_lo (b ! i)]) [0..<16])"

lemma upt16: "[0..<16] = [0, 1, 2, 3, 4, 5, 6, 7, 8, 9, 10, 11, 12, 13, 14, 15]"
  by (simp add: upt_rec)

lemma length_uuid_to_string: "length (uuid_to_string b) = 36"
  by (simp add: uuid_to_string_def upt16)

lemma uuid_to_string_hyphens:
  "uuid_to_string b ! 8 = CHR ''-'' \<and> uuid_to_string b ! 13 = CHR ''-'' \<and>
   uuid_to_string b ! 18 = CHR ''-'' \<and> uuid_to_string b ! 23 = CHR ''-''"
  by (simp add: uuid_to_string_def upt16)

lemma uuid_to_string_inj:
  assumes "length a = 16" and "length b = 16" and "uuid_to_string a = uuid_to_string b"
  shows "a = b"
proof (rule nth_equalityI)
  show "length a = length b" using assms by simp
  fix i assume "i < length a"
  then have "i \<in> set [0..<16]" using assms(1) by simp
  moreover have "\<forall>i \<in> set [0..<16]. hex_hi (a ! i) = hex_hi (b ! i) \<and> hex_lo (a ! i) = hex_lo (b ! i)"
    using assms(3) by (simp add: uuid_to_string_def upt16)
  ultimately show "a ! i = b ! i" by (blast intro: hex_digits_inj)
qed

section \<open>What a minted credential is\<close>

lemma new_access_token_Inr:
  assumes "new_access_token w = (Inr t, w')"
  obtains raw where "t = access_of raw" and "length raw = 32"
    and "w_tabs w' = w_tabs w" and "w_trace w' = w_trace w" and "w_script w' = w_script w"
    and "w_db w' = w_db w" and "w_app w' = w_app w" and "w_ids w' = w_ids w"
  using assms
  by (auto simp: new_access_token_def random_bytes_def access_token_bytes_def
      split: prod.splits sum.splits list.splits option.splits)

lemma random_bytes_frame:
  "random_bytes n w = (r, w') \<Longrightarrow>
     w_tabs w' = w_tabs w \<and> w_trace w' = w_trace w \<and> w_script w' = w_script w \<and>
     w_db w' = w_db w \<and> w_app w' = w_app w \<and> w_ids w' = w_ids w"
  by (auto simp: random_bytes_def split: list.splits option.splits)

text \<open>Everything but the random source is as before.\<close>

definition same_but_rand :: "world \<Rightarrow> world \<Rightarrow> bool" where
  "same_but_rand w w' \<longleftrightarrow>
     w_tabs w' = w_tabs w \<and> w_trace w' = w_trace w \<and> w_script w' = w_script w \<and>
     w_db w' = w_db w \<and> w_app w' = w_app w \<and> w_ids w' = w_ids w"

lemma same_but_rand_trans: "same_but_rand u v \<Longrightarrow> same_but_rand v w \<Longrightarrow> same_but_rand u w"
  by (simp add: same_but_rand_def)

lemma random_bytes_same: "random_bytes n w = (r, w') \<Longrightarrow> same_but_rand w w'"
  by (simp add: same_but_rand_def random_bytes_frame)

lemma mint_same:
  "new_access_token w = (r1, w') \<Longrightarrow> same_but_rand w w'"
  "new_refresh_token w = (r2, w') \<Longrightarrow> same_but_rand w w'"
  "new_token_family w = (r3, w') \<Longrightarrow> same_but_rand w w'"
  by (auto simp: new_access_token_def new_refresh_token_def new_token_family_def
      split: prod.splits sum.splits dest!: random_bytes_same intro: same_but_rand_trans)

lemma new_refresh_token_Inr:
  assumes "new_refresh_token w = (Inr t, w')"
  obtains sel ver where "t = refresh_of sel ver" and "length sel = 16" and "length ver = 16"
  using assms
  by (auto simp: new_refresh_token_def selector_bytes_def verifier_bytes_def
      split: prod.splits sum.splits dest!: random_bytes_length)

lemma v4_bits_length [simp]: "length (v4_bits b) = length b"
  by (simp add: v4_bits_def)

lemma new_token_family_Inr:
  assumes "new_token_family w = (Inr f, w')"
  obtains b where "f = v4_bits b" and "length b = 16"
  using assms by (auto simp: new_token_family_def split: prod.splits sum.splits dest!: random_bytes_length)

text \<open>A minted refresh token is cut back into its selector and its verifier, and the verifier
  decodes to the bytes whose digest is stored.\<close>

lemma refresh_of_cut:
  "cut_on refresh_separator (ref_plaintext (refresh_of sel ver)) = Some (raw_url_enc sel, raw_url_enc ver)"
  by (simp add: refresh_of_def refresh_separator_def rawurl.cut_joined)

lemma refresh_of_parts:
  assumes "sel \<noteq> []" and "ver \<noteq> []"
  shows "raw_url_enc sel \<noteq> []" and "raw_url_enc ver \<noteq> []"
    and "raw_url_dec (raw_url_enc ver) = Some ver"
  using assms by (simp_all add: rawurl.dec_enc)

end
