(* ===== verification/Password.thy ===== *)
theory Password
  imports GoFmt GoEncoding Database
begin

text \<open>
  \<^verbatim>\<open>internal/modules/auth/password.go\<close> and \<^verbatim>\<open>dummy.go\<close>: argon2id hashes as PHC strings, their
  rendering, parsing and verification.  The key derivation function \<^verbatim>\<open>argon2.IDKey\<close>
  (\<^verbatim>\<open>golang.org/x/crypto\<close>) is the parameter \<open>kdf\<close> of every definition that uses it.  The widths:
  memory and iterations are \<^verbatim>\<open>uint32\<close>, parallelism is \<^verbatim>\<open>uint8\<close>; the scanner keeps every value below
  the width, and the one multiplication is written with its wrap-around.
\<close>

section \<open>Parameters\<close>

record argon2_params =
  memory :: nat
  iterations :: nat
  parallelism :: nat
  salt_length :: nat
  key_length :: nat

text \<open>\<open>kdf password salt iterations memory parallelism key_length\<close>.\<close>

type_synonym kdf = "bytes \<Rightarrow> bytes \<Rightarrow> nat \<Rightarrow> nat \<Rightarrow> nat \<Rightarrow> nat \<Rightarrow> bytes"

definition current_params :: argon2_params where
  "current_params =
     \<lparr>memory = 19456, iterations = 2, parallelism = 1, salt_length = 16, key_length = 32\<rparr>"

definition phc_algo :: string where "phc_algo = ''argon2id''"
definition max_memory_kib :: nat where "max_memory_kib = 1048576"
definition max_iterations :: nat where "max_iterations = 64"
definition max_parallelism :: nat where "max_parallelism = 16"

text \<open>\<^verbatim>\<open>argon2.Version\<close>, the constant 0x13 of the library.\<close>

definition argon2_version :: nat where "argon2_version = 19"

datatype phc_error = InvalidHashFormat | IncompatibleAlgo | IncompatibleVer

section \<open>Rendering\<close>

definition version_segment :: "int \<Rightarrow> string" where
  "version_segment v = ''v='' @ itoa_int v"

definition params_segment :: "nat \<Rightarrow> nat \<Rightarrow> nat \<Rightarrow> string" where
  "params_segment m t p = ''m='' @ itoa m @ '',t='' @ itoa t @ '',p='' @ itoa p"

definition render_phc :: "argon2_params \<Rightarrow> bytes \<Rightarrow> bytes \<Rightarrow> string" where
  "render_phc ps salt key =
     ''$'' @ phc_algo @ ''$'' @ version_segment (int argon2_version) @ ''$''
     @ params_segment (memory ps) (iterations ps) (parallelism ps) @ ''$''
     @ raw_std_enc salt @ ''$'' @ raw_std_enc key"

definition encode_hash :: "kdf \<Rightarrow> string \<Rightarrow> bytes \<Rightarrow> argon2_params \<Rightarrow> string" where
  "encode_hash kdf pw salt ps =
     render_phc ps salt (kdf pw salt (iterations ps) (memory ps) (parallelism ps) (key_length ps))"

section \<open>Parsing\<close>

text \<open>\<^verbatim>\<open>fmt.Sscanf(s, "v=%d", &version)\<close> and \<^verbatim>\<open>fmt.Sscanf(s, "m=%d,t=%d,p=%d", ...)\<close>.\<close>

definition scan_version :: "string \<Rightarrow> int option" where
  "scan_version s =
     (case cut_prefix ''v='' s of None \<Rightarrow> None | Some r \<Rightarrow> map_option fst (scan_int r))"

definition scan_params :: "string \<Rightarrow> (nat \<times> nat \<times> nat) option" where
  "scan_params s =
     (case cut_prefix ''m='' s of None \<Rightarrow> None | Some r1 \<Rightarrow>
      (case scan_uint 32 r1 of None \<Rightarrow> None | Some (m, r2) \<Rightarrow>
       (case cut_prefix '',t='' r2 of None \<Rightarrow> None | Some r3 \<Rightarrow>
        (case scan_uint 32 r3 of None \<Rightarrow> None | Some (t, r4) \<Rightarrow>
         (case cut_prefix '',p='' r4 of None \<Rightarrow> None | Some r5 \<Rightarrow>
          (case scan_uint 8 r5 of None \<Rightarrow> None | Some (p, r6) \<Rightarrow> Some (m, t, p)))))))"

definition cost_ok :: "nat \<Rightarrow> nat \<Rightarrow> nat \<Rightarrow> bool" where
  "cost_ok m t p \<longleftrightarrow>
     \<not> (m < (8 * p) mod 2 ^ 32 \<or> t < 1 \<or> p < 1) \<and>
     \<not> (max_memory_kib < m \<or> max_iterations < t \<or> max_parallelism < p)"

definition decode_segment :: "string \<Rightarrow> bytes option" where
  "decode_segment s = (case raw_std_dec s of None \<Rightarrow> None | Some b \<Rightarrow> if b = [] then None else Some b)"

definition decode_hash :: "string \<Rightarrow> phc_error + (argon2_params \<times> bytes \<times> bytes)" where
  "decode_hash phc =
     (case split_on (CHR ''$'') phc of
        [p0, p1, p2, p3, p4, p5] \<Rightarrow>
          if p0 \<noteq> [] then Inl InvalidHashFormat
          else if p1 \<noteq> phc_algo then Inl IncompatibleAlgo
          else (case scan_version p2 of
              None \<Rightarrow> Inl InvalidHashFormat
            | Some v \<Rightarrow>
                if p2 \<noteq> version_segment v then Inl InvalidHashFormat
                else if v \<noteq> int argon2_version then Inl IncompatibleVer
                else (case scan_params p3 of
                    None \<Rightarrow> Inl InvalidHashFormat
                  | Some (m, t, p) \<Rightarrow>
                      if p3 \<noteq> params_segment m t p then Inl InvalidHashFormat
                      else if \<not> cost_ok m t p then Inl InvalidHashFormat
                      else (case decode_segment p4 of
                          None \<Rightarrow> Inl InvalidHashFormat
                        | Some salt \<Rightarrow>
                            (case decode_segment p5 of
                               None \<Rightarrow> Inl InvalidHashFormat
                             | Some key \<Rightarrow>
                                 Inr (\<lparr>memory = m, iterations = t, parallelism = p,
                                       salt_length = length salt mod 2 ^ 32,
                                       key_length = length key mod 2 ^ 32\<rparr>, salt, key)))))
      | _ \<Rightarrow> Inl InvalidHashFormat)"

section \<open>Hashing, verification, upgrade check\<close>

text \<open>\<^verbatim>\<open>subtle.ConstantTimeCompare(a, b) == 1\<close>: equal length and equal content.\<close>

definition constant_time_eq :: "bytes \<Rightarrow> bytes \<Rightarrow> bool" where
  "constant_time_eq a b \<longleftrightarrow> length a = length b \<and> list_all2 (=) a b"

lemma constant_time_eq_iff [simp]: "constant_time_eq a b \<longleftrightarrow> a = b"
  by (auto simp: constant_time_eq_def list.rel_eq)

definition hash_password :: "kdf \<Rightarrow> string \<Rightarrow> world \<Rightarrow> (gerr + string) \<times> world" where
  "hash_password kdf pw w =
     (case random_bytes (salt_length current_params) w of
        (Inl e, w') \<Rightarrow> (Inl (Wrapped ''auth: generate salt'' e), w')
      | (Inr salt, w') \<Rightarrow> (Inr (encode_hash kdf pw salt current_params), emit WArgon2 w'))"

definition verify_hash :: "kdf \<Rightarrow> string \<Rightarrow> string \<Rightarrow> phc_error + bool" where
  "verify_hash kdf pw phc =
     (case decode_hash phc of
        Inl e \<Rightarrow> Inl e
      | Inr (ps, salt, want) \<Rightarrow>
          Inr (constant_time_eq
            (kdf pw salt (iterations ps) (memory ps) (parallelism ps) (key_length ps)) want))"

text \<open>The same with its cost: one argon2 run, unless the stored string does not parse.\<close>

definition verify_run :: "kdf \<Rightarrow> string \<Rightarrow> string \<Rightarrow> world \<Rightarrow> (phc_error + bool) \<times> world" where
  "verify_run kdf pw phc w =
     (verify_hash kdf pw phc,
      case decode_hash phc of Inl _ \<Rightarrow> w | Inr _ \<Rightarrow> emit WArgon2 w)"

definition needs_rehash :: "string \<Rightarrow> bool" where
  "needs_rehash phc =
     (case decode_hash phc of
        Inl _ \<Rightarrow> True
      | Inr (ps, _, _) \<Rightarrow>
          memory ps < memory current_params \<or>
          iterations ps < iterations current_params \<or>
          parallelism ps < parallelism current_params \<or>
          salt_length ps < salt_length current_params \<or>
          key_length ps < key_length current_params)"

text \<open>\<^verbatim>\<open>mustBuildDummyHash\<close> at process start, \<^const>\<open>None\<close> for its panic; \<^verbatim>\<open>DummyVerify\<close> on the
  request path.\<close>

definition must_build_dummy_hash :: "kdf \<Rightarrow> world \<Rightarrow> string option \<times> world" where
  "must_build_dummy_hash kdf w =
     (case random_bytes 32 w of
        (Inl e, w') \<Rightarrow> (None, w')
      | (Inr pw, w') \<Rightarrow>
          (case hash_password kdf pw w' of
             (Inl e, w'') \<Rightarrow> (None, w'')
           | (Inr h, w'') \<Rightarrow> (Some h, w'')))"

definition dummy_verify :: "kdf \<Rightarrow> string \<Rightarrow> string \<Rightarrow> world \<Rightarrow> bool \<times> world" where
  "dummy_verify kdf dummy pw w = (False, snd (verify_run kdf pw dummy w))"

section \<open>Rendering and parsing agree\<close>

lemma render_phc_join:
  "render_phc ps salt key = str_join ''$''
     [[], phc_algo, version_segment (int argon2_version),
      params_segment (memory ps) (iterations ps) (parallelism ps),
      raw_std_enc salt, raw_std_enc key]"
  by (simp add: render_phc_def)

lemma dollar_not_digit [simp]: "CHR ''$'' \<notin> set (itoa n)"
  by (rule not_in_itoa) (simp add: is_digit_def)

lemma dollar_free:
  "CHR ''$'' \<notin> set phc_algo" "CHR ''$'' \<notin> set (version_segment v)"
  "CHR ''$'' \<notin> set (params_segment m t p)"
  by (simp_all add: phc_algo_def version_segment_def itoa_int_def params_segment_def)

lemma split_render:
  "split_on (CHR ''$'') (render_phc ps salt key) =
     [[], phc_algo, version_segment (int argon2_version),
      params_segment (memory ps) (iterations ps) (parallelism ps),
      raw_std_enc salt, raw_std_enc key]"
  unfolding render_phc_join
  by (rule split_join_on) (auto simp: dollar_free rawstd.sep_free)

lemma scan_version_segment: "n < 2 ^ 63 \<Longrightarrow> scan_version (version_segment (int n)) = Some (int n)"
  using scan_int_itoa [of n "[]"] by (simp add: scan_version_def version_segment_def itoa_int_def)

lemma scan_params_segment:
  assumes "m < 2 ^ 32" "t < 2 ^ 32" "p < 2 ^ 8"
  shows "scan_params (params_segment m t p) = Some (m, t, p)"
proof -
  have "scan_uint 32 (itoa m @ '',t='' @ itoa t @ '',p='' @ itoa p) = Some (m, '',t='' @ itoa t @ '',p='' @ itoa p)"
    by (rule scan_uint_itoa [OF assms(1)]) (simp add: is_digit_def)
  moreover have "scan_uint 32 (itoa t @ '',p='' @ itoa p) = Some (t, '',p='' @ itoa p)"
    by (rule scan_uint_itoa [OF assms(2)]) (simp add: is_digit_def)
  moreover have "scan_uint 8 (itoa p) = Some (p, [])"
    using scan_uint_itoa [OF assms(3), of "[]"] by simp
  ultimately show ?thesis by (simp add: scan_params_def params_segment_def)
qed

lemma cost_ok_widths: "cost_ok m t p \<Longrightarrow> m < 2 ^ 32 \<and> t < 2 ^ 32 \<and> p < 2 ^ 8"
  by (simp add: cost_ok_def max_memory_kib_def max_iterations_def max_parallelism_def)

lemma decode_segment_enc [simp]: "b \<noteq> [] \<Longrightarrow> decode_segment (raw_std_enc b) = Some b"
  by (simp add: decode_segment_def rawstd.dec_enc)

lemma decode_render:
  assumes "cost_ok (memory ps) (iterations ps) (parallelism ps)" and "salt \<noteq> []" and "key \<noteq> []"
  shows "decode_hash (render_phc ps salt key) =
    Inr (ps\<lparr>salt_length := length salt mod 2 ^ 32, key_length := length key mod 2 ^ 32\<rparr>, salt, key)"
proof -
  have "scan_version (version_segment (int argon2_version)) = Some (int argon2_version)"
    by (rule scan_version_segment) (simp add: argon2_version_def)
  moreover have "scan_params (params_segment (memory ps) (iterations ps) (parallelism ps)) =
      Some (memory ps, iterations ps, parallelism ps)"
    using cost_ok_widths [OF assms(1)] by (intro scan_params_segment) auto
  ultimately show ?thesis using assms by (simp add: decode_hash_def split_render)
qed

text \<open>Everything the parser accepts: the canonical rendering of bounded costs, followed by two
  base64 segments that decode to something.\<close>

lemma decode_hash_cases:
  assumes "decode_hash s = Inr (ps, salt, key)"
  obtains ss ks where
    "s = str_join ''$'' [[], phc_algo, version_segment (int argon2_version),
           params_segment (memory ps) (iterations ps) (parallelism ps), ss, ks]"
    and "raw_std_dec ss = Some salt" and "raw_std_dec ks = Some key"
    and "salt \<noteq> []" and "key \<noteq> []"
    and "cost_ok (memory ps) (iterations ps) (parallelism ps)"
    and "salt_length ps = length salt mod 2 ^ 32" and "key_length ps = length key mod 2 ^ 32"
proof -
  obtain p0 p1 p2 p3 p4 p5 where sp: "split_on (CHR ''$'') s = [p0, p1, p2, p3, p4, p5]"
    using assms by (auto simp: decode_hash_def split: list.splits)
  have s: "s = str_join ''$'' [p0, p1, p2, p3, p4, p5]"
    using join_split_on [of "CHR ''$''" s] by (simp only: sp)
  have parts: "p0 = []" "p1 = phc_algo" "p2 = version_segment (int argon2_version)"
    "p3 = params_segment (memory ps) (iterations ps) (parallelism ps)"
    "decode_segment p4 = Some salt" "decode_segment p5 = Some key"
    "cost_ok (memory ps) (iterations ps) (parallelism ps)"
    "salt_length ps = length salt mod 2 ^ 32" "key_length ps = length key mod 2 ^ 32"
    using assms by (auto simp: decode_hash_def sp split: if_splits option.splits)
  show thesis
    by (rule that [of p4 p5])
       (use s parts in \<open>auto simp: decode_segment_def split: option.splits if_splits\<close>)
qed

section \<open>Verification\<close>

lemma verify_encode:
  assumes "cost_ok (memory ps) (iterations ps) (parallelism ps)"
    and "salt \<noteq> []" and "length (kdf pw salt (iterations ps) (memory ps) (parallelism ps) (key_length ps)) = key_length ps"
    and "0 < key_length ps" and "key_length ps < 2 ^ 32"
  shows "verify_hash kdf pw' (encode_hash kdf pw salt ps) =
    Inr (kdf pw' salt (iterations ps) (memory ps) (parallelism ps) (key_length ps) =
         kdf pw salt (iterations ps) (memory ps) (parallelism ps) (key_length ps))"
proof -
  let ?key = "kdf pw salt (iterations ps) (memory ps) (parallelism ps) (key_length ps)"
  have "?key \<noteq> []" using assms(3,4) by auto
  with assms show ?thesis
    by (simp add: verify_hash_def encode_hash_def decode_render)
qed

lemma current_cost_ok [simp]:
  "cost_ok (memory current_params) (iterations current_params) (parallelism current_params)"
  by (simp add: cost_ok_def current_params_def max_memory_kib_def max_iterations_def max_parallelism_def)

text \<open>Documented behaviour of \<^verbatim>\<open>argon2.IDKey\<close>: the derived key has the length asked for.\<close>

definition kdf_length_ok :: "kdf \<Rightarrow> bool" where
  "kdf_length_ok kdf \<longleftrightarrow> (\<forall>pw salt t m p n. length (kdf pw salt t m p n) = n)"

lemma hash_decodes:
  assumes "kdf_length_ok kdf" and "length salt = salt_length current_params"
  shows "decode_hash (encode_hash kdf pw salt current_params) =
    Inr (current_params, salt, kdf pw salt 2 19456 1 32)"
proof -
  have "length (kdf pw salt 2 19456 1 32) = 32" using assms(1) by (simp add: kdf_length_ok_def)
  moreover from this have "kdf pw salt 2 19456 1 32 \<noteq> []" by auto
  moreover have "salt \<noteq> []" "length salt = 16" using assms(2) by (auto simp: current_params_def)
  ultimately show ?thesis
    using decode_render [OF current_cost_ok, of salt "kdf pw salt 2 19456 1 32"]
    by (simp add: encode_hash_def current_params_def)
qed

lemma hash_password_decodes:
  assumes "kdf_length_ok kdf" and "hash_password kdf pw w = (Inr h, w')"
  shows "\<exists>salt key. decode_hash h = Inr (current_params, salt, key)"
proof -
  obtain salt where "length salt = salt_length current_params"
    and "h = encode_hash kdf pw salt current_params"
    using assms(2)
    by (auto simp: hash_password_def dest: random_bytes_length split: prod.splits sum.splits)
  with hash_decodes [OF assms(1)] show ?thesis by blast
qed

text \<open>A string that parses; the dummy hash of the process is one.\<close>

definition parses :: "string \<Rightarrow> bool" where
  "parses h \<longleftrightarrow> (case decode_hash h of Inl _ \<Rightarrow> False | Inr _ \<Rightarrow> True)"

lemma dummy_hash_parses:
  assumes "kdf_length_ok kdf" and "must_build_dummy_hash kdf w = (Some h, w')"
  shows "parses h"
  using assms(2) hash_password_decodes [OF assms(1)]
  by (fastforce simp: must_build_dummy_hash_def parses_def split: prod.splits sum.splits)

lemma verify_run_simps:
  "fst (verify_run kdf pw h w) = verify_hash kdf pw h"
  "snd (verify_run kdf pw h w) = (if parses h then emit WArgon2 w else w)"
  by (auto simp: verify_run_def parses_def split: sum.splits)

lemma dummy_verify_run:
  "parses h \<Longrightarrow> dummy_verify kdf h pw w = (False, emit WArgon2 w)"
  by (simp add: dummy_verify_def verify_run_simps)

lemma verify_hash_error_iff: "(\<exists>e. verify_hash kdf pw h = Inl e) \<longleftrightarrow> \<not> parses h"
  by (auto simp: verify_hash_def parses_def split: sum.splits)

end
