(* ===== verification/Store.thy ===== *)
theory Store
  imports Database
begin

text \<open>
  \<^verbatim>\<open>internal/modules/auth/store.go\<close>: the interface \<^verbatim>\<open>store\<close> through which the login flow reaches
  the database, as a record of operations on the world, its production implementation \<open>db_store\<close>,
  and the contract \<open>auth_store\<close> its client relies on.
\<close>

section \<open>The interface\<close>

record session_rows =
  sr_access :: insert_access
  sr_refresh :: insert_refresh

record store =
  s_user_by_username :: "string \<Rightarrow> world \<Rightarrow> (gerr + user_now_row) \<times> world"
  s_record_login_failure :: "uuid \<Rightarrow> int \<Rightarrow> duration \<Rightarrow> world \<Rightarrow> (gerr + login_failure_row) \<times> world"
  s_reset_login_failures :: "uuid \<Rightarrow> world \<Rightarrow> (gerr + unit) \<times> world"
  s_touch_user_timing :: "uuid \<Rightarrow> world \<Rightarrow> (gerr + unit) \<times> world"
  s_persist_session :: "session_rows \<Rightarrow> world \<Rightarrow> (gerr + unit) \<times> world"

section \<open>The production implementation\<close>

definition db_user_by_username ::
  "(string \<Rightarrow> string) \<Rightarrow> string \<Rightarrow> world \<Rightarrow> (gerr + user_now_row) \<times> world" where
  "db_user_by_username pl name = exec_stmt (WSelect ''GetUserByUsername'') (get_user_by_username pl name)"

text \<open>The window goes to the database in whole microseconds.\<close>

definition db_record_login_failure ::
  "uuid \<Rightarrow> int \<Rightarrow> duration \<Rightarrow> world \<Rightarrow> (gerr + login_failure_row) \<times> world" where
  "db_record_login_failure i threshold window =
     exec_stmt (WUpdate ''RecordLoginFailure'') (record_login_failure i threshold (window div 1000 * 1000))"

definition db_reset_login_failures :: "uuid \<Rightarrow> world \<Rightarrow> (gerr + unit) \<times> world" where
  "db_reset_login_failures i = exec_stmt (WUpdate ''SetUserLock'') (set_user_lock i 0 None)"

definition db_touch_user_timing :: "uuid \<Rightarrow> world \<Rightarrow> (gerr + unit) \<times> world" where
  "db_touch_user_timing i = exec_stmt (WUpdate ''TouchUserTiming'') (touch_user_timing i)"

definition q_insert_access_token :: "insert_access \<Rightarrow> tx \<Rightarrow> world \<Rightarrow> (gerr + access_row) \<times> tx \<times> world" where
  "q_insert_access_token a x w =
     (let (i, w') = next_id w in tx_exec (WInsert ''InsertAccessToken'') (insert_access_token i a) x w')"

definition q_insert_refresh_token :: "insert_refresh \<Rightarrow> tx \<Rightarrow> world \<Rightarrow> (gerr + refresh_row) \<times> tx \<times> world" where
  "q_insert_refresh_token a x w =
     (let (i, w') = next_id w in tx_exec (WInsert ''InsertRefreshToken'') (insert_refresh_token i a) x w')"

text \<open>The deferred rollback runs on every error; pgx has closed the transaction once \<^verbatim>\<open>Commit\<close> was
  called, whatever its result, and a rollback is then a no-op.\<close>

definition db_persist_session :: "session_rows \<Rightarrow> world \<Rightarrow> (gerr + unit) \<times> world" where
  "db_persist_session rows w =
     (case tx_begin w of
        (Inl e, w1) \<Rightarrow> (Inl e, w1)
      | (Inr x1, w1) \<Rightarrow>
          (case q_insert_access_token (sr_access rows) x1 w1 of
             (Inl e, x2, w2) \<Rightarrow> (Inl e, tx_rollback x2 w2)
           | (Inr _, x2, w2) \<Rightarrow>
               (case q_insert_refresh_token (sr_refresh rows) x2 w2 of
                  (Inl e, x3, w3) \<Rightarrow> (Inl e, tx_rollback x3 w3)
                | (Inr _, x3, w3) \<Rightarrow>
                    (case tx_commit x3 w3 of
                       (Inl e, w4) \<Rightarrow> (Inl e, w4)
                     | (Inr _, w4) \<Rightarrow> (Inr (), w4)))))"

definition db_store :: "(string \<Rightarrow> string) \<Rightarrow> store" where
  "db_store pl =
     \<lparr>s_user_by_username = db_user_by_username pl,
      s_record_login_failure = db_record_login_failure,
      s_reset_login_failures = db_reset_login_failures,
      s_touch_user_timing = db_touch_user_timing,
      s_persist_session = db_persist_session\<rparr>"

section \<open>Work counters\<close>

definition is_argon2 :: "work \<Rightarrow> bool" where
  "is_argon2 e \<longleftrightarrow> e = WArgon2"

definition is_update :: "work \<Rightarrow> bool" where
  "is_update e \<longleftrightarrow> (case e of WUpdate _ \<Rightarrow> True | _ \<Rightarrow> False)"

definition argon2_runs :: "world \<Rightarrow> world \<Rightarrow> nat" where
  "argon2_runs w w' = length (filter is_argon2 (w_trace w')) - length (filter is_argon2 (w_trace w))"

definition update_count :: "world \<Rightarrow> world \<Rightarrow> nat" where
  "update_count w w' = length (filter is_update (w_trace w')) - length (filter is_update (w_trace w))"

text \<open>\<open>w'\<close> comes from \<open>w\<close> by work \<open>es\<close>.\<close>

definition did :: "work list \<Rightarrow> world \<Rightarrow> world \<Rightarrow> bool" where
  "did es w w' \<longleftrightarrow> w_trace w' = w_trace w @ es"

lemma did_refl [simp, intro]: "did [] w w"
  by (simp add: did_def)

lemma did_trans: "did a u v \<Longrightarrow> did b v w \<Longrightarrow> did (a @ b) u w"
  by (simp add: did_def)

lemma did_emit [intro]: "did [e] w (emit e w)"
  by (simp add: did_def)

lemma did_counts:
  "did es w w' \<Longrightarrow> argon2_runs w w' = length (filter is_argon2 es)"
  "did es w w' \<Longrightarrow> update_count w w' = length (filter is_update es)"
  by (simp_all add: did_def argon2_runs_def update_count_def)

lemma did_exec: "exec_stmt k st w = (r, w') \<Longrightarrow> did [k] w w'"
  by (simp add: did_def exec_stmt_trace)

section \<open>The contract\<close>

text \<open>
  What the login flow needs of a store, for every state of the world: each operation does one unit
  of work of its kind and nothing else to the trace; looking a user up, and touching the timing
  column, leave every lock, counter and token as it was; a user that is found is found under the
  name asked for.
\<close>

definition lock_state :: "tables \<Rightarrow> (uuid \<times> string \<times> string \<times> int \<times> time option) list" where
  "lock_state t = map (\<lambda>u. (u_id u, u_password_hash u, u_status u, u_failed_attempts u, u_locked_until u)) (users t)"

definition same_sessions :: "tables \<Rightarrow> tables \<Rightarrow> bool" where
  "same_sessions t t' \<longleftrightarrow> refresh_tokens t' = refresh_tokens t \<and> access_tokens t' = access_tokens t"

lemma same_sessions_refl [simp, intro]: "same_sessions t t"
  by (simp add: same_sessions_def)

lemma same_sessions_trans: "same_sessions a b \<Longrightarrow> same_sessions b c \<Longrightarrow> same_sessions a c"
  by (simp add: same_sessions_def)

locale auth_store =
  fixes st :: store
  assumes lookup_did: "s_user_by_username st n w = (r, w') \<Longrightarrow> \<exists>k. did [WSelect k] w w'"
    and lookup_tabs: "s_user_by_username st n w = (r, w') \<Longrightarrow> w_tabs w' = w_tabs w"
    and failure_did: "s_record_login_failure st i th d w = (rf, w') \<Longrightarrow> \<exists>k. did [WUpdate k] w w'"
    and failure_sessions: "s_record_login_failure st i th d w = (rf, w') \<Longrightarrow> same_sessions (w_tabs w) (w_tabs w')"
    and reset_did: "s_reset_login_failures st i w = (ru, w') \<Longrightarrow> \<exists>k. did [WUpdate k] w w'"
    and reset_sessions: "s_reset_login_failures st i w = (ru, w') \<Longrightarrow> same_sessions (w_tabs w) (w_tabs w')"
    and touch_did: "s_touch_user_timing st i w = (ru, w') \<Longrightarrow> \<exists>k. did [WUpdate k] w w'"
    and touch_sessions: "s_touch_user_timing st i w = (ru, w') \<Longrightarrow> same_sessions (w_tabs w) (w_tabs w')"
    and touch_locks: "s_touch_user_timing st i w = (ru, w') \<Longrightarrow> lock_state (w_tabs w') = lock_state (w_tabs w)"

lemma touch_lock_state: "lock_state (snd (touch_user_timing i now t)) = lock_state t"
  by (simp add: touch_user_timing_def lock_state_def update_where_def)

lemma exec_stmt_pred:
  assumes "exec_stmt k st w = (r, w')" and "\<And>now. P (w_tabs w) (snd (st now (w_tabs w)))"
    and "P (w_tabs w) (w_tabs w)"
  shows "P (w_tabs w) (w_tabs w')"
  using assms(1)
proof (rule exec_stmt_outcome)
  fix now a t
  assume "st now (w_tabs w) = (a, t)"
    and "r = a \<and> w_tabs w' = t \<or> (\<exists>e. r = Inl e \<and> (w_tabs w' = w_tabs w \<or> w_tabs w' = t))"
  moreover from this(1) assms(2) [of now] have "P (w_tabs w) t" by simp
  ultimately show ?thesis using assms(3) by auto
qed

lemma db_lookup_frame:
  "db_user_by_username pl n w = (r, w') \<Longrightarrow> w_tabs w' = w_tabs w"
  by (auto simp: db_user_by_username_def intro: exec_stmt_read_only)

lemma user_stmts_sessions:
  "same_sessions t (snd (record_login_failure i th d now t))"
  "same_sessions t (snd (set_user_lock i n l now t))"
  "same_sessions t (snd (touch_user_timing i now t))"
  by (auto simp: record_login_failure_def set_user_lock_def touch_user_timing_def same_sessions_def
      Let_def split: option.splits)

interpretation dbst: auth_store "db_store pl" for pl
proof (unfold_locales, simp_all only: db_store_def store.simps)
  fix n w r w' assume a: "db_user_by_username pl n w = (r, w')"
  then show "\<exists>k. did [WSelect k] w w'"
    unfolding db_user_by_username_def by (blast dest: did_exec)
  from a show "w_tabs w' = w_tabs w" by (rule db_lookup_frame)
next
  fix i th d w rf w' assume "db_record_login_failure i th d w = (rf, w')"
  then have e: "exec_stmt (WUpdate ''RecordLoginFailure'')
      (record_login_failure i th (d div 1000 * 1000)) w = (rf, w')"
    by (simp add: db_record_login_failure_def)
  then show "\<exists>k. did [WUpdate k] w w'" by (blast dest: did_exec)
  from e show "same_sessions (w_tabs w) (w_tabs w')"
    by (rule exec_stmt_pred) (simp_all add: user_stmts_sessions)
next
  fix i w ru w' assume "db_reset_login_failures i w = (ru, w')"
  then have e: "exec_stmt (WUpdate ''SetUserLock'') (set_user_lock i 0 None) w = (ru, w')"
    by (simp add: db_reset_login_failures_def)
  then show "\<exists>k. did [WUpdate k] w w'" by (blast dest: did_exec)
  from e show "same_sessions (w_tabs w) (w_tabs w')"
    by (rule exec_stmt_pred) (simp_all add: user_stmts_sessions)
next
  fix i w ru w' assume "db_touch_user_timing i w = (ru, w')"
  then have e: "exec_stmt (WUpdate ''TouchUserTiming'') (touch_user_timing i) w = (ru, w')"
    by (simp add: db_touch_user_timing_def)
  then show "\<exists>k. did [WUpdate k] w w'" by (blast dest: did_exec)
  from e show "same_sessions (w_tabs w) (w_tabs w')"
    by (rule exec_stmt_pred) (simp_all add: user_stmts_sessions)
  from e have "lock_state (w_tabs w) = lock_state (w_tabs w')"
    by (rule exec_stmt_pred) (simp_all add: touch_lock_state)
  then show "lock_state (w_tabs w') = lock_state (w_tabs w)" by simp
qed

section \<open>Persisting a session\<close>

lemma q_insert_access_Inr:
  assumes "q_insert_access_token a x w = (Inr r, x', w')"
  obtains i where "\<not> tx_failed x'" and "tx_now x' = tx_now x"
    and "insert_access_token i a (tx_now x) (tx_tabs x) = (Inr r, tx_tabs x')"
proof -
  obtain i v where "next_id w = (i, v)" by (cases "next_id w")
  with assms have e: "tx_exec (WInsert ''InsertAccessToken'') (insert_access_token i a) x v = (Inr r, x', w')"
    by (simp add: q_insert_access_token_def)
  from tx_exec_Inr [OF e] tx_exec_frame [OF e] that show thesis by blast
qed

lemma q_insert_refresh_Inr:
  assumes "q_insert_refresh_token a x w = (Inr r, x', w')"
  obtains i where "\<not> tx_failed x'" and "tx_now x' = tx_now x"
    and "insert_refresh_token i a (tx_now x) (tx_tabs x) = (Inr r, tx_tabs x')"
proof -
  obtain i v where "next_id w = (i, v)" by (cases "next_id w")
  with assms have e: "tx_exec (WInsert ''InsertRefreshToken'') (insert_refresh_token i a) x v = (Inr r, x', w')"
    by (simp add: q_insert_refresh_token_def)
  from tx_exec_Inr [OF e] tx_exec_frame [OF e] that show thesis by blast
qed

lemma q_insert_frame:
  "q_insert_access_token a x w = (ra, x', w') \<Longrightarrow> w_tabs w' = w_tabs w"
  "q_insert_refresh_token b x w = (rb, x', w') \<Longrightarrow> w_tabs w' = w_tabs w"
  by (auto simp: q_insert_access_token_def q_insert_refresh_token_def
      split: prod.splits dest!: tx_exec_frame next_id_D)

text \<open>Both rows of a session, as one transaction at time \<open>now\<close> writes them.\<close>

definition session_inserted :: "session_rows \<Rightarrow> tables \<Rightarrow> tables \<Rightarrow> bool" where
  "session_inserted rows t t' \<longleftrightarrow>
     (\<exists>i j now. let a = access_row_of i (sr_access rows) now; r = refresh_row_of j (sr_refresh rows) now in
        t' = t\<lparr>access_tokens := access_tokens t @ [a], refresh_tokens := refresh_tokens t @ [r]\<rparr> \<and>
        (\<forall>q \<in> set (access_tokens t). at_token_hash q \<noteq> at_token_hash a) \<and>
        (\<forall>q \<in> set (refresh_tokens t). rt_selector q \<noteq> rt_selector r) \<and>
        (\<exists>u \<in> set (users t). u_id u = at_user_id a) \<and> (\<exists>u \<in> set (users t). u_id u = rt_user_id r))"

lemma two_inserts:
  assumes "insert_access_token i (sr_access rows) now t = (Inr ra, t1)"
    and "insert_refresh_token j (sr_refresh rows) now t1 = (Inr rr, t2)"
  shows "session_inserted rows t t2"
  using insert_access_Inr [OF assms(1)] insert_refresh_Inr [OF assms(2)]
  unfolding session_inserted_def Let_def
  by (intro exI [of _ i] exI [of _ j] exI [of _ now]) (simp add: access_row_of_def refresh_row_of_def)

lemma db_persist_session_cases:
  assumes "db_persist_session rows w = (r, w')"
  obtains (failed) e where "r = Inl e" and "w_tabs w' = w_tabs w"
  | (commit) x v rc v' where "session_inserted rows (w_tabs w) (tx_tabs x)" and "w_tabs v = w_tabs w"
      and "tx_commit x v = (rc, v')" and "r = rc" and "w_tabs w' = w_tabs v'"
proof -
  obtain rb w1 where b: "tx_begin w = (rb, w1)" by (cases "tx_begin w")
  note f1 = tx_begin_frame [OF b]
  obtain ra x2 w2 where a: "q_insert_access_token (sr_access rows) (projr rb) w1 = (ra, x2, w2)"
    by (metis prod_cases3)
  obtain rr x3 w3 where q: "q_insert_refresh_token (sr_refresh rows) x2 w2 = (rr, x3, w3)"
    by (metis prod_cases3)
  obtain rc w4 where c: "tx_commit x3 w3 = (rc, w4)" by (cases "tx_commit x3 w3")
  note frames = tx_begin_frame [OF b] q_insert_frame(1) [OF a] q_insert_frame(2) [OF q]
  show thesis
  proof (cases "(\<exists>e. rb = Inl e) \<or> (\<exists>e. ra = Inl e) \<or> (\<exists>e. rr = Inl e)")
    case True
    then obtain e where "r = Inl e" "w_tabs w' = w_tabs w"
      using assms b a q frames by (cases rb; cases ra; cases rr) (auto simp: db_persist_session_def)
    then show thesis by (rule failed)
  next
    case False
    then obtain x1 arow rrow where ok: "rb = Inr x1" "ra = Inr arow" "rr = Inr rrow"
      by (cases rb; cases ra; cases rr) auto
    from q_insert_access_Inr [OF a [unfolded ok sum.sel]] obtain i
      where i: "insert_access_token i (sr_access rows) (tx_now x1) (tx_tabs x1) = (Inr arow, tx_tabs x2)"
        and n: "tx_now x2 = tx_now x1" by metis
    from q_insert_refresh_Inr [OF q [unfolded ok]] obtain j
      where "insert_refresh_token j (sr_refresh rows) (tx_now x2) (tx_tabs x2) = (Inr rrow, tx_tabs x3)"
      by metis
    with two_inserts [OF i] n tx_begin_Inr [OF b [unfolded ok]]
    have "session_inserted rows (w_tabs w) (tx_tabs x3)" by simp
    moreover have "r = rc" "w_tabs w' = w_tabs w4"
      using assms b a q c ok by (auto simp: db_persist_session_def split: sum.splits)
    ultimately show thesis using c frames by (intro commit [of x3 w3 rc w4]) auto
  qed
qed

text \<open>Whatever fails: an accepted session has both its rows, a failed one none or, when the answer to
  the commit was lost, both.\<close>

lemma db_persist_session_outcome:
  assumes "db_persist_session rows w = (r, w')"
  shows "(r = Inr () \<and> session_inserted rows (w_tabs w) (w_tabs w')) \<or>
    (\<exists>e. r = Inl e \<and> (w_tabs w' = w_tabs w \<or> session_inserted rows (w_tabs w) (w_tabs w')))"
  using assms
proof (cases rule: db_persist_session_cases)
  case (commit x v rc v')
  then show ?thesis by (cases rc) (auto dest: tx_commit_Inl tx_commit_Inr)
qed auto

end
