(* ===== verification/Login.thy ===== *)
theory Login
  imports Wire Token Password Store
begin

text \<open>
  \<^verbatim>\<open>internal/modules/auth/login.go\<close> with \<^verbatim>\<open>lockout.go\<close>, \<^verbatim>\<open>ratelimit.go\<close>, \<^verbatim>\<open>credential.go\<close>,
  \<^verbatim>\<open>internal_error.go\<close> and the \<^verbatim>\<open>Handler\<close> of \<^verbatim>\<open>handler.go\<close>: decoding of the request, the credential
  check with its lock gate and its constant work, issuing of the session, and the handler.
\<close>

section \<open>The handler and its parts\<close>

text \<open>\<^verbatim>\<open>RateLimiter\<close>: whether the request may proceed, and after how long to retry.\<close>

type_synonym rate_limiter = "string \<Rightarrow> world \<Rightarrow> (bool \<times> duration) \<times> world"

definition noop_rate_limiter :: rate_limiter where
  "noop_rate_limiter key w = ((True, 0), w)"

text \<open>The handler: the store, the limiter, and what the code takes from outside the repository:
  argon2id, the dummy hash built at start, lower-casing of non-ASCII text in Go and in PostgreSQL.\<close>

record handler =
  h_store :: store
  h_limiter :: rate_limiter
  h_kdf :: kdf
  h_dummy_hash :: string
  h_unicode_lower :: "string \<Rightarrow> string"

definition new_handler :: "(string \<Rightarrow> string) \<Rightarrow> kdf \<Rightarrow> string \<Rightarrow> (string \<Rightarrow> string) \<Rightarrow> handler" where
  "new_handler pl kdf dummy ul =
     \<lparr>h_store = db_store pl, h_limiter = noop_rate_limiter, h_kdf = kdf, h_dummy_hash = dummy,
      h_unicode_lower = ul\<rparr>"

definition user_status_active :: string where "user_status_active = ''active''"

definition max_login_body_bytes :: nat where "max_login_body_bytes = 4096"
definition access_token_ttl :: duration where "access_token_ttl = 15 * minute"
definition refresh_token_ttl :: duration where "refresh_token_ttl = 30 * 24 * hour"
definition lockout_threshold :: int where "lockout_threshold = 5"
definition lockout_window :: duration where "lockout_window = 15 * minute"

definition unauthorized_message :: string where
  "unauthorized_message = ''invalid username or password''"
definition code_unauthorized :: string where "code_unauthorized = ''unauthorized''"
definition code_bad_request :: string where "code_bad_request = ''bad_request''"
definition code_internal :: string where "code_internal = ''internal''"

section \<open>Redaction\<close>

datatype credential = Credential string

definition redacted_marker :: string where "redacted_marker = ''[REDACTED]''"

definition credential_string :: "credential \<Rightarrow> string" where
  "credential_string c = redacted_marker"

definition credential_log_value :: "credential \<Rightarrow> string" where
  "credential_log_value c = redacted_marker"

definition credential_marshal_json :: "credential \<Rightarrow> string" where
  "credential_marshal_json c = json_quote redacted_marker"

fun credential_plain :: "credential \<Rightarrow> string" where
  "credential_plain (Credential s) = s"

section \<open>Decoding the request\<close>

record login_request =
  lr_username :: string
  lr_password :: credential

definition decode_login_request :: "body \<Rightarrow> login_request option" where
  "decode_login_request b0 =
     (let b = max_bytes_reader max_login_body_bytes b0 in
      case decode_value b of
        None \<Rightarrow> None
      | Some (v, rest) \<Rightarrow>
          (case decode_struct [''username'', ''password''] v of
             None \<Rightarrow> None
           | Some f \<Rightarrow>
               if \<not> decode_eof rest (b_err b) then None
               else if f ''username'' = [] \<or> f ''password'' = [] then None
               else Some \<lparr>lr_username = f ''username'', lr_password = Credential (f ''password'')\<rparr>))"

section \<open>Checking the credentials\<close>

definition log_internal_error :: "string \<Rightarrow> string \<Rightarrow> gerr \<Rightarrow> world \<Rightarrow> world" where
  "log_internal_error op rid e = emit (LogInternalError op rid e)"

definition log_account_locked :: "string \<Rightarrow> string \<Rightarrow> world \<Rightarrow> world" where
  "log_account_locked rid uid = emit (LogAccountLocked rid uid)"

text \<open>A rejection that still pays for its \<^verbatim>\<open>UPDATE\<close>.\<close>

definition touch_and_reject ::
  "handler \<Rightarrow> uuid \<Rightarrow> world \<Rightarrow> (gerr + user_now_row option) \<times> world" where
  "touch_and_reject h i w =
     (case s_touch_user_timing (h_store h) i w of
        (Inl e, w') \<Rightarrow> (Inl e, w')
      | (Inr _, w') \<Rightarrow> (Inr None, w'))"

text \<open>Wrong password of an active user: count it, log the transition to locked.\<close>

definition count_and_reject ::
  "handler \<Rightarrow> string \<Rightarrow> uuid \<Rightarrow> world \<Rightarrow> (gerr + user_now_row option) \<times> world" where
  "count_and_reject h rid i w =
     (case s_record_login_failure (h_store h) i lockout_threshold lockout_window w of
        (Inl e, w') \<Rightarrow> (Inl e, w')
      | (Inr res, w') \<Rightarrow>
          (Inr None, if lf_just_locked res then log_account_locked rid (uuid_to_string i) w' else w'))"

text \<open>A user that was found: lock gate, password, status gate, count or reset.\<close>

definition check_user ::
  "handler \<Rightarrow> string \<Rightarrow> user_now_row \<Rightarrow> string \<Rightarrow> world \<Rightarrow> (gerr + user_now_row option) \<times> world" where
  "check_user h rid u pw w =
     (if still_locked (u_locked_until u) (u_db_now u)
      then touch_and_reject h (u_id u) (snd (dummy_verify (h_kdf h) (h_dummy_hash h) pw w))
      else (case verify_run (h_kdf h) pw (u_password_hash u) w of
          (Inl _, w1) \<Rightarrow> (Inr None, snd (dummy_verify (h_kdf h) (h_dummy_hash h) pw w1))
        | (Inr match, w1) \<Rightarrow>
            if u_status u \<noteq> user_status_active then touch_and_reject h (u_id u) w1
            else if \<not> match then count_and_reject h rid (u_id u) w1
            else (case s_reset_login_failures (h_store h) (u_id u) w1 of
                (Inl e, w2) \<Rightarrow> (Inl e, w2)
              | (Inr _, w2) \<Rightarrow> (Inr (Some u), w2))))"

definition verify_credentials ::
  "handler \<Rightarrow> string \<Rightarrow> string \<Rightarrow> credential \<Rightarrow> world \<Rightarrow> (gerr + user_now_row option) \<times> world" where
  "verify_credentials h rid username password w =
     (case s_user_by_username (h_store h) (to_lower (h_unicode_lower h) username) w of
        (Inl e, w1) \<Rightarrow>
          if err_is ErrNoRows e
          then touch_and_reject h zero_uuid
                 (snd (dummy_verify (h_kdf h) (h_dummy_hash h) (credential_plain password) w1))
          else (Inl e, w1)
      | (Inr u, w1) \<Rightarrow> check_user h rid u (credential_plain password) w1)"

section \<open>Issuing a session\<close>

record login_session =
  ls_user_id :: string
  ls_access_token :: string
  ls_refresh_token :: string
  ls_expires_at :: int

definition rows_for :: "uuid \<Rightarrow> access_token \<Rightarrow> refresh_token \<Rightarrow> uuid \<Rightarrow> time \<Rightarrow> session_rows" where
  "rows_for i a r family now =
     \<lparr>sr_access = \<lparr>ia_user_id = i, ia_token_hash = acc_hash a,
                   ia_expires_at = Some (now + access_token_ttl)\<rparr>,
      sr_refresh = \<lparr>ir_user_id = i, ir_selector = ref_selector r,
                    ir_verifier_hash = ref_verifier_hash r, ir_token_family = family,
                    ir_expires_at = Some (now + refresh_token_ttl)\<rparr>\<rparr>"

definition session_of :: "uuid \<Rightarrow> access_token \<Rightarrow> refresh_token \<Rightarrow> time \<Rightarrow> login_session" where
  "session_of i a r now =
     \<lparr>ls_user_id = uuid_to_string i, ls_access_token = acc_plaintext a,
      ls_refresh_token = ref_plaintext r, ls_expires_at = unix_milli (now + access_token_ttl)\<rparr>"

definition issue_session :: "handler \<Rightarrow> uuid \<Rightarrow> world \<Rightarrow> (gerr + login_session) \<times> world" where
  "issue_session h i w =
     (case new_access_token w of
        (Inl e, w1) \<Rightarrow> (Inl e, w1)
      | (Inr a, w1) \<Rightarrow>
          (case new_refresh_token w1 of
             (Inl e, w2) \<Rightarrow> (Inl e, w2)
           | (Inr r, w2) \<Rightarrow>
               (case new_token_family w2 of
                  (Inl e, w3) \<Rightarrow> (Inl e, w3)
                | (Inr family, w3) \<Rightarrow>
                    (case s_persist_session (h_store h) (rows_for i a r family (w_app w3)) w3 of
                       (Inl e, w4) \<Rightarrow> (Inl e, w4)
                     | (Inr _, w4) \<Rightarrow> (Inr (session_of i a r (w_app w3)), w4)))))"

section \<open>The handler\<close>

definition marshal_session :: "login_session \<Rightarrow> string" where
  "marshal_session s =
     ''{'' @ json_field ''userId'' (json_quote (ls_user_id s))
     @ '','' @ json_field ''accessToken'' (json_quote (ls_access_token s))
     @ '','' @ json_field ''refreshToken'' (json_quote (ls_refresh_token s))
     @ '','' @ json_field ''expiresAt'' (itoa_int (ls_expires_at s)) @ ''}''"

definition session_response :: "login_session \<Rightarrow> response" where
  "session_response s =
     \<lparr>rsp_status = 200, rsp_headers = content_type_json, rsp_body = marshal_session s @ [CHR 0x0A]\<rparr>"

definition unauthorized :: "string \<Rightarrow> response" where
  "unauthorized rid = auth_write_error 401 code_unauthorized unauthorized_message rid"

definition bad_request :: "string \<Rightarrow> response" where
  "bad_request rid = auth_write_error 400 code_bad_request ''invalid request body'' rid"

definition internal_error :: "string \<Rightarrow> response" where
  "internal_error rid = auth_write_error 500 code_internal ''internal server error'' rid"

definition login :: "handler \<Rightarrow> string \<Rightarrow> body \<Rightarrow> world \<Rightarrow> response \<times> world" where
  "login h rid b w =
     (case decode_login_request b of
        None \<Rightarrow> (bad_request rid, w)
      | Some req \<Rightarrow>
          (case h_limiter h (to_lower (h_unicode_lower h) (lr_username req)) w of
             ((allowed, _), w1) \<Rightarrow>
               if \<not> allowed then (unauthorized rid, w1)
               else (case verify_credentials h rid (lr_username req) (lr_password req) w1 of
                   (Inl e, w2) \<Rightarrow>
                     (internal_error rid, log_internal_error ''login.verify_credentials'' rid e w2)
                 | (Inr None, w2) \<Rightarrow> (unauthorized rid, w2)
                 | (Inr (Some u), w2) \<Rightarrow>
                     (case issue_session h (u_id u) w2 of
                        (Inl e, w3) \<Rightarrow>
                          (internal_error rid, log_internal_error ''login.issue_session'' rid e w3)
                      | (Inr s, w3) \<Rightarrow> (session_response s, w3)))))"

section \<open>Work and effects of the credential check\<close>

lemma dummy_verify_did: "parses d \<Longrightarrow> did [WArgon2] w (snd (dummy_verify kdf d pw w))"
  by (simp add: dummy_verify_run did_emit)

lemma verify_run_did:
  "verify_run kdf pw ph w = (r, w') \<Longrightarrow> did (if parses ph then [WArgon2] else []) w w'"
  using verify_run_simps [of kdf pw ph w] by (auto simp: did_emit)

lemma verify_run_frame:
  "verify_run kdf pw ph w = (r, w') \<Longrightarrow> w_tabs w' = w_tabs w"
  "w_tabs (snd (dummy_verify kdf d pw w)) = w_tabs w"
  by (auto simp: verify_run_def dummy_verify_def split: sum.splits)

text \<open>The shape of the work of a check that found its user, or did not.\<close>

definition check_work :: "bool \<Rightarrow> work list \<Rightarrow> bool" where
  "check_work broken es \<longleftrightarrow>
     length (filter is_argon2 es) = 1 \<and>
     length (filter is_update es) = (if broken then 0 else 1)"

lemma check_work_simps [simp]:
  "check_work False [WArgon2, WUpdate k]"
  "check_work False [WArgon2, WUpdate k, LogAccountLocked a b]"
  "check_work True [WArgon2]"
  by (simp_all add: check_work_def is_argon2_def is_update_def)

text \<open>The five ways through \<^const>\<open>check_user\<close>; \<open>v\<close> is the world after the one argon2 run.\<close>

lemma check_user_cases:
  assumes "check_user h rid u pw w = (r, w')"
  obtains (locked) v where "still_locked (u_locked_until u) (u_db_now u)"
      and "v = snd (dummy_verify (h_kdf h) (h_dummy_hash h) pw w)"
      and "touch_and_reject h (u_id u) v = (r, w')"
  | (broken) "\<not> still_locked (u_locked_until u) (u_db_now u)"
      and "\<not> parses (u_password_hash u)" and "r = Inr None"
      and "w' = snd (dummy_verify (h_kdf h) (h_dummy_hash h) pw w)"
  | (inactive) v m where "\<not> still_locked (u_locked_until u) (u_db_now u)"
      and "parses (u_password_hash u)" and "v = emit WArgon2 w"
      and "verify_hash (h_kdf h) pw (u_password_hash u) = Inr m"
      and "u_status u \<noteq> user_status_active" and "touch_and_reject h (u_id u) v = (r, w')"
  | (wrong) v where "\<not> still_locked (u_locked_until u) (u_db_now u)"
      and "parses (u_password_hash u)" and "v = emit WArgon2 w"
      and "verify_hash (h_kdf h) pw (u_password_hash u) = Inr False"
      and "u_status u = user_status_active" and "count_and_reject h rid (u_id u) v = (r, w')"
  | (right) v rr where "\<not> still_locked (u_locked_until u) (u_db_now u)"
      and "parses (u_password_hash u)" and "v = emit WArgon2 w"
      and "verify_hash (h_kdf h) pw (u_password_hash u) = Inr True"
      and "u_status u = user_status_active"
      and "s_reset_login_failures (h_store h) (u_id u) v = (rr, w')"
      and "r = (case rr of Inl e \<Rightarrow> Inl e | Inr _ \<Rightarrow> Inr (Some u))"
proof (cases "verify_hash (h_kdf h) pw (u_password_hash u)")
  case (Inl e)
  then have "\<not> parses (u_password_hash u)" using verify_hash_error_iff by blast
  with Inl assms that(1,2) show thesis
    by (cases "still_locked (u_locked_until u) (u_db_now u)")
       (simp_all add: check_user_def verify_run_def parses_def split: sum.splits)
next
  case (Inr m)
  then have p: "parses (u_password_hash u)"
    using verify_hash_error_iff [of "h_kdf h" pw "u_password_hash u"] by auto
  then have "verify_run (h_kdf h) pw (u_password_hash u) w = (Inr m, emit WArgon2 w)"
    using Inr by (auto simp: verify_run_def parses_def split: sum.splits)
  with p Inr assms that(1,3,4,5) show thesis
    by (cases m) (auto simp: check_user_def split: if_splits prod.splits sum.splits)
qed

context auth_store begin

lemma touch_and_reject_spec:
  assumes "h_store h = st" and "touch_and_reject h i w = (r, w')"
  obtains k where "did [WUpdate k] w w'" and "r = Inr None \<or> (\<exists>e. r = Inl e)"
    and "same_sessions (w_tabs w) (w_tabs w')" and "lock_state (w_tabs w') = lock_state (w_tabs w)"
proof -
  obtain ru v where s: "s_touch_user_timing st i w = (ru, v)" by (cases "s_touch_user_timing st i w")
  with assms have v: "v = w'" "r = Inr None \<or> (\<exists>e. r = Inl e)"
    by (auto simp: touch_and_reject_def split: sum.splits)
  from touch_did [OF s] obtain k where "did [WUpdate k] w w'" using v by blast
  with v touch_sessions [OF s] touch_locks [OF s] that show thesis by blast
qed

lemma count_and_reject_spec:
  assumes "h_store h = st" and "count_and_reject h rid i w = (r, w')"
  obtains k es where "did (WUpdate k # es) w w'" and "r = Inr None \<or> (\<exists>e. r = Inl e)"
    and "es = [] \<or> es = [LogAccountLocked rid (uuid_to_string i)]"
    and "same_sessions (w_tabs w) (w_tabs w')"
proof -
  obtain rf v where s: "s_record_login_failure st i lockout_threshold lockout_window w = (rf, v)"
    by (cases "s_record_login_failure st i lockout_threshold lockout_window w")
  from failure_did [OF s] obtain k where k: "did [WUpdate k] w v" by blast
  from assms s have "r = Inr None \<or> (\<exists>e. r = Inl e)"
    and "w' = v \<or> w' = log_account_locked rid (uuid_to_string i) v"
    by (auto simp: count_and_reject_def split: sum.splits)
  with k failure_sessions [OF s] show thesis
    by (auto simp: log_account_locked_def did_def intro: that)
qed

lemma check_user_work:
  assumes "h_store h = st" and "parses (h_dummy_hash h)"
    and "check_user h rid u pw w = (r, w')"
  obtains es where "did es w w'"
    and "check_work (\<not> still_locked (u_locked_until u) (u_db_now u) \<and> \<not> parses (u_password_hash u)) es"
    and "r = Inr (Some u) \<or> r = Inr None \<or> (\<exists>e. r = Inl e)"
    and "same_sessions (w_tabs w) (w_tabs w')"
  using assms(3)
proof (cases rule: check_user_cases)
  case (locked v)
  then obtain k where "did [WUpdate k] v w'" "r = Inr None \<or> (\<exists>e. r = Inl e)"
    "same_sessions (w_tabs v) (w_tabs w')"
    using touch_and_reject_spec [OF assms(1)] by blast
  with locked did_trans [OF dummy_verify_did [OF assms(2)]] show thesis
    by (intro that [of "[WArgon2, WUpdate k]"]) (auto simp: verify_run_frame)
next
  case broken
  with dummy_verify_did [OF assms(2)] show thesis
    by (intro that [of "[WArgon2]"]) (auto simp: verify_run_frame)
next
  case (inactive v m)
  then obtain k where "did [WUpdate k] v w'" "r = Inr None \<or> (\<exists>e. r = Inl e)"
    "same_sessions (w_tabs v) (w_tabs w')"
    using touch_and_reject_spec [OF assms(1)] by blast
  with inactive did_trans [of "[WArgon2]" w v] show thesis
    by (intro that [of "[WArgon2, WUpdate k]"]) (auto simp: did_emit)
next
  case (wrong v)
  then obtain k es where "did (WUpdate k # es) v w'" "r = Inr None \<or> (\<exists>e. r = Inl e)"
    "es = [] \<or> es = [LogAccountLocked rid (uuid_to_string (u_id u))]"
    "same_sessions (w_tabs v) (w_tabs w')"
    using count_and_reject_spec [OF assms(1)] by metis
  with wrong did_trans [of "[WArgon2]" w v] show thesis
    by (intro that [of "WArgon2 # WUpdate k # es"]) (auto simp: did_emit)
next
  case (right v rr)
  with reset_did [of "u_id u" v rr w'] assms(1) obtain k where "did [WUpdate k] v w'" by auto
  with right did_trans [of "[WArgon2]" w v] reset_sessions [of "u_id u" v rr w'] assms(1) show thesis
    by (intro that [of "[WArgon2, WUpdate k]"]) (auto simp: did_emit split: sum.splits)
qed

lemma check_user_sessions:
  assumes "h_store h = st" and "check_user h rid u pw w = (r, w')"
  shows "same_sessions (w_tabs w) (w_tabs w')"
  using assms(2)
proof (cases rule: check_user_cases)
  case (locked v)
  with touch_and_reject_spec [OF assms(1) locked(3)] show ?thesis by (metis verify_run_frame(2))
next
  case (inactive v m)
  with touch_and_reject_spec [OF assms(1) inactive(6)] show ?thesis by (metis emit_simps(1))
next
  case (wrong v)
  with count_and_reject_spec [OF assms(1) wrong(6)] show ?thesis by (metis emit_simps(1))
next
  case (right v rr)
  with reset_sessions [of "u_id u" v rr w'] assms(1) show ?thesis by simp
qed (simp add: verify_run_frame)

lemma verify_credentials_sessions:
  assumes "h_store h = st" and "verify_credentials h rid name pw w = (r, w')"
  shows "same_sessions (w_tabs w) (w_tabs w')"
proof -
  obtain rl w1 where l: "s_user_by_username st (to_lower (h_unicode_lower h) name) w = (rl, w1)"
    by (cases "s_user_by_username st (to_lower (h_unicode_lower h) name) w")
  let ?v = "snd (dummy_verify (h_kdf h) (h_dummy_hash h) (credential_plain pw) w1)"
  from assms l consider u where "check_user h rid u (credential_plain pw) w1 = (r, w')"
    | "touch_and_reject h zero_uuid ?v = (r, w')" | "w' = w1"
    by (auto simp: verify_credentials_def split: sum.splits if_splits)
  then show ?thesis
  proof cases
    case 1
    from check_user_sessions [OF assms(1) this] lookup_tabs [OF l] show ?thesis by simp
  next
    case 2
    from touch_and_reject_spec [OF assms(1) this] lookup_tabs [OF l] show ?thesis
      by (metis verify_run_frame(2))
  qed (simp add: lookup_tabs [OF l])
qed

text \<open>The user the lookup finds, if it finds one that the broken-hash path rejects.\<close>

lemma verify_credentials_work:
  assumes "h_store h = st" and "parses (h_dummy_hash h)"
    and "verify_credentials h rid name pw w = (r, w')"
  obtains k es where "did (WSelect k # es) w w'"
    and "(es = [] \<and> (\<exists>e. r = Inl e)) \<or>
         check_work (\<exists>u w1. s_user_by_username st (to_lower (h_unicode_lower h) name) w = (Inr u, w1) \<and>
           \<not> still_locked (u_locked_until u) (u_db_now u) \<and> \<not> parses (u_password_hash u)) es"
    and "same_sessions (w_tabs w) (w_tabs w')"
proof -
  let ?n = "to_lower (h_unicode_lower h) name"
  obtain rl w1 where l: "s_user_by_username st ?n w = (rl, w1)" by (cases "s_user_by_username st ?n w")
  from lookup_did [OF l] obtain k where k: "did [WSelect k] w w1" by blast
  note tabs = lookup_tabs [OF l]
  note vc = assms(3) [unfolded verify_credentials_def assms(1) l]
  show thesis
  proof (cases rl)
    case (Inr u)
    with vc have "check_user h rid u (credential_plain pw) w1 = (r, w')" by simp
    from check_user_work [OF assms(1,2) this] obtain es where "did es w1 w'"
      "check_work (\<not> still_locked (u_locked_until u) (u_db_now u) \<and> \<not> parses (u_password_hash u)) es"
      "same_sessions (w_tabs w1) (w_tabs w')" by metis
    with did_trans [OF k] that [of k es] tabs Inr l show thesis by simp
  next
    case (Inl e)
    show thesis
    proof (cases "err_is ErrNoRows e")
      case True
      let ?v = "snd (dummy_verify (h_kdf h) (h_dummy_hash h) (credential_plain pw) w1)"
      from True vc Inl have "touch_and_reject h zero_uuid ?v = (r, w')" by simp
      from touch_and_reject_spec [OF assms(1) this] obtain k' where "did [WUpdate k'] ?v w'"
        "same_sessions (w_tabs ?v) (w_tabs w')" by metis
      with did_trans [OF k did_trans [OF dummy_verify_did [OF assms(2)]]]
        that [of k "[WArgon2, WUpdate k']"] tabs Inl l show thesis
        by (simp add: verify_run_frame)
    next
      case False
      with vc Inl k that [of k "[]"] tabs show thesis by auto
    qed
  qed
qed

end

section \<open>Acceptance\<close>

lemma with_db_now_simps [simp]:
  "u_id (with_db_now u t) = u_id u" "u_username (with_db_now u t) = u_username u"
  "u_password_hash (with_db_now u t) = u_password_hash u" "u_status (with_db_now u t) = u_status u"
  "u_failed_attempts (with_db_now u t) = u_failed_attempts u"
  "u_locked_until (with_db_now u t) = u_locked_until u" "u_db_now (with_db_now u t) = t"
  by (simp_all add: with_db_now_def user_row.defs)

text \<open>The row of the user as \<^verbatim>\<open>resetLoginFailures\<close> leaves it.\<close>

definition cleared :: "uuid \<Rightarrow> time \<Rightarrow> tables \<Rightarrow> tables" where
  "cleared i now t = snd (set_user_lock i 0 None now t)"

lemma db_lookup_Inr:
  assumes "db_user_by_username pl n w = (Inr u, w')"
  obtains r now where "r \<in> set (users (w_tabs w))" and "pl (u_username r) = pl n"
    and "u = with_db_now r now" and "w_db w \<le> now" and "w_tabs w' = w_tabs w"
    and "w_db w' = now"
  using assms unfolding db_user_by_username_def
proof (rule exec_stmt_Inr)
  fix now assume "w_db w \<le> now" and "get_user_by_username pl n now (w_tabs w) = (Inr u, w_tabs w')"
    and "w_db w' = now"
  then show thesis
    by (auto simp: get_user_by_username_def one_row_def split: option.splits dest!: find_SomeD intro: that)
qed

lemma touch_and_reject_not_Some: "touch_and_reject h i w \<noteq> (Inr (Some u), w')"
  by (auto simp: touch_and_reject_def split: prod.splits sum.splits)

lemma count_and_reject_not_Some: "count_and_reject h rid i w \<noteq> (Inr (Some u), w')"
  by (auto simp: count_and_reject_def split: prod.splits sum.splits)

lemma check_user_accept:
  assumes "check_user h rid u pw w = (Inr (Some a), w')"
  shows "a = u" "\<not> still_locked (u_locked_until u) (u_db_now u)"
    "verify_hash (h_kdf h) pw (u_password_hash u) = Inr True" "u_status u = ''active''"
    "\<exists>ru. s_reset_login_failures (h_store h) (u_id u) (emit WArgon2 w) = (Inr ru, w')"
  using assms
  by (atomize (full), cases rule: check_user_cases)
     (auto simp: touch_and_reject_not_Some count_and_reject_not_Some user_status_active_def
       split: sum.splits)

lemma db_reset_Inr:
  assumes "db_reset_login_failures i w = (Inr ru, w')"
  obtains now where "w_db w \<le> now" and "w_tabs w' = cleared i now (w_tabs w)"
  using assms unfolding db_reset_login_failures_def
  by (rule exec_stmt_Inr) (auto simp: cleared_def set_user_lock_def intro: that)

section \<open>The handler, path by path\<close>

text \<open>The handler of the deployment imposes no limit, so a decoded request is always checked.\<close>

lemma new_handler_simps [simp]:
  "h_store (new_handler pl kdf d ul) = db_store pl" "h_limiter (new_handler pl kdf d ul) = noop_rate_limiter"
  "h_kdf (new_handler pl kdf d ul) = kdf" "h_dummy_hash (new_handler pl kdf d ul) = d"
  "h_unicode_lower (new_handler pl kdf d ul) = ul"
  by (simp_all add: new_handler_def)

lemma db_store_simps [simp]:
  "s_user_by_username (db_store pl) = db_user_by_username pl"
  "s_record_login_failure (db_store pl) = db_record_login_failure"
  "s_reset_login_failures (db_store pl) = db_reset_login_failures"
  "s_touch_user_timing (db_store pl) = db_touch_user_timing"
  "s_persist_session (db_store pl) = db_persist_session"
  by (simp_all add: db_store_def)

lemma login_cases:
  assumes "login (new_handler pl kdf d ul) rid b w = (rsp, w')"
  obtains (bad) "decode_login_request b = None" and "rsp = bad_request rid" and "w' = w"
  | (lookup_error) req e w2 where "decode_login_request b = Some req"
      and "verify_credentials (new_handler pl kdf d ul) rid (lr_username req) (lr_password req) w = (Inl e, w2)"
      and "rsp = internal_error rid"
      and "w' = log_internal_error ''login.verify_credentials'' rid e w2"
  | (denied) req where "decode_login_request b = Some req"
      and "verify_credentials (new_handler pl kdf d ul) rid (lr_username req) (lr_password req) w = (Inr None, w')"
      and "rsp = unauthorized rid"
  | (issue_error) req u w2 e w3 where "decode_login_request b = Some req"
      and "verify_credentials (new_handler pl kdf d ul) rid (lr_username req) (lr_password req) w = (Inr (Some u), w2)"
      and "issue_session (new_handler pl kdf d ul) (u_id u) w2 = (Inl e, w3)"
      and "rsp = internal_error rid"
      and "w' = log_internal_error ''login.issue_session'' rid e w3"
  | (ok) req u w2 s where "decode_login_request b = Some req"
      and "verify_credentials (new_handler pl kdf d ul) rid (lr_username req) (lr_password req) w = (Inr (Some u), w2)"
      and "issue_session (new_handler pl kdf d ul) (u_id u) w2 = (Inr s, w')"
      and "rsp = session_response s"
  using assms
  by (auto simp: login_def noop_rate_limiter_def split: option.splits prod.splits sum.splits)

lemma response_status [simp]:
  "rsp_status (bad_request rid) = 400" "rsp_status (unauthorized rid) = 401"
  "rsp_status (internal_error rid) = 500" "rsp_status (session_response s) = 200"
  by (simp_all add: bad_request_def unauthorized_def internal_error_def auth_write_error_def session_response_def)

text \<open>\<open>issued i now t t' s\<close>: the tables went from \<open>t\<close> to \<open>t'\<close> by the two rows of a new session of user
  \<open>i\<close>, and \<open>s\<close> is what the client is told.\<close>

definition issued :: "uuid \<Rightarrow> time \<Rightarrow> tables \<Rightarrow> tables \<Rightarrow> login_session \<Rightarrow> bool" where
  "issued i now t t' s \<longleftrightarrow>
     (\<exists>raw sel ver b. length raw = 32 \<and> length sel = 16 \<and> length ver = 16 \<and> length b = 16 \<and>
        session_inserted (rows_for i (access_of raw) (refresh_of sel ver) (v4_bits b) now) t t' \<and>
        s = session_of i (access_of raw) (refresh_of sel ver) now)"

lemma issue_session_outcome:
  assumes "issue_session (new_handler pl kdf d ul) i w = (r, w')"
  shows "(\<exists>s. r = Inr s \<and> issued i (w_app w) (w_tabs w) (w_tabs w') s) \<or>
    (\<exists>e. r = Inl e \<and> (w_tabs w' = w_tabs w \<or> (\<exists>s. issued i (w_app w) (w_tabs w) (w_tabs w') s)))"
proof -
  consider (err) e where "r = Inl e" "w_tabs w' = w_tabs w"
    | (mint) a rf f w1 w2 w3 rp where "new_access_token w = (Inr a, w1)" "new_refresh_token w1 = (Inr rf, w2)"
      "new_token_family w2 = (Inr f, w3)" "db_persist_session (rows_for i a rf f (w_app w3)) w3 = (rp, w')"
      "r = (case rp of Inl e \<Rightarrow> Inl e | Inr _ \<Rightarrow> Inr (session_of i a rf (w_app w3)))"
    using assms
    by (auto simp: issue_session_def same_but_rand_def split: prod.splits sum.splits dest!: mint_same)
  then show ?thesis
  proof cases
    case mint
    obtain raw where a: "a = access_of raw" "length raw = 32" by (rule new_access_token_Inr [OF mint(1)])
    obtain sel ver where rf: "rf = refresh_of sel ver" "length sel = 16" "length ver = 16"
      by (rule new_refresh_token_Inr [OF mint(2)])
    obtain b where f: "f = v4_bits b" "length b = 16" by (rule new_token_family_Inr [OF mint(3)])
    have same: "w_tabs w3 = w_tabs w" "w_app w3 = w_app w"
      using mint_same(1) [OF mint(1)] mint_same(2) [OF mint(2)] mint_same(3) [OF mint(3)]
      by (simp_all add: same_but_rand_def)
    have iss: "issued i (w_app w) (w_tabs w) t' (session_of i a rf (w_app w3))"
      if "session_inserted (rows_for i a rf f (w_app w3)) (w_tabs w3) t'" for t'
      unfolding issued_def using that a rf f same
      by (intro exI [of _ raw] exI [of _ sel] exI [of _ ver] exI [of _ b]) simp
    from db_persist_session_outcome [OF mint(4)] show ?thesis
    proof (elim disjE exE conjE)
      assume "rp = Inr ()" "session_inserted (rows_for i a rf f (w_app w3)) (w_tabs w3) (w_tabs w')"
      with iss [of "w_tabs w'"] mint(5) show ?thesis by simp
    next
      fix e assume "rp = Inl e" "w_tabs w' = w_tabs w3"
      with same mint(5) show ?thesis by simp
    next
      fix e assume "rp = Inl e" "session_inserted (rows_for i a rf f (w_app w3)) (w_tabs w3) (w_tabs w')"
      with iss [of "w_tabs w'"] mint(5) show ?thesis by auto
    qed
  qed auto
qed

section \<open>When nothing fails\<close>

lemma cleared_simps [simp]:
  "access_tokens (cleared i now t) = access_tokens t" "refresh_tokens (cleared i now t) = refresh_tokens t"
  "map u_id (users (cleared i now t)) = map u_id (users t)"
  by (simp_all add: cleared_def set_user_lock_def map_update_where)

lemma cleared_has_user:
  "(\<exists>v \<in> set (users (cleared i now t)). u_id v = j) \<longleftrightarrow> (\<exists>v \<in> set (users t). u_id v = j)"
proof -
  have "(\<exists>v \<in> set us. u_id v = j) \<longleftrightarrow> j \<in> set (map u_id us)" for us :: "user_row list" by auto
  then show ?thesis by (simp only: cleared_simps)
qed

lemma mint_quiet:
  "w_rand w = Some raw # rs \<Longrightarrow> length raw = 32 \<Longrightarrow>
     new_access_token w = (Inr (access_of raw), w\<lparr>w_rand := rs\<rparr>)"
  "w_rand w = Some sel # Some ver # rs \<Longrightarrow> length sel = 16 \<Longrightarrow> length ver = 16 \<Longrightarrow>
     new_refresh_token w = (Inr (refresh_of sel ver), w\<lparr>w_rand := rs\<rparr>)"
  "w_rand w = Some b # rs \<Longrightarrow> length b = 16 \<Longrightarrow>
     new_token_family w = (Inr (v4_bits b), w\<lparr>w_rand := rs\<rparr>)"
  by (simp_all add: new_access_token_def new_refresh_token_def new_token_family_def random_bytes_def
      access_token_bytes_def selector_bytes_def verifier_bytes_def)

lemma persist_quiet:
  assumes "w_script w = []" and "w_ids w = i # j # ids"
    and "\<forall>q \<in> set (access_tokens (w_tabs w)). at_id q \<noteq> i \<and> at_token_hash q \<noteq> ia_token_hash (sr_access rows)"
    and "\<forall>q \<in> set (refresh_tokens (w_tabs w)). rt_id q \<noteq> j \<and> rt_selector q \<noteq> ir_selector (sr_refresh rows)"
    and "ia_expires_at (sr_access rows) \<noteq> None" and "ir_expires_at (sr_refresh rows) \<noteq> None"
    and "\<exists>u \<in> set (users (w_tabs w)). u_id u = ia_user_id (sr_access rows)"
    and "\<exists>u \<in> set (users (w_tabs w)). u_id u = ir_user_id (sr_refresh rows)"
  obtains w' where "db_persist_session rows w = (Inr (), w')" and "session_inserted rows (w_tabs w) (w_tabs w')"
proof -
  obtain r w' where p: "db_persist_session rows w = (r, w')" by (cases "db_persist_session rows w")
  have "r = Inr ()"
    using p assms
    by (simp add: db_persist_session_def tx_begin_def next_fault_quiet q_insert_access_token_def
        q_insert_refresh_token_def next_id_def tx_exec_def insert_access_token_def insert_refresh_token_def
        tx_commit_def Let_def)
  with p db_persist_session_outcome [OF p] that show thesis by auto
qed

lemma login_verified_quiet:
  assumes "w_script w = []"
    and "find (\<lambda>u. pl (u_username u) = pl (to_lower ul n)) (users (w_tabs w)) = Some u"
    and "\<not> still_locked (u_locked_until u) (w_db w)" and "u_status u = ''active''"
    and "verify_hash kdf (credential_plain pw) (u_password_hash u) = Inr True"
  obtains w2 where "verify_credentials (new_handler pl kdf d ul) rid n pw w = (Inr (Some (with_db_now u (w_db w))), w2)"
    and "w_tabs w2 = cleared (u_id u) (w_db w) (w_tabs w)"
    and "w_script w2 = []" "w_ids w2 = w_ids w" "w_rand w2 = w_rand w" "w_app w2 = w_app w"
proof -
  have l: "db_user_by_username pl (to_lower ul n) w =
      (Inr (with_db_now u (w_db w)), (emit (WSelect ''GetUserByUsername'') w)\<lparr>w_tabs := w_tabs w\<rparr>)"
    unfolding db_user_by_username_def
    by (rule exec_stmt_quiet) (simp_all add: assms get_user_by_username_def one_row_def)
  define w1 where "w1 = emit WArgon2 ((emit (WSelect ''GetUserByUsername'') w)\<lparr>w_tabs := w_tabs w\<rparr>)"
  have p: "parses (u_password_hash u)"
    using assms(5) verify_hash_error_iff [of kdf "credential_plain pw" "u_password_hash u"] by auto
  have v: "verify_run kdf (credential_plain pw) (u_password_hash u) ((emit (WSelect ''GetUserByUsername'') w)\<lparr>w_tabs := w_tabs w\<rparr>)
      = (Inr True, w1)"
    using p assms(5) by (auto simp: verify_run_def w1_def parses_def split: sum.splits)
  have r: "db_reset_login_failures (u_id u) w1 =
      (Inr (), (emit (WUpdate ''SetUserLock'') w1)\<lparr>w_tabs := cleared (u_id u) (w_db w) (w_tabs w)\<rparr>)"
    unfolding db_reset_login_failures_def
    by (rule exec_stmt_quiet) (simp_all add: assms w1_def cleared_def set_user_lock_def)
  show thesis
    by (rule that [of "(emit (WUpdate ''SetUserLock'') w1)\<lparr>w_tabs := cleared (u_id u) (w_db w) (w_tabs w)\<rparr>"])
       (use l v r assms in \<open>simp_all add: verify_credentials_def check_user_def user_status_active_def w1_def\<close>)
qed

lemma quiet_touch:
  "w_script w = [] \<Longrightarrow> touch_and_reject (new_handler pl kdf d ul) i w =
     (Inr None, (emit (WUpdate ''TouchUserTiming'') w)\<lparr>w_tabs := snd (touch_user_timing i (w_db w) (w_tabs w))\<rparr>)"
  by (simp add: touch_and_reject_def db_touch_user_timing_def exec_stmt_def next_fault_quiet
      touch_user_timing_def)

lemma quiet_lookup:
  "w_script w = [] \<Longrightarrow> db_user_by_username pl n w =
     (case find (\<lambda>u. pl (u_username u) = pl n) (users (w_tabs w)) of
        None \<Rightarrow> Inl ErrNoRows | Some u \<Rightarrow> Inr (with_db_now u (w_db w)),
      emit (WSelect ''GetUserByUsername'') w)"
  by (simp add: db_user_by_username_def exec_stmt_def next_fault_quiet get_user_by_username_def
      one_row_def emit_def split: option.splits)

lemma dummy_verify_script [simp]:
  "w_script (snd (dummy_verify kdf d pw w)) = w_script w" "w_db (snd (dummy_verify kdf d pw w)) = w_db w"
  by (auto simp: dummy_verify_def verify_run_def split: sum.splits)

lemma quiet_unknown:
  assumes "decode_login_request b = Some req" and "w_script w = []"
    and "find (\<lambda>u. pl (u_username u) = pl (to_lower ul (lr_username req))) (users (w_tabs w)) = None"
  shows "fst (login (new_handler pl kdf d ul) rid b w) = unauthorized rid"
  using assms
  by (simp add: login_def noop_rate_limiter_def verify_credentials_def quiet_lookup quiet_touch)

lemma quiet_locked:
  assumes "decode_login_request b = Some req" and "w_script w = []"
    and "find (\<lambda>u. pl (u_username u) = pl (to_lower ul (lr_username req))) (users (w_tabs w)) = Some u"
    and "still_locked (u_locked_until u) (w_db w)"
  shows "fst (login (new_handler pl kdf d ul) rid b w) = unauthorized rid"
  using assms
  by (simp add: login_def noop_rate_limiter_def verify_credentials_def check_user_def quiet_lookup quiet_touch)

text \<open>The row of a user after a counted failure.\<close>

definition failed_once :: "time \<Rightarrow> user_row \<Rightarrow> user_row" where
  "failed_once now u = u\<lparr>u_failed_attempts := failed_next (u_failed_attempts u) (u_locked_until u) now,
     u_locked_until := locked_next lockout_threshold lockout_window (u_failed_attempts u) (u_locked_until u) now,
     u_updated_at := now\<rparr>"

lemma window_micros: "lockout_window div 1000 * 1000 = lockout_window"
  by (simp add: lockout_window_def duration_defs)

lemma quiet_wrong:
  assumes "decode_login_request b = Some req" and "w_script w = []"
    and "find (\<lambda>u. pl (u_username u) = pl (to_lower ul (lr_username req))) (users (w_tabs w)) = Some u"
    and "distinct (map u_id (users (w_tabs w)))"
    and "\<not> still_locked (u_locked_until u) (w_db w)" and "u_status u = ''active''"
    and "verify_hash kdf (credential_plain (lr_password req)) (u_password_hash u) = Inr False"
    and "u_failed_attempts u < max_int4"
  shows "login (new_handler pl kdf d ul) rid b w =
    (unauthorized rid,
     w\<lparr>w_tabs := (w_tabs w)\<lparr>users := update_where (\<lambda>v. v = u) (\<lambda>_. failed_once (w_db w) u) (users (w_tabs w))\<rparr>,
       w_trace := w_trace w @ [WSelect ''GetUserByUsername'', WArgon2, WUpdate ''RecordLoginFailure'']
         @ (if u_locked_until (failed_once (w_db w) u) = None then []
            else [LogAccountLocked rid (uuid_to_string (u_id u))])\<rparr>)"
proof -
  have u: "u \<in> set (users (w_tabs w))" using find_SomeD [OF assms(3)] by simp
  then have f: "find (\<lambda>v. u_id v = u_id u) (users (w_tabs w)) = Some u"
    by (rule find_unique [OF assms(4)])
  have p: "parses (u_password_hash u)"
    using assms(7) verify_hash_error_iff [of kdf "credential_plain (lr_password req)" "u_password_hash u"] by auto
  have v: "verify_run kdf (credential_plain (lr_password req)) (u_password_hash u) v = (Inr False, emit WArgon2 v)" for v
    using p assms(7) by (auto simp: verify_run_def parses_def split: sum.splits)
  have n: "failed_next (u_failed_attempts u) (u_locked_until u) (w_db w) \<le> max_int4"
    using assms(8) by (auto simp: failed_next_def max_int4_def)
  have c: "count_and_reject (new_handler pl kdf d ul) rid (u_id u) v =
      (Inr None, v\<lparr>w_tabs := (w_tabs w)\<lparr>users := update_where (\<lambda>v. v = u) (\<lambda>_. failed_once (w_db w) u) (users (w_tabs w))\<rparr>,
       w_trace := w_trace v @ WUpdate ''RecordLoginFailure'' #
         (if u_locked_until (failed_once (w_db w) u) = None then []
          else [LogAccountLocked rid (uuid_to_string (u_id u))])\<rparr>)"
    if "w_script v = []" "w_tabs v = w_tabs w" "w_db v = w_db w" for v
    using that f n assms(5) update_where_one [OF assms(4) u]
    by (simp add: count_and_reject_def db_record_login_failure_def exec_stmt_def next_fault_quiet
        record_login_failure_def Let_def window_micros failed_once_def log_account_locked_def emit_def)
  show ?thesis
    using assms
    by (simp add: login_def noop_rate_limiter_def verify_credentials_def check_user_def quiet_lookup v
        user_status_active_def c emit_def)
qed
lemma quiet_broken:
  assumes "w_script w = []" and "parses d"
    and "find (\<lambda>u. pl (u_username u) = pl (to_lower ul n)) (users (w_tabs w)) = Some u"
    and "\<not> still_locked (u_locked_until u) (w_db w)" and "\<not> parses (u_password_hash u)"
  shows "verify_credentials (new_handler pl kdf d ul) rid n pw w =
    (Inr None, w\<lparr>w_trace := w_trace w @ [WSelect ''GetUserByUsername'', WArgon2]\<rparr>)"
  using assms verify_run_simps(2) [of kdf "credential_plain pw" "u_password_hash u"]
    verify_hash_error_iff [of kdf "credential_plain pw" "u_password_hash u"]
  by (auto simp: verify_credentials_def check_user_def quiet_lookup verify_run_def dummy_verify_run emit_def
      split: sum.splits)

end
