(* ===== verification/Refresh.thy ===== *)
theory Refresh
  imports Login
begin

text \<open>
  \<^verbatim>\<open>internal/modules/auth/refresh.go\<close>: rotation of refresh tokens with replay detection, in one
  transaction that first takes the advisory lock of the token family and then the row lock.
\<close>

section \<open>Decoding the request\<close>

definition max_refresh_body_bytes :: nat where "max_refresh_body_bytes = 4096"
definition refresh_reuse_leeway :: duration where "refresh_reuse_leeway = 30 * second"

record refresh_request =
  rr_refresh_token :: string

definition decode_refresh_request :: "body \<Rightarrow> refresh_request option" where
  "decode_refresh_request b0 =
     (let b = max_bytes_reader max_refresh_body_bytes b0 in
      case decode_value b of
        None \<Rightarrow> None
      | Some (v, rest) \<Rightarrow>
          (case decode_struct [''refreshToken''] v of
             None \<Rightarrow> None
           | Some f \<Rightarrow>
               if decoder_more rest then None
               else if f ''refreshToken'' = [] then None
               else Some \<lparr>rr_refresh_token = f ''refreshToken''\<rparr>))"

section \<open>Rotation\<close>

text \<open>The ways out of the transaction without a commit: a refusal and a server error, each with the
  deferred rollback.\<close>

definition reject :: "tx \<Rightarrow> world \<Rightarrow> (gerr + login_session option) \<times> world" where
  "reject x w = (Inr None, tx_rollback x w)"

definition fail :: "gerr \<Rightarrow> tx \<Rightarrow> world \<Rightarrow> (gerr + login_session option) \<times> world" where
  "fail e x w = (Inl e, tx_rollback x w)"

text \<open>Step 9: consume the old token, mint, insert, commit.\<close>

definition rotation_rows :: "refresh_now_row \<Rightarrow> access_token \<Rightarrow> refresh_token \<Rightarrow> time \<Rightarrow> session_rows" where
  "rotation_rows row a r now = rows_for (rt_user_id row) a r (rt_token_family row) now"

definition rotate_mint ::
  "refresh_now_row \<Rightarrow> time \<Rightarrow> tx \<Rightarrow> world \<Rightarrow> (gerr + login_session option) \<times> world" where
  "rotate_mint row now x w =
     (case tx_exec (WUpdate ''MarkRefreshTokenUsed'') (mark_refresh_token_used (rt_id row)) x w of
        (Inl e, x1, w1) \<Rightarrow> fail e x1 w1
      | (Inr _, x1, w1) \<Rightarrow>
          (case new_access_token w1 of
             (Inl e, w2) \<Rightarrow> fail e x1 w2
           | (Inr a, w2) \<Rightarrow>
               (case new_refresh_token w2 of
                  (Inl e, w3) \<Rightarrow> fail e x1 w3
                | (Inr r, w3) \<Rightarrow>
                    (case q_insert_refresh_token (sr_refresh (rotation_rows row a r now)) x1 w3 of
                       (Inl e, x4, w4) \<Rightarrow> fail e x4 w4
                     | (Inr _, x4, w4) \<Rightarrow>
                         (case q_insert_access_token (sr_access (rotation_rows row a r now)) x4 w4 of
                            (Inl e, x5, w5) \<Rightarrow> fail e x5 w5
                          | (Inr _, x5, w5) \<Rightarrow>
                              (case tx_commit x5 w5 of
                                 (Inl e, w6) \<Rightarrow> (Inl e, w6)
                               | (Inr _, w6) \<Rightarrow>
                                   (Inr (Some (session_of (rt_user_id row) a r now)), w6)))))))"

text \<open>Step 6 on a token used longer ago than the leeway: revoke the family, commit, refuse.\<close>

definition revoke_family ::
  "refresh_now_row \<Rightarrow> tx \<Rightarrow> world \<Rightarrow> (gerr + login_session option) \<times> world" where
  "revoke_family row x w =
     (case tx_exec (WUpdate ''RevokeTokenFamily'') (revoke_token_family (rt_token_family row)) x w of
        (Inl e, x1, w1) \<Rightarrow> fail e x1 w1
      | (Inr _, x1, w1) \<Rightarrow>
          (case tx_commit x1 w1 of
             (Inl e, w2) \<Rightarrow> (Inl e, w2)
           | (Inr _, w2) \<Rightarrow> (Inr None, w2)))"

definition used_recently :: "refresh_now_row \<Rightarrow> time \<Rightarrow> bool" where
  "used_recently row t \<longleftrightarrow> time_sub (rt_db_now row) t \<le> refresh_reuse_leeway"

text \<open>Steps 7 to 9, on a token that is neither revoked nor used.\<close>

definition expired :: "time option \<Rightarrow> time \<Rightarrow> bool" where
  "expired t now \<longleftrightarrow> (case t of None \<Rightarrow> False | Some e \<Rightarrow> \<not> now < e)"

definition rotate_unused ::
  "refresh_now_row \<Rightarrow> time \<Rightarrow> tx \<Rightarrow> world \<Rightarrow> (gerr + login_session option) \<times> world" where
  "rotate_unused row now x w =
     (if expired (rt_expires_at row) now then reject x w
      else (case tx_exec (WSelect ''GetUserByID'') (get_user_by_id (rt_user_id row)) x w of
          (Inl e, x1, w1) \<Rightarrow> if err_is ErrNoRows e then reject x1 w1 else fail e x1 w1
        | (Inr u, x1, w1) \<Rightarrow>
            if u_status u \<noteq> user_status_active then reject x1 w1
            else rotate_mint row now x1 w1))"

text \<open>Steps 4 to 9, on the row read under both locks; \<^verbatim>\<open>time.Now()\<close> is read after the comparison.\<close>

definition rotate_row ::
  "refresh_now_row \<Rightarrow> string \<Rightarrow> tx \<Rightarrow> world \<Rightarrow> (gerr + login_session option) \<times> world" where
  "rotate_row row verifier x w =
     (case raw_url_dec verifier of
        None \<Rightarrow> reject x w
      | Some raw \<Rightarrow>
          if \<not> constant_time_eq (sha256 raw) (rt_verifier_hash row) then reject x w
          else if rt_revoked_at row \<noteq> None then reject x w
          else (case rt_used_at row of
              Some t \<Rightarrow> if used_recently row t then reject x w else revoke_family row x w
            | None \<Rightarrow> rotate_unused row (w_app w) x w))"

text \<open>Steps 1 to 3: the family of the selector, its advisory lock, the locked row.\<close>

definition rotate_refresh :: "string \<Rightarrow> string \<Rightarrow> world \<Rightarrow> (gerr + login_session option) \<times> world" where
  "rotate_refresh selector verifier w =
     (case tx_begin w of
        (Inl e, w0) \<Rightarrow> (Inl e, w0)
      | (Inr x0, w0) \<Rightarrow>
          (case tx_exec (WSelect ''GetRefreshTokenBySelector'')
                  (get_refresh_token_by_selector selector) x0 w0 of
             (Inl e, x1, w1) \<Rightarrow> if err_is ErrNoRows e then reject x1 w1 else fail e x1 w1
           | (Inr pre, x1, w1) \<Rightarrow>
               (case tx_exec (WLock ''LockTokenFamily'') (lock_token_family (rt_token_family pre)) x1 w1 of
                  (Inl e, x2, w2) \<Rightarrow> fail e x2 w2
                | (Inr _, x2, w2) \<Rightarrow>
                    (case tx_exec (WSelect ''GetRefreshTokenBySelectorForUpdate'')
                            (get_refresh_token_by_selector_for_update selector) x2 w2 of
                       (Inl e, x3, w3) \<Rightarrow> if err_is ErrNoRows e then reject x3 w3 else fail e x3 w3
                     | (Inr row, x3, w3) \<Rightarrow> rotate_row row verifier x3 w3))))"

section \<open>The handler\<close>

definition refresh :: "string \<Rightarrow> body \<Rightarrow> world \<Rightarrow> response \<times> world" where
  "refresh rid b w =
     (case decode_refresh_request b of
        None \<Rightarrow> (bad_request rid, w)
      | Some req \<Rightarrow>
          (case cut_on refresh_separator (rr_refresh_token req) of
             None \<Rightarrow> (unauthorized rid, w)
           | Some (selector, verifier) \<Rightarrow>
               if selector = [] \<or> verifier = [] then (unauthorized rid, w)
               else (case rotate_refresh selector verifier w of
                   (Inl e, w1) \<Rightarrow> (internal_error rid, log_internal_error ''refresh.rotate'' rid e w1)
                 | (Inr None, w1) \<Rightarrow> (unauthorized rid, w1)
                 | (Inr (Some s), w1) \<Rightarrow> (session_response s, w1))))"

section \<open>What a rotation does\<close>

definition marked :: "uuid \<Rightarrow> time \<Rightarrow> tables \<Rightarrow> tables" where
  "marked i now t = snd (mark_refresh_token_used i now t)"

definition revoked :: "uuid \<Rightarrow> time \<Rightarrow> tables \<Rightarrow> tables" where
  "revoked f now t = snd (revoke_token_family f now t)"

text \<open>The tables went from \<open>t\<close> to \<open>t'\<close> by one rotation of \<open>row\<close> at database time \<open>t0\<close> and application
  time \<open>now\<close>, and \<open>s\<close> is what the client is told.\<close>

definition rotated :: "refresh_now_row \<Rightarrow> time \<Rightarrow> time \<Rightarrow> tables \<Rightarrow> tables \<Rightarrow> login_session \<Rightarrow> bool" where
  "rotated row now t0 t t' s \<longleftrightarrow>
     (\<exists>raw sel ver. length raw = 32 \<and> length sel = 16 \<and> length ver = 16 \<and>
        session_inserted (rotation_rows row (access_of raw) (refresh_of sel ver) now)
          (marked (rt_id row) t0 t) t' \<and>
        s = session_of (rt_user_id row) (access_of raw) (refresh_of sel ver) now)"

lemma two_inserts_rev:
  assumes "insert_refresh_token j (sr_refresh rows) now t = (Inr rr, t1)"
    and "insert_access_token i (sr_access rows) now t1 = (Inr ra, t2)"
  shows "session_inserted rows t t2"
  using insert_refresh_Inr [OF assms(1)] insert_access_Inr [OF assms(2)]
  unfolding session_inserted_def Let_def
  by (intro exI [of _ i] exI [of _ j] exI [of _ now]) (simp add: access_row_of_def refresh_row_of_def)

lemma reject_fail_simps [simp]:
  "reject x w = (r, w') \<longleftrightarrow> r = Inr None \<and> w' = tx_rollback x w"
  "fail e x w = (r, w') \<longleftrightarrow> r = Inl e \<and> w' = tx_rollback x w"
  by (auto simp: reject_def fail_def)

lemma rotate_mint_cases:
  assumes "rotate_mint row now x w = (r, w')"
  obtains (failed) e where "r = Inl e" and "w_tabs w' = w_tabs w"
  | (commit) s x' v rc where "rotated row now (tx_now x) (tx_tabs x) (tx_tabs x') s"
      and "w_tabs v = w_tabs w" and "tx_commit x' v = (rc, w')"
      and "r = (case rc of Inl e \<Rightarrow> Inl e | Inr _ \<Rightarrow> Inr (Some s))"
proof -
  consider (err) e where "r = Inl e" "w_tabs w' = w_tabs w"
    | (run) u x1 w1 a w2 rf w3 rr x4 w4 ra x5 w5 rc w6 where
      "tx_exec (WUpdate ''MarkRefreshTokenUsed'') (mark_refresh_token_used (rt_id row)) x w = (Inr u, x1, w1)"
      "new_access_token w1 = (Inr a, w2)" "new_refresh_token w2 = (Inr rf, w3)"
      "q_insert_refresh_token (sr_refresh (rotation_rows row a rf now)) x1 w3 = (Inr rr, x4, w4)"
      "q_insert_access_token (sr_access (rotation_rows row a rf now)) x4 w4 = (Inr ra, x5, w5)"
      "tx_commit x5 w5 = (rc, w6)" "w' = w6"
      "r = (case rc of Inl e \<Rightarrow> Inl e | Inr _ \<Rightarrow> Inr (Some (session_of (rt_user_id row) a rf now)))"
    using assms
    by (auto simp: rotate_mint_def same_but_rand_def split: prod.splits sum.splits
        dest!: mint_same tx_exec_frame q_insert_frame)
  then show thesis
  proof cases
    case err then show thesis by (rule failed)
  next
    case run
    note m = tx_exec_Inr [OF run(1)] tx_exec_frame [OF run(1)]
    obtain raw where a: "a = access_of raw" "length raw = 32" by (rule new_access_token_Inr [OF run(2)])
    obtain sel ver where rf: "rf = refresh_of sel ver" "length sel = 16" "length ver = 16"
      by (rule new_refresh_token_Inr [OF run(3)])
    let ?rows = "rotation_rows row a rf now"
    obtain j where j: "tx_now x4 = tx_now x1"
      "insert_refresh_token j (sr_refresh ?rows) (tx_now x1) (tx_tabs x1) = (Inr rr, tx_tabs x4)"
      by (rule q_insert_refresh_Inr [OF run(4)]) blast
    obtain i where i: "insert_access_token i (sr_access ?rows) (tx_now x4) (tx_tabs x4) = (Inr ra, tx_tabs x5)"
      by (rule q_insert_access_Inr [OF run(5)]) blast
    have "tx_tabs x1 = marked (rt_id row) (tx_now x) (tx_tabs x)" "tx_now x1 = tx_now x"
      using m by (auto simp: marked_def)
    with two_inserts_rev [OF j(2) i [unfolded j(1)]] a rf
    have "rotated row now (tx_now x) (tx_tabs x) (tx_tabs x5) (session_of (rt_user_id row) a rf now)"
      unfolding rotated_def by (intro exI [of _ raw] exI [of _ sel] exI [of _ ver]) simp
    moreover have "w_tabs w5 = w_tabs w"
      using m mint_same(1) [OF run(2)] mint_same(2) [OF run(3)] q_insert_frame(1) [OF run(5)]
        q_insert_frame(2) [OF run(4)] by (simp add: same_but_rand_def)
    ultimately show thesis using run(6,7,8) by (intro commit [of x5 _ w5 rc]) auto
  qed
qed

lemma rotate_mint_outcome:
  assumes "rotate_mint row now x w = (r, w')"
  shows "(\<exists>s. r = Inr (Some s) \<and> rotated row now (tx_now x) (tx_tabs x) (w_tabs w') s) \<or>
    (\<exists>e. r = Inl e \<and> (w_tabs w' = w_tabs w \<or> (\<exists>s. rotated row now (tx_now x) (tx_tabs x) (w_tabs w') s)))"
  using assms
proof (cases rule: rotate_mint_cases)
  case (commit s x' v rc)
  then show ?thesis by (cases rc) (auto dest: tx_commit_Inl tx_commit_Inr)
qed auto

lemma revoke_family_outcome:
  assumes "revoke_family row x w = (r, w')"
  shows "(r = Inr None \<and> w_tabs w' = revoked (rt_token_family row) (tx_now x) (tx_tabs x)) \<or>
    (\<exists>e. r = Inl e \<and> (w_tabs w' = w_tabs w \<or> w_tabs w' = revoked (rt_token_family row) (tx_now x) (tx_tabs x)))"
proof -
  consider (err) e where "r = Inl e" "w_tabs w' = w_tabs w"
    | (run) u x1 w1 rc where
      "tx_exec (WUpdate ''RevokeTokenFamily'') (revoke_token_family (rt_token_family row)) x w = (Inr u, x1, w1)"
      "tx_commit x1 w1 = (rc, w')" "r = (case rc of Inl e \<Rightarrow> Inl e | Inr _ \<Rightarrow> Inr None)"
    using assms
    by (auto simp: revoke_family_def split: prod.splits sum.splits dest!: tx_exec_frame)
  then show ?thesis
  proof cases
    case run
    have "tx_tabs x1 = revoked (rt_token_family row) (tx_now x) (tx_tabs x)" "w_tabs w1 = w_tabs w"
      using tx_exec_Inr [OF run(1)] tx_exec_frame [OF run(1)] by (auto simp: revoked_def)
    with run(2,3) show ?thesis by (cases rc) (auto dest: tx_commit_Inl tx_commit_Inr)
  qed auto
qed

text \<open>The row a rotation works on: unique by its selector, with the time of the transaction.\<close>

definition locked_row :: "string \<Rightarrow> time \<Rightarrow> tables \<Rightarrow> refresh_now_row option" where
  "locked_row selector now t =
     map_option (\<lambda>r. refresh_row.extend r \<lparr>rt_db_now = now\<rparr>)
       (find (\<lambda>r. rt_selector r = selector) (refresh_tokens t))"

text \<open>The three things a rotation can do to the tables: nothing; revoke the family of a used token;
  rotate an unused, unrevoked, unexpired token of an active user.\<close>

definition may_rotate :: "refresh_now_row \<Rightarrow> string \<Rightarrow> time \<Rightarrow> tables \<Rightarrow> bool" where
  "may_rotate row verifier now t \<longleftrightarrow>
     (\<exists>raw. raw_url_dec verifier = Some raw \<and> sha256 raw = rt_verifier_hash row) \<and>
     rt_revoked_at row = None \<and> rt_used_at row = None \<and> \<not> expired (rt_expires_at row) now \<and>
     (\<exists>u. find (\<lambda>u. u_id u = rt_user_id row) (users t) = Some u \<and> u_status u = ''active'')"

definition is_replay :: "refresh_now_row \<Rightarrow> string \<Rightarrow> bool" where
  "is_replay row verifier \<longleftrightarrow>
     (\<exists>raw. raw_url_dec verifier = Some raw \<and> sha256 raw = rt_verifier_hash row) \<and>
     rt_revoked_at row = None \<and> (\<exists>t. rt_used_at row = Some t \<and> \<not> used_recently row t)"

lemma tx_read:
  assumes "tx_exec k st x w = (r, x', w')" and "read_only st"
  shows "tx_tabs x' = tx_tabs x" and "tx_now x' = tx_now x" and "w_tabs w' = w_tabs w"
    and "r = Inr a \<Longrightarrow> fst (st (tx_now x) (tx_tabs x)) = Inr a"
proof -
  note f = tx_exec_frame [OF assms(1)]
  then show "tx_now x' = tx_now x" "w_tabs w' = w_tabs w" by simp_all
  show "tx_tabs x' = tx_tabs x"
  proof (cases r)
    case (Inl e) with assms(1) show ?thesis using tx_exec_Inl by blast
  next
    case (Inr b)
    from tx_exec_Inr [OF assms(1) [unfolded Inr]]
    have "st (tx_now x) (tx_tabs x) = (Inr b, tx_tabs x')" by simp
    with assms(2) show ?thesis by (metis read_only_def snd_conv)
  qed
  show "fst (st (tx_now x) (tx_tabs x)) = Inr a" if "r = Inr a"
    using assms(1) tx_exec_Inr that by fastforce
qed

lemma get_user_by_id_Inr:
  "fst (get_user_by_id i now t) = Inr u \<Longrightarrow> find (\<lambda>u. u_id u = i) (users t) = Some u"
  by (auto simp: get_user_by_id_def one_row_def split: option.splits)

lemma rotate_row_outcome:
  assumes "rotate_row row verifier x w = (r, w')" and "tx_tabs x = w_tabs w"
  obtains (unchanged) "w_tabs w' = w_tabs w" and "r = Inr None \<or> (\<exists>e. r = Inl e)"
  | (replay) "is_replay row verifier" and "w_tabs w' = revoked (rt_token_family row) (tx_now x) (w_tabs w)"
      and "r = Inr None \<or> (\<exists>e. r = Inl e)"
  | (rotation) s where "may_rotate row verifier (w_app w) (w_tabs w)"
      and "rotated row (w_app w) (tx_now x) (w_tabs w) (w_tabs w') s"
      and "r = Inr (Some s) \<or> (\<exists>e. r = Inl e)"
proof -
  consider (rej) "w' = tx_rollback x w" "r = Inr None"
    | (rep) raw t where "raw_url_dec verifier = Some raw" "sha256 raw = rt_verifier_hash row"
        "rt_revoked_at row = None" "rt_used_at row = Some t" "\<not> used_recently row t"
        "revoke_family row x w = (r, w')"
    | (un) raw where "raw_url_dec verifier = Some raw" "sha256 raw = rt_verifier_hash row"
        "rt_revoked_at row = None" "rt_used_at row = None" "rotate_unused row (w_app w) x w = (r, w')"
    using assms(1) by (auto simp: rotate_row_def split: option.splits if_splits)
  then show thesis
  proof cases
    case rej then show thesis by (intro unchanged) simp_all
  next
    case rep
    with revoke_family_outcome [OF rep(6)] assms(2) show thesis
      by (auto simp: is_replay_def intro: unchanged replay)
  next
    case un
    obtain ru x1 w1 where g: "tx_exec (WSelect ''GetUserByID'') (get_user_by_id (rt_user_id row)) x w = (ru, x1, w1)"
      by (metis prod_cases3)
    note rd = tx_read [OF g read_only_queries(2)]
    consider "w' = tx_rollback x w" "r = Inr None"
      | "w' = tx_rollback x1 w1" "r = Inr None \<or> (\<exists>e. r = Inl e)"
      | u where "ru = Inr u" "u_status u = ''active''" "\<not> expired (rt_expires_at row) (w_app w)"
        "rotate_mint row (w_app w) x1 w1 = (r, w')"
      using un(5) g by (auto simp: rotate_unused_def user_status_active_def split: if_splits sum.splits)
    then show thesis
    proof cases
      case 3
      with un rd(4) [of u] assms(2) have "may_rotate row verifier (w_app w) (w_tabs w)"
        by (auto simp: may_rotate_def dest: get_user_by_id_Inr)
      with rotate_mint_outcome [OF 3(4)] rd assms(2) show thesis
        by (auto intro: unchanged rotation)
    qed (use rd in \<open>auto intro: unchanged\<close>)
  qed
qed

definition tx_start :: "world \<Rightarrow> time" where
  "tx_start w = w_db (snd (next_fault w))"

lemma tx_begin_start: "tx_begin w = (Inr x, w') \<Longrightarrow> tx_now x = tx_start w"
  by (auto simp: tx_begin_def tx_start_def Let_def split: prod.splits fault.splits)

lemma for_update_Inr:
  "fst (get_refresh_token_by_selector_for_update s now t) = Inr row \<Longrightarrow> locked_row s now t = Some row"
  by (auto simp: get_refresh_token_by_selector_for_update_def one_row_def locked_row_def split: option.splits)

lemma rotate_refresh_outcome:
  assumes "rotate_refresh selector verifier w = (r, w')"
  obtains (unchanged) "w_tabs w' = w_tabs w" and "r = Inr None \<or> (\<exists>e. r = Inl e)"
  | (replay) row where "locked_row selector (tx_start w) (w_tabs w) = Some row"
      and "is_replay row verifier" and "w_tabs w' = revoked (rt_token_family row) (tx_start w) (w_tabs w)"
      and "r = Inr None \<or> (\<exists>e. r = Inl e)"
  | (rotation) row now s where "locked_row selector (tx_start w) (w_tabs w) = Some row"
      and "may_rotate row verifier now (w_tabs w)"
      and "rotated row now (tx_start w) (w_tabs w) (w_tabs w') s" and "r = Inr (Some s) \<or> (\<exists>e. r = Inl e)"
proof (cases "tx_begin w")
  case b: (Pair rb w0)
  note f0 = tx_begin_frame [OF b]
  show thesis
  proof (cases rb)
    case (Inl e) with assms b f0 show thesis by (intro unchanged) (auto simp: rotate_refresh_def)
  next
    case (Inr x0)
    note x0 = tx_begin_Inr [OF b [unfolded Inr]] tx_begin_start [OF b [unfolded Inr]]
    obtain r1 x1 w1 where p: "tx_exec (WSelect ''GetRefreshTokenBySelector'')
        (get_refresh_token_by_selector selector) x0 w0 = (r1, x1, w1)" by (metis prod_cases3)
    note rd1 = tx_read [OF p read_only_queries(3)]
    obtain r2 x2 w2 where l: "tx_exec (WLock ''LockTokenFamily'')
        (lock_token_family (rt_token_family (projr r1))) x1 w1 = (r2, x2, w2)" by (metis prod_cases3)
    note rd2 = tx_read [OF l read_only_queries(5)]
    obtain r3 x3 w3 where q: "tx_exec (WSelect ''GetRefreshTokenBySelectorForUpdate'')
        (get_refresh_token_by_selector_for_update selector) x2 w2 = (r3, x3, w3)" by (metis prod_cases3)
    note rd3 = tx_read [OF q read_only_queries(4)]
    have same: "w_tabs w3 = w_tabs w" "w_tabs w2 = w_tabs w" "w_tabs w1 = w_tabs w" "tx_tabs x3 = w_tabs w3"
      "tx_now x3 = tx_start w"
      using f0 x0 rd1 rd2 rd3 by simp_all
    consider "w_tabs w' = w_tabs w" "r = Inr None \<or> (\<exists>e. r = Inl e)"
      | row where "r3 = Inr row" "rotate_row row verifier x3 w3 = (r, w')"
      using assms b p l q Inr same
      by (cases r1; cases r2; cases r3) (auto simp: rotate_refresh_def split: if_splits)
    then show thesis
    proof cases
      case 1 then show thesis by (rule unchanged)
    next
      case 2
      have row: "locked_row selector (tx_start w) (w_tabs w) = Some row"
        using for_update_Inr [OF rd3(4) [OF 2(1)]] same rd1 rd2 rd3 x0 by simp
      show thesis
        using 2(2) same(4)
        by (cases rule: rotate_row_outcome) (use row same in \<open>auto intro: unchanged replay rotation\<close>)
    qed
  qed
qed

section \<open>Dead tokens\<close>

text \<open>A selector is dead when the row it finds is used or revoked.\<close>

definition row_dead :: "refresh_row \<Rightarrow> bool" where
  "row_dead r \<longleftrightarrow> rt_used_at r \<noteq> None \<or> rt_revoked_at r \<noteq> None"

definition dead :: "string \<Rightarrow> tables \<Rightarrow> bool" where
  "dead selector t \<longleftrightarrow>
     (case find (\<lambda>r. rt_selector r = selector) (refresh_tokens t) of None \<Rightarrow> False | Some r \<Rightarrow> row_dead r)"

lemma dead_inserted: "dead s t \<Longrightarrow> session_inserted rows t t' \<Longrightarrow> dead s t'"
  by (auto simp: dead_def session_inserted_def Let_def find_append split: option.splits)

lemma dead_marked: "dead s t \<Longrightarrow> dead s (marked i now t)"
  by (auto simp: dead_def marked_def mark_refresh_token_used_def find_update_where row_dead_def split: option.splits)

lemma dead_revoked: "dead s t \<Longrightarrow> dead s (revoked f now t)"
  by (auto simp: dead_def revoked_def revoke_token_family_def find_update_where row_dead_def split: option.splits)

lemma dead_sessions: "dead s t \<Longrightarrow> same_sessions t t' \<Longrightarrow> dead s t'"
  by (simp add: dead_def same_sessions_def)

lemma locked_row_fields:
  "locked_row s now t = Some row \<Longrightarrow>
     \<exists>r. find (\<lambda>r. rt_selector r = s) (refresh_tokens t) = Some r \<and> rt_id row = rt_id r \<and>
       rt_user_id row = rt_user_id r \<and> rt_token_family row = rt_token_family r \<and>
       rt_verifier_hash row = rt_verifier_hash r \<and> rt_expires_at row = rt_expires_at r \<and>
       rt_revoked_at row = rt_revoked_at r \<and> rt_used_at row = rt_used_at r \<and> rt_selector row = s \<and>
       rt_db_now row = now"
  by (auto simp: locked_row_def refresh_row.defs dest: find_SomeD)

text \<open>A rotation kills the token it consumes, a replay every token of its family.\<close>

lemma rotated_dead:
  assumes "locked_row s t0 t = Some row" and "rotated row now t0 t t' ls"
  shows "dead s t'"
proof -
  obtain rows where "session_inserted rows (marked (rt_id row) t0 t) t'"
    using assms(2) by (auto simp: rotated_def)
  moreover have "dead s (marked (rt_id row) t0 t)"
    using locked_row_fields [OF assms(1)]
    by (auto simp: dead_def marked_def mark_refresh_token_used_def find_update_where row_dead_def split: option.splits)
  ultimately show ?thesis by (rule dead_inserted [rotated])
qed

lemma revoked_dead:
  "find (\<lambda>r. rt_selector r = s) (refresh_tokens t) = Some r \<Longrightarrow> rt_token_family r = f \<Longrightarrow> dead s (revoked f now t)"
  by (auto simp: dead_def revoked_def revoke_token_family_def find_update_where row_dead_def split: option.splits)

text \<open>A dead token is never rotated.\<close>

lemma dead_refused:
  assumes "dead selector (w_tabs w)" and "rotate_refresh selector verifier w = (r, w')"
  shows "r \<noteq> Inr (Some s)"
  using assms(2)
proof (cases rule: rotate_refresh_outcome)
  case (rotation row now s')
  with locked_row_fields [OF rotation(1)] assms(1) show ?thesis
    by (auto simp: dead_def row_dead_def may_rotate_def)
qed auto

lemma dead_rotate:
  assumes "dead s (w_tabs w)" and "rotate_refresh selector verifier w = (r, w')"
  shows "dead s (w_tabs w')"
  using assms(2)
proof (cases rule: rotate_refresh_outcome)
  case (rotation row now s')
  with assms(1) show ?thesis by (auto simp: rotated_def intro: dead_inserted dead_marked)
qed (use assms(1) in \<open>auto intro: dead_revoked\<close>)

section \<open>The handler, path by path\<close>

lemma refresh_cases:
  assumes "refresh rid b w = (rsp, w')"
  obtains (bad) "decode_refresh_request b = None" and "rsp = bad_request rid" and "w' = w"
  | (malformed) "rsp = unauthorized rid" and "w' = w"
  | (error) req selector verifier e w1 where "decode_refresh_request b = Some req"
      and "cut_on refresh_separator (rr_refresh_token req) = Some (selector, verifier)"
      and "rotate_refresh selector verifier w = (Inl e, w1)"
      and "rsp = internal_error rid" and "w' = log_internal_error ''refresh.rotate'' rid e w1"
  | (refused) req selector verifier where "decode_refresh_request b = Some req"
      and "cut_on refresh_separator (rr_refresh_token req) = Some (selector, verifier)"
      and "rotate_refresh selector verifier w = (Inr None, w')" and "rsp = unauthorized rid"
  | (ok) req selector verifier s where "decode_refresh_request b = Some req"
      and "cut_on refresh_separator (rr_refresh_token req) = Some (selector, verifier)"
      and "rotate_refresh selector verifier w = (Inr (Some s), w')" and "rsp = session_response s"
  using assms
  by (auto simp: refresh_def split: option.splits if_splits prod.splits sum.splits)

lemma log_tabs [simp]: "w_tabs (log_internal_error op rid e w) = w_tabs w"
  by (simp add: log_internal_error_def)

lemma dead_refresh: "dead s (w_tabs w) \<Longrightarrow> refresh rid b w = (rsp, w') \<Longrightarrow> dead s (w_tabs w')"
  by (erule refresh_cases) (auto dest: dead_rotate)

section \<open>When nothing fails\<close>

lemma quiet_read:
  assumes "w_script w = []" and "\<not> tx_failed x" and "st (tx_now x) (tx_tabs x) = (Inr a, tx_tabs x)"
  shows "tx_exec k st x w = (Inr a, x, emit k w)"
  using assms by (simp add: tx_exec_def next_fault_quiet)

lemma quiet_begin:
  "w_script w = [] \<Longrightarrow> tx_begin w = (Inr \<lparr>tx_now = w_db w, tx_tabs = w_tabs w, tx_failed = False\<rparr>, emit WBegin w)"
  by (simp add: tx_begin_def next_fault_quiet)

text \<open>Up to the locked row a quiet rotation only reads.\<close>

lemma quiet_rotate:
  assumes "w_script w = []" and "locked_row selector (w_db w) (w_tabs w) = Some row"
  obtains x v where "rotate_refresh selector verifier w = rotate_row row verifier x v"
    and "x = \<lparr>tx_now = w_db w, tx_tabs = w_tabs w, tx_failed = False\<rparr>"
    and "w_tabs v = w_tabs w" "w_script v = []" "w_rand v = w_rand w" "w_ids v = w_ids w" "w_app v = w_app w"
      "w_db v = w_db w"
proof -
  let ?x = "\<lparr>tx_now = w_db w, tx_tabs = w_tabs w, tx_failed = False\<rparr>"
  let ?v = "emit (WSelect ''GetRefreshTokenBySelectorForUpdate'') (emit (WLock ''LockTokenFamily'')
    (emit (WSelect ''GetRefreshTokenBySelector'') (emit WBegin w)))"
  obtain r where r: "find (\<lambda>r. rt_selector r = selector) (refresh_tokens (w_tabs w)) = Some r"
    and row: "row = refresh_row.extend r \<lparr>rt_db_now = w_db w\<rparr>"
    using assms(2) by (auto simp: locked_row_def)
  have "rotate_refresh selector verifier w = rotate_row row verifier ?x ?v"
    using assms(1) r row
    by (simp add: rotate_refresh_def quiet_begin quiet_read get_refresh_token_by_selector_def one_row_def
        lock_token_family_def get_refresh_token_by_selector_for_update_def)
  then show thesis by (rule that) (simp_all add: assms(1))
qed

lemma quiet_mint:
  assumes "w_script v = []" and "\<not> tx_failed x" and "w_ids v = j # i # ids"
    and "w_rand v = Some raw # Some sel # Some ver # rs"
    and "length raw = 32" "length sel = 16" "length ver = 16"
    and "\<forall>q \<in> set (access_tokens (tx_tabs x)). at_id q \<noteq> i \<and> at_token_hash q \<noteq> sha256 raw"
    and "\<forall>q \<in> set (refresh_tokens (tx_tabs x)). rt_id q \<noteq> j \<and> rt_selector q \<noteq> raw_url_enc sel"
    and "\<exists>u \<in> set (users (tx_tabs x)). u_id u = rt_user_id row"
  shows "fst (rotate_mint row now x v) = Inr (Some (session_of (rt_user_id row) (access_of raw) (refresh_of sel ver) now))"
proof -
  let ?t = "marked (rt_id row) (tx_now x) (tx_tabs x)"
  have m: "tx_exec (WUpdate ''MarkRefreshTokenUsed'') (mark_refresh_token_used (rt_id row)) x v =
      (Inr (), x\<lparr>tx_tabs := ?t\<rparr>, emit (WUpdate ''MarkRefreshTokenUsed'') v)"
    by (rule tx_exec_quiet) (simp_all add: assms marked_def mark_refresh_token_used_def)
  have fresh: "\<forall>q \<in> set (refresh_tokens ?t). rt_id q \<noteq> j \<and> rt_selector q \<noteq> raw_url_enc sel"
    "access_tokens ?t = access_tokens (tx_tabs x)" "users ?t = users (tx_tabs x)"
    using assms(9) by (auto simp: marked_def mark_refresh_token_used_def in_update_where split: if_splits)
  show ?thesis
    using assms m fresh
    by (simp add: rotate_mint_def mint_quiet q_insert_refresh_token_def q_insert_access_token_def next_id_def
        tx_exec_def next_fault_quiet insert_refresh_token_def insert_access_token_def Let_def tx_commit_def
        rotation_rows_def rows_for_def access_of_def refresh_of_def)
qed

lemma refresh_quiet:
  assumes "decode_refresh_request b = Some req"
    and "cut_on refresh_separator (rr_refresh_token req) = Some (selector, verifier)"
    and "selector \<noteq> []" "verifier \<noteq> []"
    and "w_script w = []" and "locked_row selector (w_db w) (w_tabs w) = Some row"
    and "may_rotate row verifier (w_app w) (w_tabs w)"
    and "w_ids w = j # i # ids" and "w_rand w = Some raw # Some sel # Some ver # rs"
    and "length raw = 32" "length sel = 16" "length ver = 16"
    and "\<forall>q \<in> set (access_tokens (w_tabs w)). at_id q \<noteq> i \<and> at_token_hash q \<noteq> sha256 raw"
    and "\<forall>q \<in> set (refresh_tokens (w_tabs w)). rt_id q \<noteq> j \<and> rt_selector q \<noteq> raw_url_enc sel"
  shows "fst (refresh rid b w) =
    session_response (session_of (rt_user_id row) (access_of raw) (refresh_of sel ver) (w_app w))"
proof -
  obtain x v where r: "rotate_refresh selector verifier w = rotate_row row verifier x v"
    and x: "x = \<lparr>tx_now = w_db w, tx_tabs = w_tabs w, tx_failed = False\<rparr>"
    and v: "w_tabs v = w_tabs w" "w_script v = []" "w_rand v = w_rand w" "w_ids v = w_ids w" "w_app v = w_app w"
    by (rule quiet_rotate [OF assms(5,6), of verifier])
  from assms(7) obtain rawv u where m: "raw_url_dec verifier = Some rawv" "sha256 rawv = rt_verifier_hash row"
    "rt_revoked_at row = None" "rt_used_at row = None" "\<not> expired (rt_expires_at row) (w_app w)"
    "find (\<lambda>u. u_id u = rt_user_id row) (users (w_tabs w)) = Some u" "u_status u = ''active''"
    by (auto simp: may_rotate_def)
  let ?v = "emit (WSelect ''GetUserByID'') v"
  have "tx_exec (WSelect ''GetUserByID'') (get_user_by_id (rt_user_id row)) x v = (Inr u, x, ?v)"
    by (rule quiet_read) (simp_all add: v x get_user_by_id_def one_row_def m)
  then have "rotate_row row verifier x v = rotate_mint row (w_app w) x ?v"
    using m v by (simp add: rotate_row_def rotate_unused_def user_status_active_def)
  moreover have "\<exists>u \<in> set (users (tx_tabs x)). u_id u = rt_user_id row"
    using find_SomeD [OF m(6)] x by auto
  then have "fst (rotate_mint row (w_app w) x ?v) =
      Inr (Some (session_of (rt_user_id row) (access_of raw) (refresh_of sel ver) (w_app w)))"
    by (intro quiet_mint [of _ _ j i ids]) (simp_all add: v x assms)
  ultimately show ?thesis
    using assms(1-4) r
    by (cases "rotate_mint row (w_app w) x ?v") (simp add: refresh_def)
qed

lemma replay_quiet:
  assumes "decode_refresh_request b = Some req"
    and "cut_on refresh_separator (rr_refresh_token req) = Some (selector, verifier)"
    and "selector \<noteq> []" "verifier \<noteq> []"
    and "w_script w = []" and "locked_row selector (w_db w) (w_tabs w) = Some row"
    and "is_replay row verifier"
  shows "fst (refresh rid b w) = unauthorized rid"
    and "w_tabs (snd (refresh rid b w)) = revoked (rt_token_family row) (w_db w) (w_tabs w)"
proof -
  obtain x v where r: "rotate_refresh selector verifier w = rotate_row row verifier x v"
    and x: "x = \<lparr>tx_now = w_db w, tx_tabs = w_tabs w, tx_failed = False\<rparr>" and v: "w_script v = []"
    by (rule quiet_rotate [OF assms(5,6), of verifier])
  have "rotate_row row verifier x v = revoke_family row x v"
    using assms(7) by (auto simp: is_replay_def rotate_row_def)
  also have "\<dots> = (Inr None, (emit WCommit (emit (WUpdate ''RevokeTokenFamily'') v))
      \<lparr>w_tabs := revoked (rt_token_family row) (w_db w) (w_tabs w)\<rparr>)"
    using x v by (simp add: revoke_family_def tx_exec_def next_fault_quiet revoke_token_family_def
        tx_commit_def revoked_def)
  finally show "fst (refresh rid b w) = unauthorized rid"
    "w_tabs (snd (refresh rid b w)) = revoked (rt_token_family row) (w_db w) (w_tabs w)"
    using r assms(1-4) by (simp_all add: refresh_def)
qed

end
