(* ===== verification/Bearer.thy ===== *)
theory Bearer
  imports Refresh
begin

text \<open>
  \<^verbatim>\<open>internal/modules/auth/middleware.go\<close>: the Bearer check in front of protected routes.
\<close>

definition bearer_prefix :: string where "bearer_prefix = ''Bearer ''"

text \<open>The user id a request carries after a successful check, \<^const>\<open>None\<close> if it is refused.  The
  argument is the value of the Authorization header, empty when there is none.\<close>

definition authenticate :: "string \<Rightarrow> world \<Rightarrow> string option \<times> world" where
  "authenticate authz w =
     (case cut_prefix bearer_prefix authz of
        None \<Rightarrow> (None, w)
      | Some token \<Rightarrow>
          if token = [] then (None, w)
          else (case raw_url_dec token of
              None \<Rightarrow> (None, w)
            | Some raw \<Rightarrow>
                (case exec_stmt (WSelect ''GetAccessToken'') (get_access_token (sha256 raw)) w of
                   (Inl _, w1) \<Rightarrow> (None, w1)
                 | (Inr a, w1) \<Rightarrow>
                     if at_revoked_at a \<noteq> None then (None, w1)
                     else if expired (at_expires_at a) (w_app w1) then (None, w1)
                     else (case exec_stmt (WSelect ''GetUserByID'') (get_user_by_id (at_user_id a)) w1 of
                         (Inl _, w2) \<Rightarrow> (None, w2)
                       | (Inr u, w2) \<Rightarrow>
                           if u_status u \<noteq> user_status_active then (None, w2)
                           else (Some (uuid_to_string (at_user_id a)), w2)))))"

text \<open>The middleware: the protected handler runs, with the user id, only after a successful check.\<close>

definition bearer_middleware ::
  "(string \<Rightarrow> world \<Rightarrow> response \<times> world) \<Rightarrow> string \<Rightarrow> string \<Rightarrow> world \<Rightarrow> response \<times> world" where
  "bearer_middleware next rid authz w =
     (case authenticate authz w of
        (None, w1) \<Rightarrow> (unauthorized rid, w1)
      | (Some uid, w1) \<Rightarrow> next uid w1)"

text \<open>\<^verbatim>\<open>UserIDFromContext\<close>: empty when the request did not pass the middleware.\<close>

definition user_id_from_context :: "string option \<Rightarrow> string" where
  "user_id_from_context c = (case c of None \<Rightarrow> [] | Some uid \<Rightarrow> uid)"

section \<open>What is admitted\<close>

text \<open>What the check demands of the tables at application time \<open>now\<close>.\<close>

definition admitted :: "string \<Rightarrow> string \<Rightarrow> time \<Rightarrow> tables \<Rightarrow> bool" where
  "admitted authz uid now t \<longleftrightarrow>
     (\<exists>token raw a u. authz = bearer_prefix @ token \<and> token \<noteq> [] \<and> raw_url_dec token = Some raw \<and>
        find (\<lambda>r. at_token_hash r = sha256 raw) (access_tokens t) = Some a \<and>
        at_revoked_at a = None \<and> \<not> expired (at_expires_at a) now \<and>
        find (\<lambda>u. u_id u = at_user_id a) (users t) = Some u \<and> u_status u = ''active'' \<and>
        uid = uuid_to_string (at_user_id a))"

lemma get_access_token_Inr:
  "get_access_token h now t = (Inr a, t') \<longleftrightarrow>
     find (\<lambda>r. at_token_hash r = h) (access_tokens t) = Some a \<and> t' = t"
  by (auto simp: get_access_token_def one_row_def split: option.splits)

lemma get_user_by_id_iff:
  "get_user_by_id i now t = (Inr u, t') \<longleftrightarrow> find (\<lambda>u. u_id u = i) (users t) = Some u \<and> t' = t"
  by (auto simp: get_user_by_id_def one_row_def split: option.splits)

lemma authenticate_tabs: "authenticate authz w = (r, w') \<Longrightarrow> w_tabs w' = w_tabs w"
  by (auto simp: authenticate_def split: option.splits if_splits prod.splits sum.splits
      dest!: exec_stmt_read_only [rotated])

lemma authenticate_admitted:
  assumes "authenticate authz w = (Some uid, w')"
  shows "\<exists>now. w_app w \<le> now \<and> admitted authz uid now (w_tabs w)"
proof -
  obtain token raw a w1 u where t: "cut_prefix bearer_prefix authz = Some token" "token \<noteq> []"
    "raw_url_dec token = Some raw"
    and s: "exec_stmt (WSelect ''GetAccessToken'') (get_access_token (sha256 raw)) w = (Inr a, w1)"
    and r: "at_revoked_at a = None" "\<not> expired (at_expires_at a) (w_app w1)"
    and g: "exec_stmt (WSelect ''GetUserByID'') (get_user_by_id (at_user_id a)) w1 = (Inr u, w')"
    and u: "u_status u = ''active''" "uid = uuid_to_string (at_user_id a)"
    using assms
    by (auto simp: authenticate_def user_status_active_def split: option.splits if_splits prod.splits sum.splits)
  obtain n1 where "get_access_token (sha256 raw) n1 (w_tabs w) = (Inr a, w_tabs w1)" "w_db w \<le> n1"
    "w_db w1 = n1" "w_db w1 - w_app w1 = w_db w - w_app w"
    by (rule exec_stmt_Inr [OF s])
  then have a: "find (\<lambda>r. at_token_hash r = sha256 raw) (access_tokens (w_tabs w)) = Some a"
    "w_tabs w1 = w_tabs w" "w_app w \<le> w_app w1"
    by (auto simp: get_access_token_Inr)
  obtain n2 where "get_user_by_id (at_user_id a) n2 (w_tabs w1) = (Inr u, w_tabs w')"
    by (rule exec_stmt_Inr [OF g])
  then have "find (\<lambda>u. u_id u = at_user_id a) (users (w_tabs w)) = Some u"
    by (simp add: get_user_by_id_iff a)
  with t a r u show ?thesis
    unfolding admitted_def cut_prefix_iff by blast
qed

lemma authenticate_quiet_iff:
  assumes "w_script w = []"
  shows "fst (authenticate authz w) = Some uid \<longleftrightarrow> admitted authz uid (w_app w) (w_tabs w)"
proof
  assume "fst (authenticate authz w) = Some uid"
  then show "admitted authz uid (w_app w) (w_tabs w)"
    using assms
    by (auto simp: authenticate_def admitted_def exec_stmt_def next_fault_quiet user_status_active_def
        get_access_token_Inr get_user_by_id_iff Let_def cut_prefix_iff
        split: option.splits if_splits prod.splits sum.splits)
next
  assume "admitted authz uid (w_app w) (w_tabs w)"
  then show "fst (authenticate authz w) = Some uid"
    using assms
    by (auto simp: admitted_def authenticate_def exec_stmt_def next_fault_quiet get_access_token_def
        get_user_by_id_def one_row_def user_status_active_def)
qed

end
