(* ===== verification/Fixture.thy ===== *)
theory Fixture
  imports Password Store
begin

text \<open>
  A small concrete deployment on which the witnesses evaluate the development: a stand-in for
  argon2id with the documented output length, two users, and quiet worlds.
\<close>

definition toy_kdf :: kdf where
  "toy_kdf pw salt t m p n = take n (pw @ replicate n (CHR 0x00))"

lemma toy_kdf_length [simp]: "kdf_length_ok toy_kdf"
  by (auto simp: kdf_length_ok_def toy_kdf_def min_def)

definition toy_salt :: bytes where "toy_salt = replicate 16 (CHR 0x01)"

definition toy_hash :: "string \<Rightarrow> string" where
  "toy_hash pw = encode_hash toy_kdf pw toy_salt current_params"

lemma toy_hash_decodes: "decode_hash (toy_hash pw) = Inr (current_params, toy_salt, toy_kdf pw toy_salt 2 19456 1 32)"
  unfolding toy_hash_def by (rule hash_decodes) (simp_all add: toy_salt_def current_params_def)

lemma toy_hash_parses [simp]: "parses (toy_hash pw)"
  by (simp add: parses_def toy_hash_decodes)

lemma toy_verify [simp]:
  "verify_hash toy_kdf pw (toy_hash pw') =
     Inr (take 32 (pw @ replicate 32 (CHR 0x00)) = take 32 (pw' @ replicate 32 (CHR 0x00)))"
  by (simp add: verify_hash_def toy_hash_decodes current_params_def toy_kdf_def)

definition alice_id :: uuid where "alice_id = replicate 16 (CHR ''a'')"
definition bob_id :: uuid where "bob_id = replicate 16 (CHR ''b'')"

lemma ids_distinct [simp]: "alice_id \<noteq> bob_id" "bob_id \<noteq> alice_id"
  by (simp_all add: alice_id_def bob_id_def)

definition alice :: user_row where
  "alice = \<lparr>u_id = alice_id, u_username = ''alice'', u_password_hash = toy_hash ''secret'',
            u_status = ''active'', u_failed_attempts = 0, u_locked_until = None,
            u_created_at = 0, u_updated_at = 0\<rparr>"

definition bob :: user_row where
  "bob = \<lparr>u_id = bob_id, u_username = ''bob'', u_password_hash = toy_hash ''hunter2'',
          u_status = ''active'', u_failed_attempts = 5, u_locked_until = Some 1000000,
          u_created_at = 0, u_updated_at = 0\<rparr>"

lemmas fixture_users = alice_def bob_def

definition toy_tables :: tables where
  "toy_tables = \<lparr>users = [alice, bob], refresh_tokens = [], access_tokens = [], events = []\<rparr>"

definition quiet_world :: "tables \<Rightarrow> time \<Rightarrow> world" where
  "quiet_world t now =
     \<lparr>w_tabs = t, w_db = now, w_app = now, w_script = [], w_rand = [],
      w_ids = [], w_trace = []\<rparr>"

lemma quiet_world_simps [simp]:
  "w_tabs (quiet_world t now) = t" "w_db (quiet_world t now) = now" "w_app (quiet_world t now) = now"
  "w_script (quiet_world t now) = []" "w_trace (quiet_world t now) = []"
  "w_rand (quiet_world t now) = []" "w_ids (quiet_world t now) = []"
  by (simp_all add: quiet_world_def)

end
