(* ===== verification/LoginSpec.thy ===== *)
theory LoginSpec
  imports Login Fixture
begin

text \<open>
  What \<^verbatim>\<open>POST /v1/auth/login\<close> promises, for every state of the database, every latency and every
  failure of a round trip.
\<close>

section \<open>Lemmas on the credential check of the deployment\<close>

lemma verify_credentials_Some:
  assumes "verify_credentials (new_handler pl kdf d ul) rid name pw w = (Inr (Some a), w')"
  obtains u now now' where "a = with_db_now u now" and "u \<in> set (users (w_tabs w))"
    and "pl (u_username u) = pl (to_lower ul name)" and "w_db w \<le> now" and "now \<le> now'"
    and "\<not> still_locked (u_locked_until u) now"
    and "verify_hash kdf (credential_plain pw) (u_password_hash u) = Inr True" and "u_status u = ''active''"
    and "w_tabs w' = cleared (u_id u) now' (w_tabs w)"
proof -
  obtain w1 where l: "db_user_by_username pl (to_lower ul name) w = (Inr a, w1)"
    and c: "check_user (new_handler pl kdf d ul) rid a (credential_plain pw) w1 = (Inr (Some a), w')"
    using assms
    by (auto simp: verify_credentials_def touch_and_reject_not_Some split: prod.splits sum.splits if_splits
        dest: check_user_accept(1))
  obtain u now where u: "u \<in> set (users (w_tabs w))" "pl (u_username u) = pl (to_lower ul name)"
    "a = with_db_now u now" "w_db w \<le> now" "w_tabs w1 = w_tabs w" "w_db w1 = now"
    by (rule db_lookup_Inr [OF l])
  note acc = check_user_accept [OF c]
  from acc(5) obtain ru where "db_reset_login_failures (u_id u) (emit WArgon2 w1) = (Inr ru, w')"
    using u by auto
  from db_reset_Inr [OF this] u obtain now' where "now \<le> now'" "w_tabs w' = cleared (u_id u) now' (w_tabs w)"
    by auto
  with u acc that show thesis by auto
qed

lemma cleared_sessions: "same_sessions t (cleared i now t)"
  by (simp add: cleared_def user_stmts_sessions)

text \<open>Every stored hash parses, as every hash the program writes does.\<close>

definition hashes_parse :: "tables \<Rightarrow> bool" where
  "hashes_parse t \<longleftrightarrow> (\<forall>u \<in> set (users t). parses (u_password_hash u))"

lemma found_parses:
  "db_user_by_username pl n w = (Inr u, w1) \<Longrightarrow> hashes_parse (w_tabs w) \<Longrightarrow> parses (u_password_hash u)"
  by (erule db_lookup_Inr) (simp add: hashes_parse_def)

lemma checked_work:
  assumes "parses d" and "hashes_parse (w_tabs w)"
    and "verify_credentials (new_handler pl kdf d ul) rid name pw w = (Inr x, w')"
  shows "argon2_runs w w' = 1 \<and> update_count w w' = 1"
proof -
  let ?h = "new_handler pl kdf d ul"
  have h: "h_store ?h = db_store pl" "parses (h_dummy_hash ?h)" using assms(1) by simp_all
  obtain k es where "did (WSelect k # es) w w'" and
    "check_work (\<exists>u w1. db_user_by_username pl (to_lower ul name) w = (Inr u, w1) \<and>
       \<not> still_locked (u_locked_until u) (u_db_now u) \<and> \<not> parses (u_password_hash u)) es"
    by (rule dbst.verify_credentials_work [OF h assms(3)]) auto
  moreover from this(2) have "check_work False es"
    using found_parses [OF _ assms(2), of pl "to_lower ul name"] by (auto simp: check_work_def split: if_splits)
  ultimately show ?thesis
    by (simp add: did_counts check_work_def is_argon2_def is_update_def)
qed

lemma login_quiet:
  assumes "decode_login_request b = Some req"
    and "find (\<lambda>u. pl (u_username u) = pl (to_lower ul (lr_username req))) (users (w_tabs w)) = Some u"
    and "\<not> still_locked (u_locked_until u) (w_db w)" and "u_status u = ''active''"
    and "verify_hash kdf (credential_plain (lr_password req)) (u_password_hash u) = Inr True"
    and "w_script w = []" and "w_ids w = i # j # ids"
    and "w_rand w = Some raw # Some sel # Some ver # Some fam # rs"
    and "length raw = 32" "length sel = 16" "length ver = 16" "length fam = 16"
    and "\<forall>q \<in> set (access_tokens (w_tabs w)). at_id q \<noteq> i \<and> at_token_hash q \<noteq> sha256 raw"
    and "\<forall>q \<in> set (refresh_tokens (w_tabs w)). rt_id q \<noteq> j \<and> rt_selector q \<noteq> raw_url_enc sel"
  shows "fst (login (new_handler pl kdf d ul) rid b w) =
      session_response (session_of (u_id u) (access_of raw) (refresh_of sel ver) (w_app w)) \<and>
    session_inserted (rows_for (u_id u) (access_of raw) (refresh_of sel ver) (v4_bits fam) (w_app w))
      (cleared (u_id u) (w_db w) (w_tabs w)) (w_tabs (snd (login (new_handler pl kdf d ul) rid b w)))"
proof -
  let ?h = "new_handler pl kdf d ul"
  let ?rows = "rows_for (u_id u) (access_of raw) (refresh_of sel ver) (v4_bits fam) (w_app w)"
  obtain w2 where v: "verify_credentials ?h rid (lr_username req) (lr_password req) w =
        (Inr (Some (with_db_now u (w_db w))), w2)"
    and w2: "w_tabs w2 = cleared (u_id u) (w_db w) (w_tabs w)" "w_script w2 = []" "w_ids w2 = w_ids w"
      "w_rand w2 = w_rand w" "w_app w2 = w_app w"
    by (rule login_verified_quiet [OF assms(6,2,3,4,5)])
  let ?w3 = "w2\<lparr>w_rand := rs\<rparr>"
  have "u \<in> set (users (w_tabs w))" using find_SomeD [OF assms(2)] by simp
  then have u: "\<exists>v \<in> set (users (cleared (u_id u) (w_db w) (w_tabs w))). u_id v = u_id u"
    by (auto simp: cleared_has_user)
  obtain w4 where p: "db_persist_session ?rows ?w3 = (Inr (), w4)" "session_inserted ?rows (w_tabs w2) (w_tabs w4)"
    by (rule persist_quiet [of ?w3 i j ids ?rows])
       (use assms w2 u in \<open>simp_all add: rows_for_def access_of_def refresh_of_def\<close>)
  have "issue_session ?h (u_id u) w2 =
      (Inr (session_of (u_id u) (access_of raw) (refresh_of sel ver) (w_app w)), w4)"
    using p assms(8-12) w2 by (simp add: issue_session_def mint_quiet)
  with v p assms(1) w2 show ?thesis by (simp add: login_def noop_rate_limiter_def)
qed

lemma login_tables:
  assumes "login (new_handler pl kdf d ul) rid b w = (rsp, w')"
  shows "(same_sessions (w_tabs w) (w_tabs w') \<and> rsp_status rsp \<noteq> 200) \<or>
    (\<exists>i app t s. same_sessions (w_tabs w) t \<and> issued i app t (w_tabs w') s \<and>
      (rsp = session_response s \<or> rsp = internal_error rid))"
proof -
  have vs: "same_sessions (w_tabs w) (w_tabs w2)"
    if "verify_credentials (new_handler pl kdf d ul) rid n pw w = (r, w2)" for n pw r w2
    by (rule dbst.verify_credentials_sessions [OF _ that]) simp
  from assms show ?thesis
  proof (cases rule: login_cases)
    case (lookup_error req e w2) with vs show ?thesis by (simp add: log_internal_error_def)
  next
    case (issue_error req u w2 e w3)
    with vs [OF issue_error(2)] issue_session_outcome [OF issue_error(3)] show ?thesis
      by (auto simp: log_internal_error_def)
  next
    case (ok req u w2 s)
    with vs [OF ok(2)] issue_session_outcome [OF ok(3)] show ?thesis by auto
  next
    case (denied req) with vs show ?thesis by simp
  qed (simp_all add: same_sessions_def)
qed

lemma login_accepted:
  assumes "login (new_handler pl kdf d ul) rid b w = (rsp, w')" and "rsp_status rsp = 200"
  shows "\<exists>req u now now' app s.
    decode_login_request b = Some req \<and> u \<in> set (users (w_tabs w)) \<and>
    pl (u_username u) = pl (to_lower ul (lr_username req)) \<and>
    w_db w \<le> now \<and> now \<le> now' \<and> \<not> still_locked (u_locked_until u) now \<and>
    verify_hash kdf (credential_plain (lr_password req)) (u_password_hash u) = Inr True \<and>
    u_status u = ''active'' \<and>
    issued (u_id u) app (cleared (u_id u) now' (w_tabs w)) (w_tabs w') s \<and>
    rsp = session_response s"
  using assms(1)
proof (cases rule: login_cases)
  case (ok req a w2 s)
  obtain u now now' where u: "a = with_db_now u now" "u \<in> set (users (w_tabs w))"
    "pl (u_username u) = pl (to_lower ul (lr_username req))" "w_db w \<le> now" "now \<le> now'"
    "\<not> still_locked (u_locked_until u) now"
    "verify_hash kdf (credential_plain (lr_password req)) (u_password_hash u) = Inr True"
    "u_status u = ''active''" "w_tabs w2 = cleared (u_id u) now' (w_tabs w)"
    by (rule verify_credentials_Some [OF ok(2)])
  from issue_session_outcome [OF ok(3)] u
  have "issued (u_id u) (w_app w2) (cleared (u_id u) now' (w_tabs w)) (w_tabs w') s" by auto
  with u ok(1,4) show ?thesis by blast
qed (use assms(2) in auto)

section \<open>A concrete login\<close>

definition toy_body :: body where
  \<open>toy_body = \<lparr>b_data = ''{"username":"Alice","password":"secret"}'', b_err = None\<rparr>\<close>

lemma toy_body_decodes:
  "decode_login_request toy_body = Some \<lparr>lr_username = ''Alice'', lr_password = Credential ''secret''\<rparr>"
  by code_simp
definition toy_handler :: handler where
  "toy_handler = new_handler (\<lambda>s. s) toy_kdf (toy_hash ''dummy'') (\<lambda>s. s)"

definition toy_world :: world where
  "toy_world = (quiet_world toy_tables 10)
     \<lparr>w_ids := [replicate 16 (CHR ''i''), replicate 16 (CHR ''j'')],
      w_rand := [Some (replicate 32 (CHR ''r'')), Some (replicate 16 (CHR ''s'')),
                 Some (replicate 16 (CHR ''v'')), Some (replicate 16 (CHR ''f''))]\<rparr>"

definition toy_bob_body :: body where
  \<open>toy_bob_body = \<lparr>b_data = ''{"password":"hunter2","username":"bob"}'', b_err = None\<rparr>\<close>

lemma toy_bob_body_decodes:
  "decode_login_request toy_bob_body = Some \<lparr>lr_username = ''bob'', lr_password = Credential ''hunter2''\<rparr>"
  by code_simp

definition toy_wrong_body :: body where
  \<open>toy_wrong_body = \<lparr>b_data = ''{"username":"alice","password":"guess"}'', b_err = None\<rparr>\<close>

lemma toy_wrong_body_decodes:
  "decode_login_request toy_wrong_body = Some \<lparr>lr_username = ''alice'', lr_password = Credential ''guess''\<rparr>"
  by code_simp

lemma toy_lower_bob: "to_lower (\<lambda>s. s) ''bob'' = ''bob''"
  and toy_lower_alice: "to_lower (\<lambda>s. s) ''alice'' = ''alice''"
  and toy_lower_carol: "to_lower (\<lambda>s. s) ''carol'' = ''carol''"
  by code_simp+

lemma bob_fields [simp]:
  "u_id bob = bob_id" "u_username bob = ''bob''" "u_locked_until bob = Some 1000000"
  by (simp_all add: bob_def)

lemma toy_lower: "to_lower (\<lambda>s. s) ''Alice'' = ''alice''"
  by code_simp

lemma toy_lookup: "find (\<lambda>u. u_username u = to_lower (\<lambda>s. s) ''Alice'') (users toy_tables) = Some alice"
  by (simp add: toy_lower toy_tables_def fixture_users)

lemma alice_fields [simp]:
  "u_id alice = alice_id" "u_status alice = ''active''" "u_locked_until alice = None"
  "u_password_hash alice = toy_hash ''secret''" "u_failed_attempts alice = 0"
  by (simp_all add: alice_def)

lemma toy_tables_fields [simp]:
  "users toy_tables = [alice, bob]" "access_tokens toy_tables = []" "refresh_tokens toy_tables = []"
  by (simp_all add: toy_tables_def)

lemma toy_world_fields [simp]: "w_tabs toy_world = toy_tables" "w_db toy_world = 10" "w_app toy_world = 10"
  "w_script toy_world = []" "w_trace toy_world = []"
  by (simp_all add: toy_world_def)

lemma toy_hashes_parse: "hashes_parse toy_tables"
  by (simp add: hashes_parse_def toy_tables_def fixture_users)

lemma alice_name [simp]: "u_username alice = ''alice''"
  by (simp add: alice_def)

lemma toy_locked: "fst (login toy_handler rid toy_bob_body toy_world) = unauthorized rid"
  unfolding toy_handler_def
  by (rule quiet_locked [OF toy_bob_body_decodes, of _ _ _ bob])
     (simp_all add: toy_lower_bob still_locked_def)

lemma toy_wrong:
  "login toy_handler rid toy_wrong_body toy_world =
    (unauthorized rid,
     toy_world\<lparr>w_tabs := toy_tables\<lparr>users := [failed_once 10 alice, bob]\<rparr>,
       w_trace := [WSelect ''GetUserByUsername'', WArgon2, WUpdate ''RecordLoginFailure'']\<rparr>)"
proof -
  have "alice \<noteq> bob" by (simp add: alice_def bob_def)
  moreover have "u_locked_until (failed_once 10 alice) = None"
    by (simp add: failed_once_def locked_next_def still_locked_def lockout_threshold_def)
  ultimately show ?thesis
    using quiet_wrong [OF toy_wrong_body_decodes, of toy_world "\<lambda>s. s" "\<lambda>s. s" alice toy_kdf "toy_hash ''dummy''" rid]
    by (simp add: toy_handler_def toy_lower_alice still_locked_def max_int4_def update_where_def)
qed

lemma toy_login:
  "fst (login toy_handler rid toy_body toy_world) =
     session_response (session_of alice_id (access_of (replicate 32 (CHR ''r'')))
       (refresh_of (replicate 16 (CHR ''s'')) (replicate 16 (CHR ''v''))) 10)"
  using login_quiet [of toy_body _ "\<lambda>s. s" "\<lambda>s. s" toy_world alice toy_kdf
      "replicate 16 (CHR ''i'')" "replicate 16 (CHR ''j'')" "[]" "replicate 32 (CHR ''r'')"
      "replicate 16 (CHR ''s'')" "replicate 16 (CHR ''v'')" "replicate 16 (CHR ''f'')" "[]"
      "toy_hash ''dummy''" rid, OF toy_body_decodes]
    toy_lookup
  by (simp add: toy_handler_def toy_world_def still_locked_def del: toy_tables_fields(1))

section \<open>The properties\<close>

text \<open>C1: a login is answered with a session only if the body decodes to a user name and a
  password, the database held a user of that name, not locked at a moment after the request came in
  and active, whose stored hash verifies the password; the failure counter and the lock of that user,
  and nothing else of any user, are then cleared, exactly one access and one refresh token row of
  that user are added, and the response carries that user's id and the new tokens.\<close>

theorem login_accepts:
  assumes "login (new_handler pl kdf d ul) rid b w = (rsp, w')" and "rsp_status rsp = 200"
  shows "\<exists>req u now now' app s.
    decode_login_request b = Some req \<and> u \<in> set (users (w_tabs w)) \<and>
    pl (u_username u) = pl (to_lower ul (lr_username req)) \<and>
    w_db w \<le> now \<and> now \<le> now' \<and> \<not> still_locked (u_locked_until u) now \<and>
    verify_hash kdf (credential_plain (lr_password req)) (u_password_hash u) = Inr True \<and>
    u_status u = ''active'' \<and>
    issued (u_id u) app (cleared (u_id u) now' (w_tabs w)) (w_tabs w') s \<and>
    rsp = session_response s"
  using assms by (rule login_accepted)

corollary login_accepts_witness:
  "\<exists>req u now now' app s.
    decode_login_request toy_body = Some req \<and> u \<in> set (users (w_tabs toy_world)) \<and>
    u_username u = to_lower (\<lambda>s. s) (lr_username req) \<and> 10 \<le> now \<and> now \<le> now' \<and>
    \<not> still_locked (u_locked_until u) now \<and>
    verify_hash toy_kdf (credential_plain (lr_password req)) (u_password_hash u) = Inr True \<and>
    issued (u_id u) app (cleared (u_id u) now' toy_tables)
      (w_tabs (snd (login toy_handler ''r1'' toy_body toy_world))) s"
  using login_accepts [of "\<lambda>s. s" toy_kdf "toy_hash ''dummy''" "\<lambda>s. s" "''r1''" toy_body toy_world,
      folded toy_handler_def, OF prod.collapse [symmetric]] toy_login [of "''r1''"]
  by (simp del: toy_tables_fields) blast

text \<open>Every path of the credential check that ends without a server error costs exactly one
  argon2 computation and exactly one \<^verbatim>\<open>UPDATE\<close>: a user that does not exist, one that is locked or
  disabled, a wrong and a right password.\<close>

theorem login_constant_work:
  assumes "parses d" and "hashes_parse (w_tabs w)"
    and "verify_credentials (new_handler pl kdf d ul) rid name pw w = (Inr x, w')"
  shows "argon2_runs w w' = 1 \<and> update_count w w' = 1"
  using assms by (rule checked_work)

corollary login_constant_work_witness:
  "\<exists>w'. argon2_runs toy_world w' = 1 \<and> update_count toy_world w' = 1 \<and> w' \<noteq> toy_world"
proof -
  have l: "find (\<lambda>u. (\<lambda>s. s) (u_username u) = (\<lambda>s. s) (to_lower (\<lambda>s. s) ''Alice'')) (users (w_tabs toy_world)) = Some alice"
    using toy_lookup by simp
  obtain w2 where "verify_credentials (new_handler (\<lambda>s. s) toy_kdf (toy_hash ''dummy'') (\<lambda>s. s)) []
      ''Alice'' (Credential ''secret'') toy_world = (Inr (Some (with_db_now alice (w_db toy_world))), w2)"
    using login_verified_quiet [OF _ l, of toy_kdf "Credential ''secret''" "toy_hash ''dummy''" "[]"]
    by (auto simp: still_locked_def)
  from login_constant_work [OF toy_hash_parses _ this] toy_hashes_parse
  have "argon2_runs toy_world w2 = 1 \<and> update_count toy_world w2 = 1" by simp
  moreover from this have "w2 \<noteq> toy_world" by (auto simp: argon2_runs_def)
  ultimately show ?thesis by blast
qed

text \<open>C12: two refused logins cannot be told apart, whatever the bodies and the reasons are, and on
  whatever two databases, as long as every stored password hash and the two dummy hashes decode: with the
  same request id the responses are equal byte for byte, and they have cost the same number of argon2
  computations and of \<^verbatim>\<open>UPDATE\<close> statements.  That the stored hashes decode is no restriction on a database
  that only this program writes (\<open>deployment_sound\<close> in theory Deployment), and the dummy hash is one the
  program computes at start-up; on an account whose hash an operator has broken a refusal costs no
  \<^verbatim>\<open>UPDATE\<close> (\<open>login_broken_hash\<close>).\<close>

theorem login_refusals_alike:
  assumes "parses d1" and "parses d2" and "hashes_parse (w_tabs w1)" and "hashes_parse (w_tabs w2)"
    and "login (new_handler pl1 kdf1 d1 ul1) rid b1 w1 = (rsp1, w1')" and "rsp_status rsp1 = 401"
    and "login (new_handler pl2 kdf2 d2 ul2) rid b2 w2 = (rsp2, w2')" and "rsp_status rsp2 = 401"
  shows "rsp1 = rsp2 \<and> argon2_runs w1 w1' = argon2_runs w2 w2' \<and> update_count w1 w1' = update_count w2 w2'"
proof -
  have refused: "rsp = unauthorized rid \<and> argon2_runs w w' = 1 \<and> update_count w w' = 1"
    if "parses d" "hashes_parse (w_tabs w)" "login (new_handler pl kdf d ul) rid b w = (rsp, w')"
      "rsp_status rsp = 401" for pl kdf d ul b w rsp w'
    using that(3) by (cases rule: login_cases) (use that checked_work in auto)
  show ?thesis using refused [OF assms(1,3,5,6)] refused [OF assms(2,4,7,8)] by simp
qed

corollary login_refusals_alike_witness:
  "fst (login toy_handler ''r'' toy_bob_body toy_world) = fst (login toy_handler ''r'' toy_wrong_body toy_world) \<and>
   argon2_runs toy_world (snd (login toy_handler ''r'' toy_bob_body toy_world)) =
     argon2_runs toy_world (snd (login toy_handler ''r'' toy_wrong_body toy_world))"
  using login_refusals_alike [of "toy_hash ''dummy''" "toy_hash ''dummy''" toy_world toy_world
      "\<lambda>s. s" toy_kdf "\<lambda>s. s" "''r''" toy_bob_body _ _ "\<lambda>s. s" toy_kdf "\<lambda>s. s" toy_wrong_body,
      folded toy_handler_def, OF _ _ _ _ prod.collapse [symmetric] _ prod.collapse [symmetric]]
    toy_locked [of "''r''"] toy_wrong [of "''r''"] toy_hashes_parse
  by (simp del: toy_tables_fields)

text \<open>C38: whatever fails on the way, a login never leaves half a session.  The token tables are
  as before, or have one access and one refresh row more, of the same user, and hold the digests of
  the tokens, not the tokens; and if the answer was not a session they changed only if the
  acknowledgement of the commit was lost.\<close>

theorem login_session_atomic:
  assumes "login (new_handler pl kdf d ul) rid b w = (rsp, w')"
  shows "(same_sessions (w_tabs w) (w_tabs w') \<and> rsp_status rsp \<noteq> 200) \<or>
    (\<exists>i app t s. same_sessions (w_tabs w) t \<and> issued i app t (w_tabs w') s \<and>
      (rsp = session_response s \<or> rsp = internal_error rid))"
  using assms by (rule login_tables)

corollary login_session_atomic_witness:
  "\<exists>i app t s. same_sessions toy_tables t \<and>
     issued i app t (w_tabs (snd (login toy_handler ''r1'' toy_body toy_world))) s"
  using login_session_atomic [of "\<lambda>s. s" toy_kdf "toy_hash ''dummy''" "\<lambda>s. s" "''r1''" toy_body toy_world,
      folded toy_handler_def, OF prod.collapse [symmetric]] toy_login [of "''r1''"]
  by (simp del: toy_tables_fields) blast

text \<open>An account whose lock has not run out when the lookup is answered cannot be logged into:
  whatever the password, the answer is the generic refusal (or the generic server error), no failure
  counter, lock, status or password hash of any user changes, no token is written, and no lockout is
  logged.\<close>

theorem login_locked:
  assumes "decode_login_request b = Some req"
    and "find (\<lambda>u. pl (u_username u) = pl (to_lower ul (lr_username req))) (users (w_tabs w)) = Some u"
    and "still_locked (u_locked_until u) (w_db (snd (next_fault w)))"
    and "login (new_handler pl kdf d ul) rid b w = (rsp, w')"
  shows "(rsp = unauthorized rid \<or> rsp = internal_error rid) \<and>
    lock_state (w_tabs w') = lock_state (w_tabs w) \<and> same_sessions (w_tabs w) (w_tabs w')"
proof -
  let ?h = "new_handler pl kdf d ul" and ?n = "to_lower ul (lr_username req)"
  have h: "h_store ?h = db_store pl" by simp
  obtain rl w1 where l: "db_user_by_username pl ?n w = (rl, w1)" by (cases "db_user_by_username pl ?n w")
  have rl: "rl = Inr (with_db_now u (w_db (snd (next_fault w)))) \<or> (\<exists>e. rl = Inl e)"
    using l assms(2)
    by (auto simp: db_user_by_username_def exec_stmt_def get_user_by_username_def one_row_def Let_def
        split: prod.splits fault.splits dest!: next_fault_D)
  obtain rv w2 where v: "verify_credentials ?h rid (lr_username req) (lr_password req) w = (rv, w2)"
    by (cases "verify_credentials ?h rid (lr_username req) (lr_password req) w")
  define x where "x = snd (dummy_verify kdf d (credential_plain (lr_password req)) w1)"
  have "(rv = Inl (projl rl) \<and> w2 = w1) \<or> (\<exists>i. touch_and_reject ?h i x = (rv, w2))"
    using v rl l assms(3) by (auto simp: verify_credentials_def check_user_def x_def split: if_splits)
  moreover have "w_tabs x = w_tabs w" by (simp add: x_def verify_run_frame db_lookup_frame [OF l])
  ultimately have vc: "(rv = Inr None \<or> (\<exists>e. rv = Inl e)) \<and> lock_state (w_tabs w2) = lock_state (w_tabs w) \<and>
      same_sessions (w_tabs w) (w_tabs w2)"
    using db_lookup_frame [OF l] dbst.touch_and_reject_spec [OF h, of _ x rv w2] by (metis same_sessions_refl)
  from assms(4) show ?thesis
    by (cases rule: login_cases) (use v vc assms(1) in \<open>auto simp: log_internal_error_def\<close>)
qed

corollary login_locked_witness:
  "fst (login toy_handler ''r'' toy_bob_body toy_world) = unauthorized ''r'' \<and>
   lock_state (w_tabs (snd (login toy_handler ''r'' toy_bob_body toy_world))) = lock_state toy_tables"
  using login_locked [OF toy_bob_body_decodes, of "\<lambda>s. s" "\<lambda>s. s" toy_world bob toy_kdf "toy_hash ''dummy''" "''r''",
      folded toy_handler_def, OF _ _ prod.collapse [symmetric]] toy_locked [of "''r''"]
  by (simp add: toy_lower_bob still_locked_def next_fault_quiet)

text \<open>C39: the right password always gets in: with no failure and fresh random values, an active user
  that is not locked and gives its password is answered with a session of its own, made of exactly
  the random bytes drawn; its failure counter and lock are cleared and the two rows are stored.\<close>

theorem login_succeeds:
  assumes "decode_login_request b = Some req"
    and "find (\<lambda>u. pl (u_username u) = pl (to_lower ul (lr_username req))) (users (w_tabs w)) = Some u"
    and "\<not> still_locked (u_locked_until u) (w_db w)" and "u_status u = ''active''"
    and "verify_hash kdf (credential_plain (lr_password req)) (u_password_hash u) = Inr True"
    and "w_script w = []" and "w_ids w = i # j # ids"
    and "w_rand w = Some raw # Some sel # Some ver # Some fam # rs"
    and "length raw = 32" "length sel = 16" "length ver = 16" "length fam = 16"
    and "\<forall>q \<in> set (access_tokens (w_tabs w)). at_id q \<noteq> i \<and> at_token_hash q \<noteq> sha256 raw"
    and "\<forall>q \<in> set (refresh_tokens (w_tabs w)). rt_id q \<noteq> j \<and> rt_selector q \<noteq> raw_url_enc sel"
  shows "fst (login (new_handler pl kdf d ul) rid b w) =
      session_response (session_of (u_id u) (access_of raw) (refresh_of sel ver) (w_app w)) \<and>
    session_inserted (rows_for (u_id u) (access_of raw) (refresh_of sel ver) (v4_bits fam) (w_app w))
      (cleared (u_id u) (w_db w) (w_tabs w)) (w_tabs (snd (login (new_handler pl kdf d ul) rid b w)))"
  using assms by (rule login_quiet)

corollary login_succeeds_witness:
  "rsp_status (fst (login toy_handler ''r'' toy_body toy_world)) = 200"
  using login_succeeds [of toy_body _ "\<lambda>s. s" "\<lambda>s. s" toy_world alice toy_kdf
      "replicate 16 (CHR ''i'')" "replicate 16 (CHR ''j'')" "[]" "replicate 32 (CHR ''r'')"
      "replicate 16 (CHR ''s'')" "replicate 16 (CHR ''v'')" "replicate 16 (CHR ''f'')" "[]"
      "toy_hash ''dummy''" "''r''", OF toy_body_decodes] toy_lookup
  by (simp add: toy_handler_def toy_world_def still_locked_def del: toy_tables_fields(1))

text \<open>A wrong password of an active user that is not locked costs that user one failure and
  nothing else: no other row changes, and the lockout is logged exactly when the failure locks the
  account.\<close>

theorem login_wrong_password:
  assumes "decode_login_request b = Some req" and "w_script w = []"
    and "find (\<lambda>u. pl (u_username u) = pl (to_lower ul (lr_username req))) (users (w_tabs w)) = Some u"
    and "distinct (map u_id (users (w_tabs w)))"
    and "\<not> still_locked (u_locked_until u) (w_db w)" and "u_status u = ''active''"
    and "verify_hash kdf (credential_plain (lr_password req)) (u_password_hash u) = Inr False"
    and "u_failed_attempts u < max_int4"
  shows "login (new_handler pl kdf d ul) rid b w =
    (unauthorized rid,
     w\<lparr>w_tabs := (w_tabs w)\<lparr>users := update_where (\<lambda>v. v = u) (\<lambda>_. failed_once (w_db w) u) (users (w_tabs w))\<rparr>,
       w_trace := w_trace w @ [WSelect ''GetUserByUsername'', WArgon2, WUpdate ''RecordLoginFailure'']
         @ (if u_locked_until (failed_once (w_db w) u) = None then []
            else [LogAccountLocked rid (uuid_to_string (u_id u))])\<rparr>)"
  using assms by (rule quiet_wrong)

corollary login_wrong_password_witness:
  "u_failed_attempts (hd (users (w_tabs (snd (login toy_handler ''r'' toy_wrong_body toy_world))))) = 1"
  using login_wrong_password [OF toy_wrong_body_decodes, of toy_world "\<lambda>s. s" "\<lambda>s. s" alice toy_kdf
      "toy_hash ''dummy''" "''r''"]
  by (simp add: toy_handler_def toy_lower_alice still_locked_def max_int4_def update_where_def
      failed_once_def failed_next_def)

text \<open>The exception to the constant work.  An account whose stored hash does not parse is refused
  after one argon2 computation but without any \<^verbatim>\<open>UPDATE\<close>.\<close>

theorem login_broken_hash:
  assumes "w_script w = []" and "parses d"
    and "find (\<lambda>u. pl (u_username u) = pl (to_lower ul n)) (users (w_tabs w)) = Some u"
    and "\<not> still_locked (u_locked_until u) (w_db w)" and "\<not> parses (u_password_hash u)"
  shows "\<exists>w'. verify_credentials (new_handler pl kdf d ul) rid n pw w = (Inr None, w') \<and>
    argon2_runs w w' = 1 \<and> update_count w w' = 0 \<and> w_tabs w' = w_tabs w"
  using quiet_broken [OF assms]
  by (simp add: argon2_runs_def update_count_def is_argon2_def is_update_def)

corollary login_broken_hash_witness:
  "\<exists>w w'. verify_credentials toy_handler [] ''carol'' (Credential ''x'') w = (Inr None, w') \<and>
     update_count w w' = 0"
proof -
  have "\<not> parses []" by (simp add: parses_def decode_hash_def)
  with login_broken_hash [of "quiet_world \<lparr>users = [alice\<lparr>u_username := ''carol'', u_password_hash := []\<rparr>],
        refresh_tokens = [], access_tokens = [], events = []\<rparr> 0"
      "toy_hash ''dummy''" "\<lambda>s. s" "\<lambda>s. s" "''carol''" "alice\<lparr>u_username := ''carol'', u_password_hash := []\<rparr>"
      toy_kdf "[]" "Credential ''x''"]
  show ?thesis unfolding toy_handler_def by (simp add: still_locked_def toy_lower_carol) blast
qed

text \<open>A login request is exactly one JSON object.  A body that is accepted fits the limit, ends
  where the stream ends, and consists of one object, white space around it, whose members are all named
  user name or password and whose last values for both are not empty.\<close>

theorem login_body_strict:
  assumes "decode_login_request b = Some req"
  shows "length (b_data b) \<le> 4096 \<and> b_err b = None \<and>
    (\<exists>ms rest f. json_parse (b_data b) = Some (JObj ms, rest) \<and> list_all json_ws rest \<and>
      (\<forall>(k, v) \<in> set ms. find_field [''username'', ''password''] k \<noteq> None) \<and>
      decode_fields [''username'', ''password''] ms (\<lambda>_. []) = Some f \<and>
      f ''username'' \<noteq> [] \<and> f ''password'' \<noteq> [] \<and>
      req = \<lparr>lr_username = f ''username'', lr_password = Credential (f ''password'')\<rparr>)"
proof -
  let ?b = "max_bytes_reader max_login_body_bytes b"
  obtain v rest f where d: "decode_value ?b = Some (v, rest)"
    "decode_struct [''username'', ''password''] v = Some f" "decode_eof rest (b_err ?b)"
    "f ''username'' \<noteq> []" "f ''password'' \<noteq> []"
    "req = \<lparr>lr_username = f ''username'', lr_password = Credential (f ''password'')\<rparr>"
    using assms by (auto simp: decode_login_request_def Let_def split: option.splits if_splits)
  have small: "length (b_data b) \<le> 4096" and b: "?b = b"
    using d(3) by (auto simp: decode_eof_def max_bytes_reader_def max_login_body_bytes_def split: if_splits)
  obtain ms where ms: "v = JObj ms" "decode_fields [''username'', ''password''] ms (\<lambda>_. []) = Some f"
    using d(2,4) by (auto simp: decode_struct_def split: json.splits)
  have "list_all json_ws rest"
    using d(3) by (auto simp: decode_eof_def skip_ws_def list_all_iff dropWhile_eq_Nil_conv)
  moreover have "json_parse (b_data b) = Some (JObj ms, rest)"
    using d(1) b ms by (auto simp: decode_value_def split: option.splits if_splits prod.splits)
  moreover have "\<forall>(k, v) \<in> set ms. find_field [''username'', ''password''] k \<noteq> None"
    using ms(2) by (rule decode_fields_known)
  ultimately show ?thesis using d small ms b by (auto simp: decode_eof_def)
qed

corollary login_body_strict_witness:
  "length (b_data toy_body) \<le> 4096 \<and> (\<exists>ms. json_parse (b_data toy_body) = Some (JObj ms, []))"
proof -
  obtain ms rest where "length (b_data toy_body) \<le> 4096" "json_parse (b_data toy_body) = Some (JObj ms, rest)"
    using login_body_strict [OF toy_body_decodes] by auto
  moreover have "map_option snd (json_parse (b_data toy_body)) = Some []" by code_simp
  ultimately show ?thesis by auto
qed

end
