(* ===== verification/RefreshSpec.thy ===== *)
theory RefreshSpec
  imports Refresh LoginSpec
begin

text \<open>
  What \<^verbatim>\<open>POST /v1/auth/refresh\<close> promises, for every state of the database, every latency and every
  failure of a round trip, one request at a time.
\<close>

section \<open>What a refresh does to the tables\<close>

lemma refresh_tables:
  assumes "refresh rid b w = (rsp, w')"
  shows "(w_tabs w' = w_tabs w \<and> rsp_status rsp \<noteq> 200) \<or>
    (\<exists>row verifier. is_replay row verifier \<and> rsp_status rsp \<noteq> 200 \<and>
       w_tabs w' = revoked (rt_token_family row) (tx_start w) (w_tabs w)) \<or>
    (\<exists>row now s. rotated row now (tx_start w) (w_tabs w) (w_tabs w') s \<and>
       (rsp = session_response s \<or> rsp = internal_error rid))"
  using assms
proof (cases rule: refresh_cases)
  case (error req selector verifier e w1)
  show ?thesis using error(3) by (cases rule: rotate_refresh_outcome) (use error in auto)
next
  case (refused req selector verifier)
  show ?thesis using refused(3) by (cases rule: rotate_refresh_outcome) (use refused in auto)
next
  case (ok req selector verifier s)
  show ?thesis using ok(3) by (cases rule: rotate_refresh_outcome) (use ok in auto)
qed simp_all

section \<open>A concrete refresh\<close>

definition toy_refresh_body :: body where
  \<open>toy_refresh_body =
     \<lparr>b_data = ''{"refreshToken":"c3Nzc3Nzc3Nzc3Nzc3Nzcw.dnZ2dnZ2dnZ2dnZ2dnZ2dg"}'', b_err = None\<rparr>\<close>

definition toy_selector :: string where "toy_selector = ''c3Nzc3Nzc3Nzc3Nzc3Nzcw''"
definition toy_verifier :: string where "toy_verifier = ''dnZ2dnZ2dnZ2dnZ2dnZ2dg''"

lemma toy_refresh_decodes:
  "decode_refresh_request toy_refresh_body = Some \<lparr>rr_refresh_token = toy_selector @ CHR ''.'' # toy_verifier\<rparr>"
  by code_simp

lemma toy_verifier_decodes: "raw_url_dec toy_verifier = Some (replicate 16 (CHR ''v''))"
  by code_simp

lemma toy_cut:
  "cut_on refresh_separator (rr_refresh_token \<lparr>rr_refresh_token = toy_selector @ CHR ''.'' # toy_verifier\<rparr>) =
     Some (toy_selector, toy_verifier)"
  by code_simp

lemma toy_parts [simp]: "toy_selector \<noteq> []" "toy_verifier \<noteq> []"
  by (simp_all add: toy_selector_def toy_verifier_def)

text \<open>Alice's token, used at a time or not, and a world that holds it.\<close>

definition toy_refresh_row :: "time option \<Rightarrow> refresh_row" where
  "toy_refresh_row u = \<lparr>rt_id = replicate 16 (CHR ''t''), rt_user_id = alice_id, rt_selector = toy_selector,
     rt_verifier_hash = sha256 (replicate 16 (CHR ''v'')), rt_token_family = replicate 16 (CHR ''f''),
     rt_expires_at = Some 1000000000000000, rt_revoked_at = None, rt_used_at = u, rt_created_at = 0\<rparr>"

definition toy_refresh_world :: "time option \<Rightarrow> time \<Rightarrow> world" where
  "toy_refresh_world u now = (quiet_world (toy_tables\<lparr>refresh_tokens := [toy_refresh_row u]\<rparr>) now)
     \<lparr>w_ids := [replicate 16 (CHR ''i''), replicate 16 (CHR ''j'')],
      w_rand := [Some (replicate 32 (CHR ''r'')), Some (replicate 16 (CHR ''S'')),
                 Some (replicate 16 (CHR ''V''))]\<rparr>"

definition toy_locked_row :: "time option \<Rightarrow> time \<Rightarrow> refresh_now_row" where
  "toy_locked_row u now = refresh_row.extend (toy_refresh_row u) \<lparr>rt_db_now = now\<rparr>"

lemma toy_refresh_world_simps [simp]:
  "w_tabs (toy_refresh_world u now) = toy_tables\<lparr>refresh_tokens := [toy_refresh_row u]\<rparr>"
  "w_db (toy_refresh_world u now) = now" "w_app (toy_refresh_world u now) = now"
  "w_script (toy_refresh_world u now) = []"
  "w_ids (toy_refresh_world u now) = [replicate 16 (CHR ''i''), replicate 16 (CHR ''j'')]"
  "w_rand (toy_refresh_world u now) = [Some (replicate 32 (CHR ''r'')), Some (replicate 16 (CHR ''S'')),
     Some (replicate 16 (CHR ''V''))]"
  by (simp_all add: toy_refresh_world_def)

lemma toy_refresh_row_simps [simp]:
  "rt_id (toy_refresh_row u) = replicate 16 (CHR ''t'')" "rt_selector (toy_refresh_row u) = toy_selector"
  "rt_token_family (toy_refresh_row u) = replicate 16 (CHR ''f'')"
  by (simp_all add: toy_refresh_row_def)

lemma toy_ids_fresh [simp]: "replicate 16 (CHR ''t'') \<noteq> replicate 16 (CHR ''i'')"
  by (simp add: replicate_eq_replicate)

lemma toy_locked_row_find [simp]:
  "locked_row toy_selector now (toy_tables\<lparr>refresh_tokens := [toy_refresh_row u]\<rparr>) = Some (toy_locked_row u now)"
  by (simp add: locked_row_def toy_locked_row_def toy_refresh_row_def)

lemma toy_locked_row_simps [simp]:
  "rt_used_at (toy_locked_row u now) = u" "rt_user_id (toy_locked_row u now) = alice_id"
  "rt_revoked_at (toy_locked_row u now) = None" "rt_expires_at (toy_locked_row u now) = Some 1000000000000000"
  "rt_verifier_hash (toy_locked_row u now) = sha256 (replicate 16 (CHR ''v''))"
  "rt_db_now (toy_locked_row u now) = now" "rt_token_family (toy_locked_row u now) = replicate 16 (CHR ''f'')"
  by (simp_all add: toy_locked_row_def toy_refresh_row_def refresh_row.defs)

lemma toy_start [simp]: "tx_start (toy_refresh_world u now) = now"
  by (simp add: tx_start_def next_fault_quiet)

lemma toy_selector_fresh: "raw_url_enc (replicate 16 (CHR ''S'')) \<noteq> toy_selector"
  by code_simp

lemma toy_refresh:
  "fst (refresh rid toy_refresh_body (toy_refresh_world None 10)) =
     session_response (session_of alice_id (access_of (replicate 32 (CHR ''r'')))
       (refresh_of (replicate 16 (CHR ''S'')) (replicate 16 (CHR ''V''))) 10)"
proof -
  have "may_rotate (toy_locked_row None 10) toy_verifier 10 (w_tabs (toy_refresh_world None 10))"
    by (simp add: may_rotate_def toy_verifier_decodes expired_def)
  then show ?thesis
    using refresh_quiet [OF toy_refresh_decodes toy_cut, of "toy_refresh_world None 10" "toy_locked_row None 10"
        "replicate 16 (CHR ''i'')" "replicate 16 (CHR ''j'')" "[]" "replicate 32 (CHR ''r'')"
        "replicate 16 (CHR ''S'')" "replicate 16 (CHR ''V'')" "[]" rid] toy_selector_fresh
    by (auto)
qed

section \<open>The properties\<close>

text \<open>C18: a refresh is answered with a session only if the presented token splits into a selector
  and a verifier, the selector's row holds the digest of the verifier, is neither revoked nor used
  nor expired, and belongs to an active user.  The old row is then marked used, exactly one new refresh
  row of the same user and the same family and one access row are added, and the response carries
  the new tokens.\<close>

theorem refresh_rotates:
  assumes "refresh rid b w = (rsp, w')" and "rsp_status rsp = 200"
  shows "\<exists>req selector verifier row now s.
    decode_refresh_request b = Some req \<and>
    cut_on refresh_separator (rr_refresh_token req) = Some (selector, verifier) \<and>
    locked_row selector (tx_start w) (w_tabs w) = Some row \<and>
    may_rotate row verifier now (w_tabs w) \<and>
    rotated row now (tx_start w) (w_tabs w) (w_tabs w') s \<and> rsp = session_response s"
  using assms(1)
proof (cases rule: refresh_cases)
  case (ok req selector verifier s)
  show ?thesis
    using ok(3) by (cases rule: rotate_refresh_outcome) (use ok(1,2,4) in auto)
qed (use assms(2) in auto)

corollary refresh_rotates_witness:
  "\<exists>row now s. locked_row toy_selector 10 (w_tabs (toy_refresh_world None 10)) = Some row \<and>
    may_rotate row toy_verifier now (w_tabs (toy_refresh_world None 10)) \<and>
    rotated row now 10 (w_tabs (toy_refresh_world None 10))
      (w_tabs (snd (refresh ''r'' toy_refresh_body (toy_refresh_world None 10)))) s"
proof -
  obtain rsp w' where r: "refresh ''r'' toy_refresh_body (toy_refresh_world None 10) = (rsp, w')"
    by (cases "refresh ''r'' toy_refresh_body (toy_refresh_world None 10)")
  then have "rsp_status rsp = 200" using toy_refresh [of "''r''"] by simp
  from refresh_rotates [OF r this] show ?thesis
    using toy_cut by (auto simp: toy_refresh_decodes r)
qed

text \<open>With no failure, the owner of an unused, unexpired token of an active user gets a new session
  made of exactly the random bytes drawn.\<close>

theorem refresh_succeeds:
  assumes "decode_refresh_request b = Some req"
    and "cut_on refresh_separator (rr_refresh_token req) = Some (selector, verifier)"
    and "selector \<noteq> []" "verifier \<noteq> []"
    and "w_script w = []" and "locked_row selector (w_db w) (w_tabs w) = Some row"
    and "may_rotate row verifier (w_app w) (w_tabs w)"
    and "w_ids w = j # i # ids" and "w_rand w = Some raw # Some sel # Some ver # rs"
    and "length raw = 32" "length sel = 16" "length ver = 16"
    and "\<forall>q \<in> set (access_tokens (w_tabs w)). at_id q \<noteq> i \<and> at_token_hash q \<noteq> sha256 raw"
    and "\<forall>q \<in> set (refresh_tokens (w_tabs w)). rt_id q \<noteq> j \<and> rt_selector q \<noteq> raw_url_enc sel"
  shows "fst (refresh rid b w) =
    session_response (session_of (rt_user_id row) (access_of raw) (refresh_of sel ver) (w_app w))"
  using assms by (rule refresh_quiet)

corollary refresh_succeeds_witness:
  "rsp_status (fst (refresh ''r'' toy_refresh_body (toy_refresh_world None 10))) = 200"
proof -
  have "may_rotate (toy_locked_row None 10) toy_verifier 10 (w_tabs (toy_refresh_world None 10))"
    by (simp add: may_rotate_def toy_verifier_decodes expired_def)
  then show ?thesis
    using refresh_succeeds [OF toy_refresh_decodes toy_cut, of "toy_refresh_world None 10" "toy_locked_row None 10"
        "replicate 16 (CHR ''i'')" "replicate 16 (CHR ''j'')" "[]" "replicate 32 (CHR ''r'')"
        "replicate 16 (CHR ''S'')" "replicate 16 (CHR ''V'')" "[]" "''r''"] toy_selector_fresh
    by (auto)
qed


lemma revoked_all:
  assumes "q \<in> set (refresh_tokens (revoked f t0 t))" and "rt_token_family q = f"
  shows "rt_revoked_at q \<noteq> None"
proof -
  obtain r where q: "q = (if rt_token_family r = f \<and> rt_revoked_at r = None then r\<lparr>rt_revoked_at := Some t0\<rparr> else r)"
    using assms(1) by (auto simp: revoked_def revoke_token_family_def in_update_where)
  show ?thesis using assms(2) unfolding q by (cases "rt_token_family r = f \<and> rt_revoked_at r = None") auto
qed

lemma revoked_rest:
  "filter (\<lambda>q. rt_token_family q \<noteq> f) (refresh_tokens (revoked f t0 t)) =
     filter (\<lambda>q. rt_token_family q \<noteq> f) (refresh_tokens t)"
  "length (refresh_tokens (revoked f t0 t)) = length (refresh_tokens t)"
  "access_tokens (revoked f t0 t) = access_tokens t"
  unfolding revoked_def revoke_token_family_def by (simp_all, rule filter_update_where, simp)

text \<open>Replay detection.  A token that verifies, is not revoked, and was used longer ago than the
  leeway kills its whole family, even when it has also expired: the answer is the generic refusal,
  afterwards every refresh token of the family is revoked, no other family is touched, and no row is
  added.\<close>

theorem refresh_replay_revokes:
  assumes "decode_refresh_request b = Some req"
    and "cut_on refresh_separator (rr_refresh_token req) = Some (selector, verifier)"
    and "selector \<noteq> []" "verifier \<noteq> []"
    and "w_script w = []" and "locked_row selector (w_db w) (w_tabs w) = Some row"
    and "is_replay row verifier"
  shows "fst (refresh rid b w) = unauthorized rid \<and>
    (\<forall>q \<in> set (refresh_tokens (w_tabs (snd (refresh rid b w)))).
       rt_token_family q = rt_token_family row \<longrightarrow> rt_revoked_at q \<noteq> None) \<and>
    filter (\<lambda>q. rt_token_family q \<noteq> rt_token_family row) (refresh_tokens (w_tabs (snd (refresh rid b w)))) =
      filter (\<lambda>q. rt_token_family q \<noteq> rt_token_family row) (refresh_tokens (w_tabs w)) \<and>
    length (refresh_tokens (w_tabs (snd (refresh rid b w)))) = length (refresh_tokens (w_tabs w)) \<and>
    access_tokens (w_tabs (snd (refresh rid b w))) = access_tokens (w_tabs w)"
proof -
  show ?thesis
    unfolding replay_quiet [OF assms] by (auto simp: revoked_rest dest: revoked_all)
qed

corollary refresh_replay_revokes_witness:
  "fst (refresh ''r'' toy_refresh_body (toy_refresh_world (Some 0) 31000000000)) = unauthorized ''r'' \<and>
   rt_revoked_at (hd (refresh_tokens (w_tabs (snd (refresh ''r'' toy_refresh_body
     (toy_refresh_world (Some 0) 31000000000)))))) \<noteq> None"
proof -
  let ?w = "toy_refresh_world (Some 0) 31000000000"
  have "is_replay (toy_locked_row (Some 0) 31000000000) toy_verifier"
    by (simp add: is_replay_def toy_verifier_decodes used_recently_def refresh_reuse_leeway_def duration_defs
        time_sub_def)
  from refresh_replay_revokes [OF toy_refresh_decodes toy_cut _ _ _ _ this, of ?w "''r''"]
  have r: "fst (refresh ''r'' toy_refresh_body ?w) = unauthorized ''r''"
    "\<forall>q \<in> set (refresh_tokens (w_tabs (snd (refresh ''r'' toy_refresh_body ?w)))).
       rt_token_family q = replicate 16 (CHR ''f'') \<longrightarrow> rt_revoked_at q \<noteq> None"
    "filter (\<lambda>q. rt_token_family q \<noteq> replicate 16 (CHR ''f''))
       (refresh_tokens (w_tabs (snd (refresh ''r'' toy_refresh_body ?w)))) = []"
    "length (refresh_tokens (w_tabs (snd (refresh ''r'' toy_refresh_body ?w)))) = 1"
    by simp_all
  then show ?thesis
    by (cases "refresh_tokens (w_tabs (snd (refresh ''r'' toy_refresh_body ?w)))")
       (auto split: if_splits)
qed

text \<open>The honest double refresh.  A token used at most the leeway before the transaction began, as
  the database clock has it, never yields a second session and never costs the owner the family:
  whatever fails, the tables are as before.\<close>

theorem refresh_race_keeps_family:
  assumes "decode_refresh_request b = Some req"
    and "cut_on refresh_separator (rr_refresh_token req) = Some (selector, verifier)"
    and "find (\<lambda>r. rt_selector r = selector) (refresh_tokens (w_tabs w)) = Some q"
    and "rt_used_at q = Some t" and "tx_start w - t \<le> 30 * second"
    and "refresh rid b w = (rsp, w')"
  shows "w_tabs w' = w_tabs w \<and> (rsp = unauthorized rid \<or> rsp = internal_error rid)"
proof -
  obtain row where row: "locked_row selector (tx_start w) (w_tabs w) = Some row"
    using assms(3) by (auto simp: locked_row_def)
  from locked_row_fields [OF row] assms(3,4) have u: "rt_used_at row = Some t" "rt_db_now row = tx_start w"
    by auto
  then have nr: "\<not> is_replay row v" "\<not> may_rotate row v now tb" for v now tb
    using assms(5) time_sub_le_iff [of "30 * second" "tx_start w" t]
    by (auto simp: is_replay_def may_rotate_def used_recently_def refresh_reuse_leeway_def duration_defs)
  have rot: "w_tabs w1 = w_tabs w \<and> (r = Inr None \<or> (\<exists>e. r = Inl e))"
    if "rotate_refresh selector verifier w = (r, w1)" for r w1
    using that by (cases rule: rotate_refresh_outcome) (use row nr in auto)
  from assms(6) show ?thesis
  proof (cases rule: refresh_cases)
    case (error req' s' v' e w1) with assms(1,2) rot [of "Inl e" w1] show ?thesis by simp
  next
    case (refused req' s' v') with assms(1,2) rot [of "Inr None" w'] show ?thesis by simp
  next
    case (ok req' s' v' s) with assms(1,2) rot [of "Inr (Some s)" w'] show ?thesis by simp
  qed (use assms(1) in simp_all)
qed

corollary refresh_race_keeps_family_witness:
  "w_tabs (snd (refresh ''r'' toy_refresh_body (toy_refresh_world (Some 0) 29000000000))) =
     w_tabs (toy_refresh_world (Some 0) 29000000000)"
  using refresh_race_keeps_family [OF toy_refresh_decodes toy_cut, of "toy_refresh_world (Some 0) 29000000000"
      "toy_refresh_row (Some 0)" 0 "''r''", OF _ _ _ prod.collapse [symmetric]]
  by (simp add: duration_defs toy_refresh_row_def)

text \<open>A refresh is all or nothing.  Whatever fails, the tables afterwards are those before, or those
  before with the family of a replayed token revoked, or those of one complete rotation: the old token
  used and both new rows present.  A session is answered only in the last case, and in the last case
  only a session or a server error is answered.\<close>

theorem refresh_atomic:
  assumes "refresh rid b w = (rsp, w')"
  shows "(w_tabs w' = w_tabs w \<and> rsp_status rsp \<noteq> 200) \<or>
    (\<exists>row verifier. is_replay row verifier \<and> rsp_status rsp \<noteq> 200 \<and>
       w_tabs w' = revoked (rt_token_family row) (tx_start w) (w_tabs w)) \<or>
    (\<exists>row now s. rotated row now (tx_start w) (w_tabs w) (w_tabs w') s \<and>
       (rsp = session_response s \<or> rsp = internal_error rid))"
  using assms by (rule refresh_tables)

corollary refresh_atomic_witness:
  "\<exists>row now s. rotated row now 10 (w_tabs (toy_refresh_world None 10))
     (w_tabs (snd (refresh ''r'' toy_refresh_body (toy_refresh_world None 10)))) s"
  using refresh_atomic [of "''r''" toy_refresh_body "toy_refresh_world None 10", OF prod.collapse [symmetric]]
    toy_refresh [of "''r''"]
  by auto

text \<open>The lifetime of a rotation chain is not bounded.  The token a refresh hands out is valid for the
  full refresh lifetime from the moment of the refresh, whenever the token it replaces, or the login
  that started the family, would have expired.\<close>

theorem refresh_slides:
  assumes "refresh rid b w = (rsp, w')" and "rsp_status rsp = 200"
  shows "\<exists>selector row q now.
    locked_row selector (tx_start w) (w_tabs w) = Some row \<and> \<not> expired (rt_expires_at row) now \<and>
    refresh_tokens (w_tabs w') \<noteq> [] \<and> q = last (refresh_tokens (w_tabs w')) \<and>
    rt_token_family q = rt_token_family row \<and> rt_user_id q = rt_user_id row \<and>
    rt_used_at q = None \<and> rt_revoked_at q = None \<and>
    rt_expires_at q = Some (pg_time (now + refresh_token_ttl))"
  using assms(1)
proof (cases rule: refresh_cases)
  case (ok req selector verifier s)
  from ok(3) show ?thesis
  proof (cases rule: rotate_refresh_outcome)
    case (rotation row now s')
    then obtain q where "refresh_tokens (w_tabs w') = refresh_tokens (marked (rt_id row) (tx_start w) (w_tabs w)) @ [q]"
      "rt_token_family q = rt_token_family row" "rt_user_id q = rt_user_id row"
      "rt_used_at q = None" "rt_revoked_at q = None" "rt_expires_at q = Some (pg_time (now + refresh_token_ttl))"
      by (auto simp: rotated_def session_inserted_def Let_def rotation_rows_def rows_for_def refresh_row_of_def)
    with rotation(1,2) show ?thesis by (auto simp: may_rotate_def)
  qed simp_all
qed (use assms(2) in auto)

corollary refresh_slides_witness:
  "\<exists>q now. q = last (refresh_tokens (w_tabs (snd (refresh ''r'' toy_refresh_body (toy_refresh_world None 10))))) \<and>
     rt_expires_at q = Some (pg_time (now + refresh_token_ttl))"
  using refresh_slides [of "''r''" toy_refresh_body "toy_refresh_world None 10", OF prod.collapse [symmetric]]
    toy_refresh [of "''r''"]
  by auto

text \<open>The trailing-data check of refresh is weaker than that of login.  Text that starts with a closing
  bracket may follow the object, and so may white space past the size limit; login refuses both.\<close>

definition junk_after_object :: body where
  \<open>junk_after_object = \<lparr>b_data = ''{"refreshToken":"a.b"} } garbage'', b_err = None\<rparr>\<close>

definition junk_after_login :: body where
  \<open>junk_after_login = \<lparr>b_data = ''{"username":"a","password":"b"} } garbage'', b_err = None\<rparr>\<close>

theorem refresh_accepts_trailing_junk:
  "decode_refresh_request junk_after_object = Some \<lparr>rr_refresh_token = ''a.b''\<rparr> \<and>
   decode_login_request junk_after_login = None"
  by code_simp

end
