(* ===== verification/AuthSystem.thy ===== *)
theory AuthSystem
  imports Bearer RefreshSpec
begin

text \<open>
  The authentication module as a whole: the requests one deployment serves, in any order, over any
  worlds, interleaved with whatever operators do to the users and with the passing of time; the
  invariants of the token tables; and the properties that hold along every such history.
\<close>

section \<open>Histories\<close>

text \<open>One event: a request of the module served from start to end, an operator who revokes an access
  token or changes users in any way, or anything that leaves the tables alone (time, other requests,
  new entries in the scripts).\<close>

inductive auth_step ::
  "(string \<Rightarrow> string) \<Rightarrow> kdf \<Rightarrow> string \<Rightarrow> (string \<Rightarrow> string) \<Rightarrow> world \<Rightarrow> world \<Rightarrow> bool"
  for pl kdf d ul where
  step_login: "login (new_handler pl kdf d ul) rid b w = (rsp, w') \<Longrightarrow> auth_step pl kdf d ul w w'"
| step_refresh: "refresh rid b w = (rsp, w') \<Longrightarrow> auth_step pl kdf d ul w w'"
| step_bearer: "authenticate authz w = (r, w') \<Longrightarrow> auth_step pl kdf d ul w w'"
| step_revoke: "w_tabs w' = snd (revoke_access_token i now (w_tabs w)) \<Longrightarrow> auth_step pl kdf d ul w w'"
| step_users: "w_tabs w' = (w_tabs w)\<lparr>users := us\<rparr> \<Longrightarrow> auth_step pl kdf d ul w w'"
| step_idle: "w_tabs w' = w_tabs w \<Longrightarrow> auth_step pl kdf d ul w w'"

inductive_cases auth_stepE: "auth_step pl kdf d ul w w'"

abbreviation auth_history ::
  "(string \<Rightarrow> string) \<Rightarrow> kdf \<Rightarrow> string \<Rightarrow> (string \<Rightarrow> string) \<Rightarrow> world \<Rightarrow> world \<Rightarrow> bool" where
  "auth_history pl kdf d ul \<equiv> (auth_step pl kdf d ul)\<^sup>*\<^sup>*"

text \<open>The rows a session brings: digests of 32 bytes and an expiry.\<close>

definition minted_rows :: "session_rows \<Rightarrow> bool" where
  "minted_rows rows \<longleftrightarrow>
     length (ia_token_hash (sr_access rows)) = 32 \<and> length (ir_verifier_hash (sr_refresh rows)) = 32 \<and>
     ia_expires_at (sr_access rows) \<noteq> None \<and> ir_expires_at (sr_refresh rows) \<noteq> None"

lemma minted_rows_for: "minted_rows (rows_for i (access_of raw) (refresh_of sel ver) f now)"
  by (simp add: minted_rows_def rows_for_def access_of_def refresh_of_def length_sha256)

lemma issued_minted:
  "issued i app t t' s \<Longrightarrow> \<exists>rows. minted_rows rows \<and> session_inserted rows t t'"
  unfolding issued_def using minted_rows_for by blast

lemma rotated_minted:
  "rotated row now t0 t t' s \<Longrightarrow> \<exists>rows. minted_rows rows \<and> session_inserted rows (marked (rt_id row) t0 t) t'"
  unfolding rotated_def rotation_rows_def using minted_rows_for by blast

text \<open>What one event does to the token tables.\<close>

lemma auth_step_tokens:
  assumes "auth_step pl kdf d ul w w'"
  obtains (same) "same_sessions (w_tabs w) (w_tabs w')"
  | (session) t rows where "same_sessions (w_tabs w) t" and "minted_rows rows"
      and "session_inserted rows t (w_tabs w')"
  | (rotation) i t0 rows where "minted_rows rows" and "session_inserted rows (marked i t0 (w_tabs w)) (w_tabs w')"
  | (replay) f t0 where "w_tabs w' = revoked f t0 (w_tabs w)"
  | (revoke) i t0 where "w_tabs w' = snd (revoke_access_token i t0 (w_tabs w))"
  using assms
proof (cases rule: auth_step.cases)
  case (step_login rid b rsp)
  from login_tables [OF step_login] show thesis
    by (auto intro: same session dest!: issued_minted)
next
  case (step_refresh rid b rsp)
  from refresh_tables [OF step_refresh] show thesis
    by (auto intro: same rotation replay dest!: rotated_minted)
next
  case (step_bearer authz r)
  with authenticate_tabs show thesis by (intro same) auto
qed (auto intro: revoke same simp: same_sessions_def)

section \<open>Invariants of the token tables\<close>

text \<open>Selectors and digests are unique, digests have 32 bytes, every token expires.\<close>

definition tokens_ok :: "tables \<Rightarrow> bool" where
  "tokens_ok t \<longleftrightarrow>
     distinct (map rt_selector (refresh_tokens t)) \<and> distinct (map at_token_hash (access_tokens t)) \<and>
     (\<forall>r \<in> set (refresh_tokens t). length (rt_verifier_hash r) = 32 \<and> rt_expires_at r \<noteq> None) \<and>
     (\<forall>a \<in> set (access_tokens t). length (at_token_hash a) = 32 \<and> at_expires_at a \<noteq> None)"

lemma tokens_ok_cong:
  assumes "map (\<lambda>r. (rt_selector r, rt_verifier_hash r, rt_expires_at r)) (refresh_tokens t') =
      map (\<lambda>r. (rt_selector r, rt_verifier_hash r, rt_expires_at r)) (refresh_tokens t)"
    and "map (\<lambda>a. (at_token_hash a, at_expires_at a)) (access_tokens t') =
      map (\<lambda>a. (at_token_hash a, at_expires_at a)) (access_tokens t)"
  shows "tokens_ok t' = tokens_ok t"
proof -
  have "tokens_ok t = (let rs = map (\<lambda>r. (rt_selector r, rt_verifier_hash r, rt_expires_at r)) (refresh_tokens t);
      as = map (\<lambda>a. (at_token_hash a, at_expires_at a)) (access_tokens t) in
    distinct (map fst rs) \<and> distinct (map fst as) \<and>
    (\<forall>(s, h, e) \<in> set rs. length h = 32 \<and> e \<noteq> None) \<and> (\<forall>(h, e) \<in> set as. length h = 32 \<and> e \<noteq> None))" for t
    by (simp add: tokens_ok_def Let_def comp_def)
  then show ?thesis unfolding assms by (simp only: assms)
qed

lemma tokens_ok_updates [simp]:
  "tokens_ok (marked i now t) = tokens_ok t" "tokens_ok (revoked f now t) = tokens_ok t"
  "tokens_ok (snd (revoke_access_token j now t)) = tokens_ok t"
proof -
  show "tokens_ok (marked i now t) = tokens_ok t"
    by (rule tokens_ok_cong) (simp_all add: marked_def mark_refresh_token_used_def map_update_where)
  show "tokens_ok (revoked f now t) = tokens_ok t"
    by (rule tokens_ok_cong) (simp_all add: revoked_def revoke_token_family_def map_update_where)
  show "tokens_ok (snd (revoke_access_token j now t)) = tokens_ok t"
    by (rule tokens_ok_cong) (simp_all add: revoke_access_token_def map_update_where)
qed

lemma distinct_map_snoc:
  "distinct (map f (xs @ [x])) \<longleftrightarrow> distinct (map f xs) \<and> (\<forall>y \<in> set xs. f y \<noteq> f x)"
  by (simp add: image_iff) metis

lemma tokens_ok_inserted:
  assumes "tokens_ok t" and "session_inserted rows t t'" and "minted_rows rows"
  shows "tokens_ok t'"
proof -
  obtain a r where t': "t' = t\<lparr>access_tokens := access_tokens t @ [a], refresh_tokens := refresh_tokens t @ [r]\<rparr>"
    and fresh: "\<forall>q \<in> set (access_tokens t). at_token_hash q \<noteq> at_token_hash a"
      "\<forall>q \<in> set (refresh_tokens t). rt_selector q \<noteq> rt_selector r"
    and new: "length (at_token_hash a) = 32" "at_expires_at a \<noteq> None"
      "length (rt_verifier_hash r) = 32" "rt_expires_at r \<noteq> None"
    using assms(2,3)
    by (fastforce simp: session_inserted_def Let_def minted_rows_def access_row_of_def refresh_row_of_def)
  have "refresh_tokens t' = refresh_tokens t @ [r]" "access_tokens t' = access_tokens t @ [a]"
    by (simp_all add: t')
  with assms(1) fresh new show ?thesis
    unfolding tokens_ok_def by (simp only: distinct_map_snoc) simp
qed

lemma tokens_ok_step:
  assumes "auth_step pl kdf d ul w w'" and "tokens_ok (w_tabs w)"
  shows "tokens_ok (w_tabs w')"
  using assms(1)
proof (cases rule: auth_step_tokens)
  case (session t rows)
  with assms(2) have "tokens_ok t" by (simp add: same_sessions_def tokens_ok_def)
  with session show ?thesis by (blast intro: tokens_ok_inserted)
next
  case (rotation i t0 rows)
  with assms(2) show ?thesis by (metis tokens_ok_updates(1) tokens_ok_inserted)
qed (use assms(2) in \<open>simp_all add: same_sessions_def tokens_ok_def [of "w_tabs w"] tokens_ok_def [of "w_tabs w'"]\<close>)

lemma dead_step:
  assumes "auth_step pl kdf d ul w w'" and "dead s (w_tabs w)"
  shows "dead s (w_tabs w')"
  using assms(1)
proof (cases rule: auth_step_tokens)
  case (session t rows)
  with assms(2) show ?thesis by (blast intro: dead_sessions dead_inserted)
next
  case (rotation i t0 rows)
  with assms(2) show ?thesis by (blast intro: dead_marked dead_inserted)
next
  case (replay f t0)
  with assms(2) show ?thesis by (simp add: dead_revoked)
next
  case (revoke i t0)
  with assms(2) show ?thesis by (simp add: dead_def revoke_access_token_def)
qed (use assms(2) dead_sessions in blast)

lemma dead_history: "auth_history pl kdf d ul w w' \<Longrightarrow> dead s (w_tabs w) \<Longrightarrow> dead s (w_tabs w')"
  by (induction rule: rtranclp_induct) (auto intro: dead_step)

lemma dead_never_200:
  assumes "dead selector (w_tabs w)" and "decode_refresh_request b = Some req"
    and "cut_on refresh_separator (rr_refresh_token req) = Some (selector, verifier)"
    and "refresh rid b w = (rsp, w')"
  shows "rsp_status rsp \<noteq> 200"
  using assms(4)
proof (cases rule: refresh_cases)
  case (ok req' s' v' s)
  with assms(2,3) dead_refused [OF assms(1), of verifier "Inr (Some s)" w' s] show ?thesis by simp
qed simp_all

section \<open>Concrete tokens\<close>

lemma toy_tables_alice: "find (\<lambda>v. u_id v = alice_id) (users toy_tables) = Some alice"
  by simp

definition toy_access_world :: "time option \<Rightarrow> string \<Rightarrow> world" where
  "toy_access_world r status = quiet_world
     (toy_tables\<lparr>users := [alice\<lparr>u_status := status\<rparr>],
        access_tokens := [\<lparr>at_id = replicate 16 (CHR ''t''), at_user_id = alice_id,
          at_token_hash = sha256 (replicate 16 (CHR ''v'')), at_expires_at = Some 100,
          at_revoked_at = r, at_created_at = 0\<rparr>]\<rparr>) 10"

lemma toy_admitted:
  "admitted (bearer_prefix @ toy_verifier) (uuid_to_string alice_id) 10 (w_tabs (toy_access_world None ''active''))"
  unfolding admitted_def
  by (rule exI [of _ toy_verifier], rule exI [of _ "replicate 16 (CHR ''v'')"])
     (simp add: toy_verifier_decodes toy_access_world_def expired_def)

section \<open>Revoked access tokens\<close>

definition access_dead :: "bytes \<Rightarrow> tables \<Rightarrow> bool" where
  "access_dead h t \<longleftrightarrow>
     (case find (\<lambda>r. at_token_hash r = h) (access_tokens t) of None \<Rightarrow> False | Some a \<Rightarrow> at_revoked_at a \<noteq> None)"

lemma access_dead_inserted: "access_dead h t \<Longrightarrow> session_inserted rows t t' \<Longrightarrow> access_dead h t'"
  by (auto simp: access_dead_def session_inserted_def Let_def find_append split: option.splits)

lemma access_dead_updates:
  "access_dead h (marked i now t) = access_dead h t" "access_dead h (revoked f now t) = access_dead h t"
  "access_dead h t \<Longrightarrow> access_dead h (snd (revoke_access_token i now t))"
  by (auto simp: access_dead_def marked_def mark_refresh_token_used_def revoked_def revoke_token_family_def
      revoke_access_token_def find_update_where split: option.splits)

lemma access_dead_step:
  assumes "auth_step pl kdf d ul w w'" and "access_dead h (w_tabs w)"
  shows "access_dead h (w_tabs w')"
  using assms(1)
proof (cases rule: auth_step_tokens)
  case (session t rows)
  from session(1) assms(2) have "access_dead h t" by (simp add: access_dead_def same_sessions_def)
  with session show ?thesis by (blast intro: access_dead_inserted)
next
  case (rotation i t0 rows)
  with assms(2) show ?thesis by (metis access_dead_updates(1) access_dead_inserted)
next
  case (replay f t0)
  with assms(2) show ?thesis by (simp add: access_dead_updates)
next
  case (revoke i t0)
  with assms(2) show ?thesis by (simp add: access_dead_updates)
next
  case same
  with assms(2) show ?thesis by (simp add: access_dead_def same_sessions_def)
qed

lemma access_dead_history: "auth_history pl kdf d ul w w' \<Longrightarrow> access_dead h (w_tabs w) \<Longrightarrow> access_dead h (w_tabs w')"
  by (induction rule: rtranclp_induct) (auto intro: access_dead_step)

lemma access_dead_refused:
  assumes "access_dead (sha256 raw) (w_tabs w)" and "raw_url_dec token = Some raw"
  shows "fst (authenticate (bearer_prefix @ token) w) = None"
proof (rule ccontr)
  assume "fst (authenticate (bearer_prefix @ token) w) \<noteq> None"
  then obtain uid w' where "authenticate (bearer_prefix @ token) w = (Some uid, w')"
    by (cases "authenticate (bearer_prefix @ token) w") auto
  from authenticate_admitted [OF this] assms show False
    by (auto simp: admitted_def access_dead_def)
qed

lemma revoke_access_dead:
  assumes "distinct (map at_token_hash (access_tokens t))" and "a \<in> set (access_tokens t)"
  shows "access_dead (at_token_hash a) (snd (revoke_access_token (at_id a) now t))"
  using find_unique [OF assms]
  by (simp add: access_dead_def revoke_access_token_def find_update_where)

section \<open>A replay that is detected\<close>

text \<open>No failure of a round trip looks like an empty result.\<close>

definition real_faults :: "world \<Rightarrow> bool" where
  "real_faults w \<longleftrightarrow>
     list_all (\<lambda>(d, f). case f of NoFault \<Rightarrow> True | FailBefore e \<Rightarrow> \<not> err_is ErrNoRows e
       | FailAfter e \<Rightarrow> \<not> err_is ErrNoRows e) (w_script w)"

lemma real_faults_next:
  assumes "real_faults w" and "next_fault w = (f, v)"
  shows "real_faults v" and "f = FailBefore e \<or> f = FailAfter e \<Longrightarrow> \<not> err_is ErrNoRows e"
  using assms by (auto simp: real_faults_def next_fault_def split: list.splits)

lemma real_faults_emit [simp]: "real_faults (emit e w) = real_faults w"
  by (simp add: real_faults_def)

lemma real_faults_begin: "tx_begin w = (r, w') \<Longrightarrow> real_faults w \<Longrightarrow> real_faults w'"
  by (auto simp: tx_begin_def Let_def split: prod.splits fault.splits dest: real_faults_next)

lemma real_faults_exec:
  assumes "tx_exec k st x w = (r, x', w')" and "real_faults w"
  shows "real_faults w'" and "r = Inl e \<Longrightarrow> err_is ErrNoRows e \<Longrightarrow> fst (st (tx_now x) (tx_tabs x)) = Inl e"
proof -
  obtain f v where n: "next_fault w = (f, v)" by (cases "next_fault w")
  note rf = real_faults_next [OF assms(2) n]
  show "real_faults w'"
    using assms(1) rf(1) by (auto simp: tx_exec_def n Let_def split: if_splits fault.splits prod.splits sum.splits)
  show "fst (st (tx_now x) (tx_tabs x)) = Inl e" if "r = Inl e" "err_is ErrNoRows e"
    using assms(1) rf(2) that
    by (auto simp: tx_exec_def n Let_def split: if_splits fault.splits prod.splits sum.splits)
qed

lemma detected_revokes:
  assumes "rotate_refresh selector verifier w = (Inr None, w')" and "real_faults w"
    and row: "locked_row selector (tx_start w) (w_tabs w) = Some row" and replay: "is_replay row verifier"
  shows "w_tabs w' = revoked (rt_token_family row) (tx_start w) (w_tabs w)"
proof -
  obtain q where q: "find (\<lambda>r. rt_selector r = selector) (refresh_tokens (w_tabs w)) = Some q"
    using locked_row_fields [OF row] by blast
  obtain x0 w0 where b: "tx_begin w = (Inr x0, w0)"
    using assms(1) by (auto simp: rotate_refresh_def split: prod.splits sum.splits)
  have x0: "tx_tabs x0 = w_tabs w" "tx_now x0 = tx_start w" and r0: "real_faults w0"
    using tx_begin_Inr [OF b] tx_begin_start [OF b] real_faults_begin [OF b assms(2)] by simp_all
  obtain r1 x1 w1 where p: "tx_exec (WSelect ''GetRefreshTokenBySelector'')
      (get_refresh_token_by_selector selector) x0 w0 = (r1, x1, w1)" by (metis prod_cases3)
  have "fst (get_refresh_token_by_selector selector (tx_now x0) (tx_tabs x0)) = Inr q"
    by (simp add: get_refresh_token_by_selector_def one_row_def x0 q)
  with assms(1) b p real_faults_exec(2) [OF p r0] obtain pre where pre: "r1 = Inr pre"
    by (cases r1) (auto simp: rotate_refresh_def fail_def split: if_splits)
  note x1 = tx_read [OF p read_only_queries(3)] and r1 = real_faults_exec(1) [OF p r0]
  obtain r2 x2 w2 where l: "tx_exec (WLock ''LockTokenFamily'')
      (lock_token_family (rt_token_family pre)) x1 w1 = (r2, x2, w2)" by (metis prod_cases3)
  with assms(1) b p pre obtain u where lock: "r2 = Inr u"
    by (cases r2) (auto simp: rotate_refresh_def fail_def)
  note x2 = tx_read [OF l read_only_queries(5)] and r2 = real_faults_exec(1) [OF l r1]
  obtain r3 x3 w3 where g: "tx_exec (WSelect ''GetRefreshTokenBySelectorForUpdate'')
      (get_refresh_token_by_selector_for_update selector) x2 w2 = (r3, x3, w3)" by (metis prod_cases3)
  note x3 = tx_read [OF g read_only_queries(4)]
  have "fst (get_refresh_token_by_selector_for_update selector (tx_now x2) (tx_tabs x2)) = Inr row"
    using row
    by (auto simp: get_refresh_token_by_selector_for_update_def one_row_def x2 x1 x0 locked_row_def
        split: option.splits)
  with real_faults_exec(2) [OF g r2] x3(4) have "r3 = Inr row \<or> (\<exists>e. r3 = Inl e \<and> \<not> err_is ErrNoRows e)"
    by (cases r3) auto
  with assms(1) b p pre l lock g have g': "r3 = Inr row" and run: "rotate_row row verifier x3 w3 = (Inr None, w')"
    by (auto simp: rotate_refresh_def fail_def)
  have "revoke_family row x3 w3 = (Inr None, w')"
    using run replay by (auto simp: is_replay_def rotate_row_def)
  then obtain u x4 w4 v where rv: "tx_exec (WUpdate ''RevokeTokenFamily'')
      (revoke_token_family (rt_token_family row)) x3 w3 = (Inr u, x4, w4)" and c: "tx_commit x4 w4 = (Inr v, w')"
    by (auto simp: revoke_family_def fail_def split: prod.splits sum.splits)
  from tx_exec_Inr [OF rv] tx_commit_Inr [OF c] show ?thesis
    by (simp add: revoke_token_family_def revoked_def x3 x2 x1 x0)
qed

section \<open>The properties\<close>

text \<open>Along every history the stored token data stay sound: refresh selectors and access digests
  are unique, what is stored of a secret is 32 bytes of digest, and every token has an expiry.\<close>

theorem token_tables_invariant:
  assumes "auth_history pl kdf d ul w w'" and "tokens_ok (w_tabs w)"
  shows "tokens_ok (w_tabs w')"
  using assms by (induction rule: rtranclp_induct) (auto intro: tokens_ok_step)

text \<open>C6: a refresh token buys one session, ever.  After it has been exchanged, no request that
  presents a token with its selector is answered with a session again, whatever logins, refreshes,
  operator actions and failures happen in between.\<close>

theorem refresh_single_use:
  assumes "refresh rid b w = (rsp, w1)" and "rsp_status rsp = 200"
    and "decode_refresh_request b = Some req"
    and "cut_on refresh_separator (rr_refresh_token req) = Some (selector, verifier)"
    and "auth_history pl kdf d ul w1 w2"
    and "decode_refresh_request b' = Some req'"
    and "cut_on refresh_separator (rr_refresh_token req') = Some (selector, verifier')"
    and "refresh rid' b' w2 = (rsp', w3)"
  shows "rsp_status rsp' \<noteq> 200"
proof -
  have "dead selector (w_tabs w1)"
    using assms(1)
  proof (cases rule: refresh_cases)
    case (ok req1 s1 v1 s)
    with assms(3,4) have "rotate_refresh selector verifier w = (Inr (Some s), w1)" by simp
    then show ?thesis
      by (cases rule: rotate_refresh_outcome) (auto intro: rotated_dead)
  qed (use assms(2) in auto)
  with dead_history [OF assms(5)] have "dead selector (w_tabs w2)" .
  then show ?thesis using assms(6-8) by (rule dead_never_200)
qed

text \<open>C29: after a replay has been answered with the refusal, no refresh token the family had is ever
  exchanged again, neither the replayed one nor its unused successors.  The detecting request may meet any
  failure, as long as none looks like an empty result: one that keeps the revocation from being committed
  shows in its answer, which is then 500 and not 401, and the family may live on.\<close>

theorem replay_kills_family:
  assumes "decode_refresh_request b = Some req"
    and "cut_on refresh_separator (rr_refresh_token req) = Some (selector, verifier)"
    and "selector \<noteq> []" "verifier \<noteq> []"
    and "real_faults w" and "locked_row selector (tx_start w) (w_tabs w) = Some row"
    and "is_replay row verifier" and "refresh rid b w = (rsp, w1)" and "rsp_status rsp = 401"
    and "find (\<lambda>r. rt_selector r = other) (refresh_tokens (w_tabs w)) = Some q"
    and "rt_token_family q = rt_token_family row"
    and "auth_history pl kdf d ul w1 w2"
    and "decode_refresh_request b' = Some req'"
    and "cut_on refresh_separator (rr_refresh_token req') = Some (other, verifier')"
    and "refresh rid' b' w2 = (rsp', w3)"
  shows "rsp_status rsp' \<noteq> 200"
proof -
  have "rotate_refresh selector verifier w = (Inr None, w1)"
    using assms(1-4,8,9) by (auto simp: refresh_def split: prod.splits sum.splits option.splits)
  from detected_revokes [OF this assms(5-7)]
  have "dead other (w_tabs w1)" using revoked_dead [OF assms(10,11)] by simp
  with dead_history [OF assms(12)] have "dead other (w_tabs w2)" .
  then show ?thesis using assms(13-15) by (rule dead_never_200)
qed

corollary token_tables_invariant_witness:
  "tokens_ok (w_tabs (snd (login toy_handler ''r'' toy_body toy_world)))"
  using token_tables_invariant [of "\<lambda>s. s" toy_kdf "toy_hash ''dummy''" "\<lambda>s. s" toy_world
      "snd (login toy_handler ''r'' toy_body toy_world)"]
    step_login [of "\<lambda>s. s" toy_kdf "toy_hash ''dummy''" "\<lambda>s. s" "''r''" toy_body toy_world,
      OF prod.collapse [symmetric]]
  by (auto simp: toy_handler_def tokens_ok_def [of toy_tables])

corollary refresh_single_use_witness:
  "rsp_status (fst (refresh ''r2'' toy_refresh_body
     (snd (refresh ''r1'' toy_refresh_body (toy_refresh_world None 10))))) \<noteq> 200"
  using refresh_single_use [of "''r1''" toy_refresh_body "toy_refresh_world None 10" _ _ _ toy_selector toy_verifier
      "\<lambda>s. s" toy_kdf "[]" "\<lambda>s. s" "snd (refresh ''r1'' toy_refresh_body (toy_refresh_world None 10))"
      toy_refresh_body _ toy_verifier "''r2''",
      OF prod.collapse [symmetric] _ toy_refresh_decodes toy_cut _ toy_refresh_decodes toy_cut prod.collapse [symmetric]]
    toy_refresh [of "''r1''"]
  by simp

corollary replay_kills_family_witness:
  "rsp_status (fst (refresh ''r2'' toy_refresh_body
     (snd (refresh ''r1'' toy_refresh_body (toy_refresh_world (Some 0) 31000000000))))) \<noteq> 200"
proof -
  let ?w = "toy_refresh_world (Some 0) 31000000000"
  have r: "is_replay (toy_locked_row (Some 0) 31000000000) toy_verifier"
    by (simp add: is_replay_def toy_verifier_decodes used_recently_def refresh_reuse_leeway_def duration_defs
        time_sub_def)
  have "rsp_status (fst (refresh ''r1'' toy_refresh_body ?w)) = 401"
    using replay_quiet(1) [OF toy_refresh_decodes toy_cut _ _ _ _ r, of ?w "''r1''"] by simp
  moreover have "real_faults ?w" by (simp add: real_faults_def)
  ultimately show ?thesis
    using replay_kills_family [OF toy_refresh_decodes toy_cut _ _ _ _ r prod.collapse [symmetric], of ?w "''r1''"
        toy_selector "toy_refresh_row (Some 0)" "\<lambda>s. s" toy_kdf "[]" "\<lambda>s. s"
        "snd (refresh ''r1'' toy_refresh_body ?w)" toy_refresh_body _ toy_verifier "''r2''",
        OF _ _ _ _ _ _ _ _ toy_refresh_decodes toy_cut prod.collapse [symmetric]]
    by simp
qed

text \<open>C23: a protected handler runs only for a token that is stored, not revoked and not expired, of a user
  that is active at the time of the request; whatever fails, anything else gets the generic refusal, and
  the check itself changes no table.\<close>

theorem bearer_admits:
  assumes "bearer_middleware next rid authz w = (rsp, w')"
  shows "(\<exists>w1. authenticate authz w = (None, w1) \<and> rsp = unauthorized rid \<and> w_tabs w' = w_tabs w) \<or>
    (\<exists>uid now w1. admitted authz uid now (w_tabs w) \<and> w_app w \<le> now \<and> w_tabs w1 = w_tabs w \<and>
       next uid w1 = (rsp, w'))"
proof (cases "authenticate authz w")
  case (Pair r w1)
  show ?thesis
  proof (cases r)
    case None
    with Pair assms authenticate_tabs [OF Pair] show ?thesis by (auto simp: bearer_middleware_def)
  next
    case (Some uid)
    then obtain now where "w_app w \<le> now" "admitted authz uid now (w_tabs w)"
      using authenticate_admitted Pair by blast
    moreover have "next uid w1 = (rsp, w')" using Pair Some assms by (simp add: bearer_middleware_def)
    ultimately show ?thesis using authenticate_tabs [OF Pair] by blast
  qed
qed

corollary bearer_admits_witness:
  "\<exists>uid now. admitted (bearer_prefix @ toy_verifier) uid now (w_tabs (toy_access_world None ''active''))"
proof -
  let ?w = "toy_access_world None ''active''" and ?n = "\<lambda>uid w. (session_response (session_of uid (access_of []) (refresh_of [] []) 0), w)"
  have "fst (authenticate (bearer_prefix @ toy_verifier) ?w) = Some (uuid_to_string alice_id)"
    using authenticate_quiet_iff [of ?w] toy_admitted by (simp add: toy_access_world_def)
  with bearer_admits [of ?n "''r''" "bearer_prefix @ toy_verifier" ?w, OF prod.collapse [symmetric]]
  show ?thesis by auto
qed

text \<open>With no failure the check admits exactly the tokens it should.\<close>

theorem bearer_exact:
  assumes "w_script w = []"
  shows "fst (authenticate authz w) = Some uid \<longleftrightarrow> admitted authz uid (w_app w) (w_tabs w)"
  using assms by (rule authenticate_quiet_iff)

corollary bearer_exact_witness:
  "fst (authenticate (bearer_prefix @ toy_verifier) (toy_access_world None ''active'')) = Some (uuid_to_string alice_id)"
  using bearer_exact [of "toy_access_world None ''active''" "bearer_prefix @ toy_verifier" "uuid_to_string alice_id"]
    toy_admitted
  by (simp add: toy_access_world_def)

text \<open>Revocation acts at once and for good.  Once a stored access token is revoked, the very next
  request that presents it and every later one is refused, whatever happens in between.\<close>

theorem access_revocation_final:
  assumes "tokens_ok (w_tabs w)" and "a \<in> set (access_tokens (w_tabs w))"
    and "w_tabs w1 = snd (revoke_access_token (at_id a) now (w_tabs w))"
    and "auth_history pl kdf d ul w1 w2"
    and "raw_url_dec token = Some raw" and "sha256 raw = at_token_hash a"
  shows "fst (authenticate (bearer_prefix @ token) w2) = None"
proof -
  have "access_dead (sha256 raw) (w_tabs w1)"
    using assms(1,2,3,6) revoke_access_dead by (simp add: tokens_ok_def)
  with access_dead_history [OF assms(4)] have "access_dead (sha256 raw) (w_tabs w2)" .
  then show ?thesis using assms(5) by (rule access_dead_refused)
qed

corollary access_revocation_final_witness:
  "\<exists>a \<in> set (access_tokens (w_tabs (toy_access_world None ''active''))). \<exists>w2.
     w_tabs w2 = snd (revoke_access_token (at_id a) 5 (w_tabs (toy_access_world None ''active''))) \<and>
     fst (authenticate (bearer_prefix @ toy_verifier) w2) = None"
proof -
  let ?w = "toy_access_world None ''active''"
  obtain a where a: "access_tokens (w_tabs ?w) = [a]" "at_token_hash a = sha256 (replicate 16 (CHR ''v''))"
    by (simp add: toy_access_world_def)
  have ok: "tokens_ok (w_tabs ?w)"
    by (simp add: tokens_ok_def toy_access_world_def length_sha256)
  let ?w2 = "?w\<lparr>w_tabs := snd (revoke_access_token (at_id a) 5 (w_tabs ?w))\<rparr>"
  have "fst (authenticate (bearer_prefix @ toy_verifier) ?w2) = None"
    by (rule access_revocation_final [where w = ?w and a = a and ?w1.0 = ?w2 and now = 5 and pl = "\<lambda>s. s"
          and kdf = toy_kdf and d = "[]" and ul = "\<lambda>s. s", OF ok _ _ rtranclp.rtrancl_refl toy_verifier_decodes])
       (simp_all add: a)
  then show ?thesis by (intro bexI [of _ a] exI [of _ ?w2]) (simp_all add: a)
qed

end
