(* ===== verification/Lockout.thy ===== *)
theory Lockout
  imports LoginSpec
begin

text \<open>
  The account lockout as a state machine: the policy of \<^verbatim>\<open>lockout.go\<close> over the statements of
  \<^verbatim>\<open>auth.sql.go\<close> that write \<^verbatim>\<open>failed_attempts\<close> and \<^verbatim>\<open>locked_until\<close>.  Each statement is atomic on the
  user's row, so a list of events at database times is every interleaving of concurrent logins.
\<close>

section \<open>The abstract machine\<close>

record account =
  ac_failed :: int
  ac_locked :: "time option"

definition fresh_account :: account where
  "fresh_account = \<lparr>ac_failed = 0, ac_locked = None\<rparr>"

text \<open>A counted failure and whether it is the one that locks; a success; a timing write.\<close>

datatype lock_event = Failure | Success | Timing

definition fail_account :: "time \<Rightarrow> account \<Rightarrow> account" where
  "fail_account now a =
     (if still_locked (ac_locked a) now then a
      else let n = (if ac_locked a = None then ac_failed a + 1 else 1) in
        \<lparr>ac_failed = n, ac_locked = (if lockout_threshold \<le> n then Some (now + lockout_window) else None)\<rparr>)"

definition locks_now :: "time \<Rightarrow> account \<Rightarrow> bool" where
  "locks_now now a \<longleftrightarrow> \<not> still_locked (ac_locked a) now \<and> ac_locked (fail_account now a) \<noteq> None"

fun event_account :: "time \<Rightarrow> lock_event \<Rightarrow> account \<Rightarrow> account" where
  "event_account now Failure a = fail_account now a"
| "event_account now Success a = fresh_account"
| "event_account now Timing a = a"

fun run_events :: "(time \<times> lock_event) list \<Rightarrow> account \<Rightarrow> account" where
  "run_events [] a = a"
| "run_events ((now, e) # es) a = run_events es (event_account now e a)"

text \<open>The number of lockout log lines of a run.\<close>

fun lock_logs :: "(time \<times> lock_event) list \<Rightarrow> account \<Rightarrow> nat" where
  "lock_logs [] a = 0"
| "lock_logs ((now, e) # es) a =
     (if e = Failure \<and> locks_now now a then 1 else 0) + lock_logs es (event_account now e a)"

section \<open>The statements implement the machine\<close>

definition account_of :: "user_row \<Rightarrow> account" where
  "account_of u = \<lparr>ac_failed = u_failed_attempts u, ac_locked = u_locked_until u\<rparr>"

definition account_in :: "uuid \<Rightarrow> tables \<Rightarrow> account option" where
  "account_in i t = map_option account_of (find (\<lambda>u. u_id u = i) (users t))"

definition event_stmt :: "uuid \<Rightarrow> lock_event \<Rightarrow> time \<Rightarrow> tables \<Rightarrow> tables" where
  "event_stmt i e now t =
     (case e of
        Failure \<Rightarrow> snd (record_login_failure i lockout_threshold lockout_window now t)
      | Success \<Rightarrow> snd (set_user_lock i 0 None now t)
      | Timing \<Rightarrow> snd (touch_user_timing i now t))"

lemma fail_account_next:
  "fail_account now (account_of u) =
     \<lparr>ac_failed = failed_next (u_failed_attempts u) (u_locked_until u) now,
      ac_locked = locked_next lockout_threshold lockout_window (u_failed_attempts u) (u_locked_until u) now\<rparr>"
  by (auto simp: fail_account_def account_of_def failed_next_def locked_next_def Let_def)

lemma account_in_update:
  "account_in i (t\<lparr>users := update_where (\<lambda>u. u_id u = i) f (users t)\<rparr>) =
     map_option (account_of \<circ> f) (find (\<lambda>u. u_id u = i) (users t))" if "\<And>u. u_id (f u) = u_id u"
proof -
  have "map_option (\<lambda>x. if u_id x = i then f x else x) (find (\<lambda>u. u_id u = i) us) =
      map_option f (find (\<lambda>u. u_id u = i) us)" for us
    by (cases "find (\<lambda>u. u_id u = i) us") (auto dest: find_SomeD)
  then show ?thesis by (simp add: account_in_def find_update_where that option.map_comp comp_def)
qed

text \<open>The statement succeeds and reports the transition, as long as the counter is in range.\<close>

lemma failure_refines:
  assumes "account_in i t = Some a" and "ac_failed a < max_int4"
  shows "\<exists>row t'. record_login_failure i lockout_threshold lockout_window now t = (Inr row, t') \<and>
    account_in i t' = Some (fail_account now a) \<and> lf_just_locked row = locks_now now a \<and>
    lf_failed_attempts row = ac_failed (fail_account now a) \<and> lf_locked_until row = ac_locked (fail_account now a)"
proof -
  obtain u where u: "find (\<lambda>u. u_id u = i) (users t) = Some u" "a = account_of u"
    using assms(1) by (auto simp: account_in_def)
  have n: "failed_next (u_failed_attempts u) (u_locked_until u) now \<le> max_int4"
    using assms(2) u(2) by (auto simp: failed_next_def account_of_def max_int4_def)
  then show ?thesis
    using u fail_account_next [of now u]
    by (simp add: record_login_failure_def Let_def account_in_update account_of_def [of "u\<lparr>u_failed_attempts := _\<rparr>"]
        locks_now_def fail_account_next comp_def)
       (simp add: account_of_def)
qed

lemma event_refines:
  assumes "account_in i t = Some a" and "ac_failed a < max_int4"
  shows "account_in i (event_stmt i e now t) = Some (event_account now e a)"
proof (cases e)
  case Failure
  with failure_refines [OF assms, of now] show ?thesis by (auto simp: event_stmt_def)
next
  case Success
  with assms(1) show ?thesis
    by (simp add: event_stmt_def set_user_lock_def account_in_update)
       (auto simp: account_in_def account_of_def fresh_account_def)
next
  case Timing
  with assms(1) show ?thesis
    by (simp add: event_stmt_def touch_user_timing_def account_in_update)
       (auto simp: account_in_def account_of_def)
qed

section \<open>The invariant\<close>

definition account_ok :: "account \<Rightarrow> bool" where
  "account_ok a \<longleftrightarrow> 0 \<le> ac_failed a \<and>
     (case ac_locked a of None \<Rightarrow> ac_failed a < lockout_threshold | Some _ \<Rightarrow> ac_failed a = lockout_threshold)"

lemma fresh_ok [simp]: "account_ok fresh_account"
  by (simp add: account_ok_def fresh_account_def lockout_threshold_def)

lemma event_ok: "account_ok a \<Longrightarrow> account_ok (event_account now e a)"
  by (cases e)
     (auto simp: account_ok_def fail_account_def Let_def fresh_account_def lockout_threshold_def split: option.splits)

lemma account_ok_range: "account_ok a \<Longrightarrow> ac_failed a \<le> 5 \<and> ac_failed a < max_int4"
  by (auto simp: account_ok_def lockout_threshold_def max_int4_def split: option.splits)

section \<open>Guesses\<close>

lemma window_pos [simp]: "0 < lockout_window"
  by (simp add: lockout_window_def duration_defs)

definition windows :: "duration \<Rightarrow> int" where
  "windows d = d div lockout_window"

lemma windows_mono: "a \<le> b \<Longrightarrow> windows a \<le> windows b"
  by (simp add: windows_def zdiv_mono1)

lemma windows_nonneg: "0 \<le> d \<Longrightarrow> 0 \<le> windows d"
  by (simp add: windows_def pos_imp_zdiv_nonneg_iff)

lemma windows_step: "windows (d - lockout_window) + 1 = windows d"
  using div_add_self2 [of lockout_window "d - lockout_window"] window_pos
  by (simp add: windows_def)

definition guess_budget :: "time \<Rightarrow> time \<Rightarrow> account \<Rightarrow> int" where
  "guess_budget s e a =
     (case ac_locked a of
        None \<Rightarrow> 5 - ac_failed a + 5 * windows (e - s)
      | Some u \<Rightarrow> if e < u then 0 else 5 * (windows (e - max u s) + 1))"

lemma guess_budget_step:
  assumes "account_ok a" and "s \<le> t" and "t \<le> e" and "\<not> still_locked (ac_locked a) t"
  shows "1 + guess_budget t e (fail_account t a) \<le> guess_budget s e a"
proof (cases "ac_locked a")
  case None
  have m: "windows (e - t) \<le> windows (e - s)" "0 \<le> windows (e - t)"
    using assms(2,3) by (auto intro: windows_mono windows_nonneg)
  show ?thesis
  proof (cases "ac_failed a = 4")
    case True
    with None have "fail_account t a = \<lparr>ac_failed = 5, ac_locked = Some (t + lockout_window)\<rparr>"
      by (simp add: fail_account_def still_locked_def lockout_threshold_def Let_def)
    moreover have "max (t + lockout_window) t = t + lockout_window" using window_pos by linarith
    moreover have "windows (e - (t + lockout_window)) = windows (e - t) - 1"
      using windows_step [of "e - t"] by (simp add: diff_diff_eq)
    ultimately show ?thesis using None True m by (simp add: guess_budget_def)
  next
    case False
    with None assms(1) have "fail_account t a = \<lparr>ac_failed = ac_failed a + 1, ac_locked = None\<rparr>"
      by (auto simp: fail_account_def still_locked_def lockout_threshold_def Let_def account_ok_def)
    then show ?thesis using None m by (simp add: guess_budget_def)
  qed
next
  case (Some u)
  with assms(4) have "u \<le> t" by (simp add: still_locked_def)
  have "fail_account t a = \<lparr>ac_failed = 1, ac_locked = None\<rparr>"
    using Some assms(4) by (simp add: fail_account_def lockout_threshold_def Let_def)
  moreover have "windows (e - t) \<le> windows (e - max u s)"
    using \<open>u \<le> t\<close> assms(2) by (intro windows_mono) simp
  ultimately show ?thesis using Some \<open>u \<le> t\<close> assms(3) by (simp add: guess_budget_def)
qed

section \<open>Guessing through the login handler\<close>

text \<open>A series of logins served one after the other, with any pauses between them, on a database that may
  fail at any round trip: the world at the end, and the number of those whose password was compared with
  the real hash, counted as a failure, and refused.  (A login whose count fails is answered 500, like one
  with the right password whose reset fails; a guesser learns nothing of it.)\<close>

definition counted :: "world \<Rightarrow> world \<Rightarrow> bool" where
  "counted w w' \<longleftrightarrow> WUpdate ''RecordLoginFailure'' \<in> set (drop (length (w_trace w)) (w_trace w'))"

fun run_logins :: "handler \<Rightarrow> (nat \<times> string \<times> body) list \<Rightarrow> world \<Rightarrow> nat \<times> world" where
  "run_logins h [] w = (0, w)"
| "run_logins h ((pause, rid, b) # as) w =
     (let v = w\<lparr>w_db := w_db w + int pause\<rparr>; (rsp, v') = login h rid b v; (n, w') = run_logins h as v' in
      (if counted v v' \<and> rsp_status rsp = 401 then Suc n else n, w'))"

text \<open>A wrong guess for the user \<open>i\<close> of name \<open>name\<close> and stored hash \<open>ph\<close>.\<close>

definition wrong_guess ::
  "(string \<Rightarrow> string) \<Rightarrow> kdf \<Rightarrow> (string \<Rightarrow> string) \<Rightarrow> string \<Rightarrow> string \<Rightarrow> body \<Rightarrow> bool" where
  "wrong_guess pl kdf ul name ph b \<longleftrightarrow>
     (\<exists>req. decode_login_request b = Some req \<and> pl (to_lower ul (lr_username req)) = name \<and>
        verify_hash kdf (credential_plain (lr_password req)) ph = Inr False)"

definition guess_target :: "(string \<Rightarrow> string) \<Rightarrow> string \<Rightarrow> string \<Rightarrow> account \<Rightarrow> tables \<Rightarrow> bool" where
  "guess_target pl name ph a t \<longleftrightarrow>
     distinct (map u_id (users t)) \<and>
     (\<exists>u. find (\<lambda>u. pl (u_username u) = name) (users t) = Some u \<and> account_of u = a \<and>
        u_status u = ''active'' \<and> u_password_hash u = ph)"

lemma failed_once_account: "account_of (failed_once now u) = fail_account now (account_of u)"
  by (simp add: fail_account_next) (simp add: account_of_def failed_once_def)

lemma timed_target:
  assumes "guess_target pl name ph a t"
  shows "guess_target pl name ph a (snd (touch_user_timing i now t))"
proof -
  obtain u where u: "find (\<lambda>u. pl (u_username u) = name) (users t) = Some u" "account_of u = a"
      "u_status u = ''active''" "u_password_hash u = ph" and d: "distinct (map u_id (users t))"
    using assms by (auto simp: guess_target_def)
  show ?thesis
    using u d by (simp add: guess_target_def touch_user_timing_def map_update_where find_update_where account_of_def)
qed

text \<open>The count of a failure, whether its answer arrives or not.\<close>

lemma counted_target:
  assumes "guess_target pl name ph a t" and "find (\<lambda>u. pl (u_username u) = name) (users t) = Some u"
    and "account_ok a" and "record_login_failure (u_id u) lockout_threshold lockout_window now t = (r, t')"
  shows "guess_target pl name ph (fail_account now a) t'" and "\<exists>x. r = Inr x"
proof -
  have u: "account_of u = a" "u_status u = ''active''" "u_password_hash u = ph" "distinct (map u_id (users t))"
    using assms(1,2) by (auto simp: guess_target_def)
  have f: "find (\<lambda>v. u_id v = u_id u) (users t) = Some u"
    using find_unique [OF u(4)] find_SomeD [OF assms(2)] by blast
  have n: "failed_next (u_failed_attempts u) (u_locked_until u) now \<le> max_int4"
    using account_ok_range [OF assms(3)] u(1) by (auto simp: failed_next_def account_of_def max_int4_def)
  have t': "t' = t\<lparr>users := update_where (\<lambda>v. u_id v = u_id u)
      (\<lambda>v. v\<lparr>u_failed_attempts := failed_next (u_failed_attempts u) (u_locked_until u) now,
         u_locked_until := locked_next lockout_threshold lockout_window (u_failed_attempts u) (u_locked_until u) now,
         u_updated_at := now\<rparr>) (users t)\<rparr>"
    using assms(4) f n by (simp add: record_login_failure_def Let_def)
  show "guess_target pl name ph (fail_account now a) t'"
    unfolding t' using assms(2) u failed_once_account [of now u]
    by (simp add: guess_target_def map_update_where find_update_where failed_once_def)
  show "\<exists>x. r = Inr x" using assms(4) f n by (auto simp: record_login_failure_def Let_def)
qed

text \<open>What one wrong guess does, whatever fails: it is not counted, or it was made on an unlocked account and
  counted at the time \<open>n\<close>.\<close>

definition guess_done ::
  "(string \<Rightarrow> string) \<Rightarrow> string \<Rightarrow> string \<Rightarrow> account \<Rightarrow> world \<Rightarrow> bool \<Rightarrow> world \<Rightarrow> bool" where
  "guess_done pl name ph a w c w' \<longleftrightarrow>
     (\<exists>n. w_db w \<le> n \<and> n \<le> w_db w' \<and>
        (guess_target pl name ph a (w_tabs w') \<and> \<not> c \<or>
         guess_target pl name ph (fail_account n a) (w_tabs w') \<and> \<not> still_locked (ac_locked a) n))"

lemma guess_later:
  assumes "guess_done pl name ph a v c w'" and "w_db w \<le> w_db v" and "b \<Longrightarrow> c"
  shows "guess_done pl name ph a w b w'"
  using assms unfolding guess_done_def by (meson order_trans)

lemma exec_stmt_clock: "exec_stmt k st w = (r, w') \<Longrightarrow> w_db w \<le> w_db w'"
  by (erule exec_stmt_outcome) simp

lemma dummy_trace:
  "\<exists>es. did es w (snd (dummy_verify kdf d pw w)) \<and> WUpdate ''RecordLoginFailure'' \<notin> set es"
  by (intro exI [of _ "if parses d then [WArgon2] else []"])
     (simp add: dummy_verify_def verify_run_simps did_def emit_def)

text \<open>The timing write after a dummy run leaves the account as it was and counts nothing.\<close>

lemma touch_guess:
  assumes "touch_and_reject (new_handler pl kdf d ul) i w = (r, w')" and "guess_target pl name ph a (w_tabs w)"
  shows "guess_target pl name ph a (w_tabs w')" and "w_db w \<le> w_db w'" and "did [WUpdate ''TouchUserTiming''] w w'"
proof -
  obtain q where e: "exec_stmt (WUpdate ''TouchUserTiming'') (touch_user_timing i) w = (q, w')"
    using assms(1) by (auto simp: touch_and_reject_def db_touch_user_timing_def split: prod.splits sum.splits)
  have "guess_target pl name ph a (w_tabs w') \<and> w_db w \<le> w_db w'"
    using e
  proof (rule exec_stmt_outcome)
    fix now b t
    assume o: "w_db w \<le> now" "touch_user_timing i now (w_tabs w) = (b, t)" "w_db w' = now"
      "q = b \<and> w_tabs w' = t \<or> (\<exists>e. q = Inl e \<and> (w_tabs w' = w_tabs w \<or> w_tabs w' = t))"
    have "guess_target pl name ph a t"
      using timed_target [OF assms(2), of i now] by (simp add: o(2))
    with o assms(2) show ?thesis by auto
  qed
  then show "guess_target pl name ph a (w_tabs w')" and "w_db w \<le> w_db w'" by simp_all
  show "did [WUpdate ''TouchUserTiming''] w w'" using e by (rule did_exec)
qed

lemma count_guess:
  assumes "count_and_reject (new_handler pl kdf d ul) rid (u_id u) w = (r, w')"
    and "guess_target pl name ph a (w_tabs w)" and "find (\<lambda>u. pl (u_username u) = name) (users (w_tabs w)) = Some u"
    and "account_ok a" and "\<not> still_locked (ac_locked a) (w_db w)"
  shows "guess_done pl name ph a w (\<exists>x. r = Inr x) w'"
proof -
  obtain q v where e: "exec_stmt (WUpdate ''RecordLoginFailure'')
      (record_login_failure (u_id u) lockout_threshold lockout_window) w = (q, v)"
    and r: "(\<exists>x. r = Inr x) \<longleftrightarrow> (\<exists>x. q = Inr x)" and v: "w_tabs w' = w_tabs v" "w_db w' = w_db v"
    using assms(1)
    by (auto simp: count_and_reject_def db_record_login_failure_def window_micros log_account_locked_def
        split: prod.splits sum.splits if_splits)
  show ?thesis
    using e
  proof (rule exec_stmt_outcome)
    fix now b t
    assume o: "w_db w \<le> now" "record_login_failure (u_id u) lockout_threshold lockout_window now (w_tabs w) = (b, t)"
      "w_db v = now" "q = b \<and> w_tabs v = t \<or> (\<exists>e. q = Inl e \<and> (w_tabs v = w_tabs w \<or> w_tabs v = t))"
    note c = counted_target [OF assms(2-4) o(2)]
    have "\<not> still_locked (ac_locked a) now"
      using assms(5) o(1) by (auto simp: still_locked_def split: option.splits)
    with c o r v assms(2) show ?thesis by (auto simp: guess_done_def)
  qed
qed

lemma wrong_guess_step:
  assumes "guess_target pl name ph a (w_tabs w)" and "wrong_guess pl kdf ul name ph b" and "account_ok a"
    and "login (new_handler pl kdf d ul) rid b w = (rsp, w')"
  shows "guess_done pl name ph a w (counted w w' \<and> rsp_status rsp = 401) w'"
proof -
  obtain req where req: "decode_login_request b = Some req" "pl (to_lower ul (lr_username req)) = name"
      "verify_hash kdf (credential_plain (lr_password req)) ph = Inr False"
    using assms(2) by (auto simp: wrong_guess_def)
  obtain u where u: "find (\<lambda>u. pl (u_username u) = name) (users (w_tabs w)) = Some u" "account_of u = a"
      "u_status u = ''active''" "u_password_hash u = ph"
    using assms(1) by (auto simp: guess_target_def)
  let ?h = "new_handler pl kdf d ul" and ?pw = "credential_plain (lr_password req)"
  obtain r v where c: "verify_credentials ?h rid (lr_username req) (lr_password req) w = (r, v)" by force
  have l: "h_limiter ?h = noop_rate_limiter" by (simp add: new_handler_def)
  obtain f v1 where lk: "db_user_by_username pl (to_lower ul (lr_username req)) w = (f, v1)" by force
  note read = exec_stmt_read_only [OF read_only_queries(1) lk [unfolded db_user_by_username_def]]
  have v1: "w_tabs v1 = w_tabs w" "w_db w \<le> w_db v1" "did [WSelect ''GetUserByUsername''] w v1"
    using read exec_stmt_clock [OF lk [unfolded db_user_by_username_def]]
      did_exec [OF lk [unfolded db_user_by_username_def]] by simp_all
  have uncounted: "guess_done pl name ph a w (counted w v \<and> r = Inr None) v"
    if "touch_and_reject ?h i (snd (dummy_verify kdf d ?pw v1)) = (r, v)" for i
  proof -
    let ?x = "snd (dummy_verify kdf d ?pw v1)"
    have x: "guess_target pl name ph a (w_tabs ?x)" "w_db ?x = w_db v1"
      using assms(1) v1(1) by (simp_all add: verify_run_frame)
    obtain es where "did es v1 ?x" "WUpdate ''RecordLoginFailure'' \<notin> set es" using dummy_trace by blast
    then have "\<not> counted w v"
      using v1(3) touch_guess(3) [OF that x(1)] by (auto simp: did_def counted_def)
    then show ?thesis using touch_guess(1,2) [OF that x(1)] x(2) v1(2) by (auto simp: guess_done_def)
  qed
  have ended: "guess_done pl name ph a w (counted w v \<and> r = Inr None) v \<and> (\<forall>x. r \<noteq> Inr (Some x))"
  proof (cases f)
    case (Inl e)
    show ?thesis
    proof (cases "err_is ErrNoRows e")
      case True
      then have t: "touch_and_reject ?h zero_uuid (snd (dummy_verify kdf d ?pw v1)) = (r, v)"
        using c lk Inl by (simp add: verify_credentials_def)
      then have "\<forall>x. r \<noteq> Inr (Some x)" by (auto simp: touch_and_reject_def split: prod.splits sum.splits)
      with uncounted [OF t] show ?thesis by simp
    next
      case False
      then have "r = Inl e" "v = v1" using c lk Inl by (simp_all add: verify_credentials_def)
      then show ?thesis using v1 assms(1) by (auto simp: guess_done_def)
    qed
  next
    case (Inr q)
    have q: "q = with_db_now u (w_db v1)"
      using lk req(2) u(1) unfolding Inr db_user_by_username_def
      by (elim exec_stmt_Inr) (simp add: get_user_by_username_def one_row_def)
    have k: "check_user ?h rid q ?pw v1 = (r, v)" using c lk Inr by (simp add: verify_credentials_def)
    show ?thesis
    proof (cases "still_locked (u_locked_until u) (w_db v1)")
      case True
      then have t: "touch_and_reject ?h (u_id u) (snd (dummy_verify kdf d ?pw v1)) = (r, v)"
        using k q by (simp add: check_user_def)
      then have "\<forall>x. r \<noteq> Inr (Some x)" by (auto simp: touch_and_reject_def split: prod.splits sum.splits)
      with uncounted [OF t] show ?thesis by simp
    next
      case False
      have p: "parses ph" using req(3) verify_hash_error_iff [of kdf ?pw ph] by auto
      have "verify_run kdf ?pw ph v1 = (Inr False, emit WArgon2 v1)"
        using p req(3) by (auto simp: verify_run_def parses_def split: sum.splits)
      then have t: "count_and_reject ?h rid (u_id u) (emit WArgon2 v1) = (r, v)"
        using k q False u(3,4) by (simp add: check_user_def user_status_active_def)
      have g: "guess_done pl name ph a (emit WArgon2 v1) (\<exists>x. r = Inr x) v"
        by (rule count_guess [OF t _ _ assms(3)]) (use assms(1) u(1,2) v1(1) False in \<open>auto simp: account_of_def\<close>)
      have "guess_done pl name ph a w (counted w v \<and> r = Inr None) v"
        by (rule guess_later [OF g]) (use v1(2) in auto)
      moreover have "\<forall>x. r \<noteq> Inr (Some x)" using t by (auto simp: count_and_reject_def split: prod.splits sum.splits)
      ultimately show ?thesis by simp
    qed
  qed
  show ?thesis
  proof (cases r)
    case (Inl e)
    then have "rsp_status rsp = 500" "w_tabs w' = w_tabs v" "w_db w' = w_db v"
      using assms(4) c req(1) by (auto simp: login_def l noop_rate_limiter_def log_internal_error_def internal_error_def auth_write_error_def)
    with ended Inl show ?thesis by (auto simp: guess_done_def)
  next
    case (Inr y)
    with ended have "r = Inr None" by (cases y) auto
    then have "w' = v" using assms(4) c req(1) by (auto simp: login_def l noop_rate_limiter_def)
    with ended \<open>r = Inr None\<close> show ?thesis by (auto simp: guess_done_def)
  qed
qed

text \<open>A series of guesses, by the budget of the time it takes.\<close>

lemma guess_budget_later: "s \<le> t \<Longrightarrow> t \<le> e \<Longrightarrow> account_ok a \<Longrightarrow> guess_budget t e a \<le> guess_budget s e a"
  using windows_mono [of "e - t" "e - s"] windows_mono [of "e - max u t" "e - max u s" for u]
  by (auto simp: guess_budget_def split: option.splits)

lemma run_logins_bound:
  assumes "guess_target pl name ph a (w_tabs w)" and "account_ok a"
    and "\<forall>(p, rid, b) \<in> set as. wrong_guess pl kdf ul name ph b"
    and "run_logins (new_handler pl kdf d ul) as w = (n, w')"
  shows "w_db w \<le> w_db w' \<and> int n \<le> guess_budget (w_db w) (w_db w') a"
  using assms
proof (induction as arbitrary: a w n)
  case Nil
  then show ?case
    by (auto simp: guess_budget_def account_ok_def lockout_threshold_def windows_nonneg split: option.splits)
next
  case (Cons x as)
  obtain p rid b where x: "x = (p, rid, b)" by (cases x)
  let ?v = "w\<lparr>w_db := w_db w + int p\<rparr>"
  obtain rsp v' m where l: "login (new_handler pl kdf d ul) rid b ?v = (rsp, v')"
    and m: "run_logins (new_handler pl kdf d ul) as v' = (m, w')"
    and n: "n = (if counted ?v v' \<and> rsp_status rsp = 401 then Suc m else m)"
    using Cons.prems(4) by (auto simp: x Let_def split: prod.splits if_splits)
  have b: "wrong_guess pl kdf ul name ph b" and rest: "\<forall>(p, rid, b) \<in> set as. wrong_guess pl kdf ul name ph b"
    using Cons.prems(3) by (auto simp: x)
  have "guess_target pl name ph a (w_tabs ?v)" using Cons.prems(1) by simp
  from guess_later [OF wrong_guess_step [OF this b Cons.prems(2) l], of w] obtain t where
    t: "w_db w \<le> t" "t \<le> w_db v'"
    and g: "guess_target pl name ph a (w_tabs v') \<and> \<not> (counted ?v v' \<and> rsp_status rsp = 401) \<or>
      guess_target pl name ph (fail_account t a) (w_tabs v') \<and> \<not> still_locked (ac_locked a) t"
    by (auto simp: guess_done_def)
  from g n have st: "guess_target pl name ph a (w_tabs v') \<and> n = m \<or>
      guess_target pl name ph (fail_account t a) (w_tabs v') \<and> \<not> still_locked (ac_locked a) t \<and> n \<le> Suc m"
    by auto
  from st show ?case
  proof
    assume s: "guess_target pl name ph a (w_tabs v') \<and> n = m"
    have ih: "w_db v' \<le> w_db w'" "int m \<le> guess_budget (w_db v') (w_db w') a"
      using Cons.IH [OF _ Cons.prems(2) rest m] s by auto
    have "guess_budget (w_db v') (w_db w') a \<le> guess_budget (w_db w) (w_db w') a"
      by (rule guess_budget_later) (use t ih(1) Cons.prems(2) in auto)
    with ih s t show ?thesis by simp
  next
    assume s: "guess_target pl name ph (fail_account t a) (w_tabs v') \<and> \<not> still_locked (ac_locked a) t \<and> n \<le> Suc m"
    have ok: "account_ok (fail_account t a)" using event_ok [of a t Failure] Cons.prems(2) by simp
    have ih: "w_db v' \<le> w_db w'" "int m \<le> guess_budget (w_db v') (w_db w') (fail_account t a)"
      using Cons.IH [OF _ ok rest m] s by auto
    have "guess_budget (w_db v') (w_db w') (fail_account t a) \<le> guess_budget t (w_db w') (fail_account t a)"
      by (rule guess_budget_later) (use t ih(1) ok in auto)
    moreover have "1 + guess_budget t (w_db w') (fail_account t a) \<le> guess_budget (w_db w) (w_db w') a"
      by (rule guess_budget_step) (use s t ih(1) Cons.prems(2) in auto)
    ultimately show ?thesis using ih s t by simp
  qed
qed
lemma guess_budget_windows:
  assumes "account_ok a" and "s \<le> e"
  shows "guess_budget s e a \<le> 5 * (windows (e - s) + 1)"
proof (cases "ac_locked a")
  case None
  with assms(1) show ?thesis by (simp add: guess_budget_def account_ok_def)
next
  case (Some u)
  have "windows (e - max u s) \<le> windows (e - s)" by (rule windows_mono) simp
  with Some assms(2) show ?thesis using windows_nonneg [of "e - s"] by (simp add: guess_budget_def)
qed

lemma run_events_refine:
  assumes "account_in i t = Some a" and "account_ok a"
  shows "account_in i (fold (\<lambda>(now, e). event_stmt i e now) es t) = Some (run_events es a) \<and>
    account_ok (run_events es a)"
  using assms
proof (induction es arbitrary: a t)
  case (Cons x es)
  obtain now e where x: "x = (now, e)" by (cases x)
  from event_refines [OF Cons.prems(1), of e now] account_ok_range [OF Cons.prems(2)]
  have "account_in i (event_stmt i e now t) = Some (event_account now e a)" by simp
  from Cons.IH [OF this event_ok [OF Cons.prems(2)]] show ?case by (simp add: x)
qed simp

lemma locked_frozen:
  assumes "ac_locked a = Some u" and "\<forall>(now, e) \<in> set es. now < u \<and> e \<noteq> Success"
  shows "run_events es a = a \<and> lock_logs es a = 0"
  using assms(2)
proof (induction es)
  case (Cons x es)
  obtain now e where x: "x = (now, e)" by (cases x)
  with Cons.prems have e: "now < u" "e \<noteq> Success" by auto
  then have "event_account now e a = a" "\<not> locks_now now a"
    using assms(1) by (cases e; simp add: fail_account_def still_locked_def locks_now_def)+
  with Cons x show ?case by simp
qed simp

section \<open>The properties\<close>

text \<open>C30: in every interleaving of counted failures, successes and timing writes on a user's row, at any
  times, the statements keep to the abstract machine: the row's counter and lock are those of the
  machine, an unlocked account has fewer than five failures, a locked one exactly five, so that the
  counter can never overflow.\<close>

theorem lockout_refines:
  assumes "account_in i t = Some a" and "account_ok a"
  shows "account_in i (fold (\<lambda>(now, e). event_stmt i e now) es t) = Some (run_events es a) \<and>
    0 \<le> ac_failed (run_events es a) \<and> ac_failed (run_events es a) \<le> 5 \<and>
    (ac_failed (run_events es a) = 5 \<longleftrightarrow> ac_locked (run_events es a) \<noteq> None)"
  using run_events_refine [OF assms, of es]
  by (auto simp: account_ok_def lockout_threshold_def split: option.splits)

corollary lockout_refines_witness:
  "account_in alice_id (fold (\<lambda>(now, e). event_stmt alice_id e now) [(1, Failure), (2, Timing), (3, Failure)] toy_tables) =
     Some \<lparr>ac_failed = 2, ac_locked = None\<rparr>"
proof -
  have "account_in alice_id toy_tables = Some fresh_account"
    by (simp add: account_in_def account_of_def fresh_account_def)
  from lockout_refines [OF this fresh_ok, of "[(1, Failure), (2, Timing), (3, Failure)]"]
  show ?thesis
    by (simp add: fail_account_def fresh_account_def still_locked_def lockout_threshold_def Let_def)
qed

text \<open>One lockout, one window, one log line.  From the failure that locks the account, and until the
  fifteen minutes are over, no number of concurrent failures and timing writes changes the counter,
  moves the end of the lock or logs a second lockout; only a successful login ends it sooner.\<close>

theorem lockout_window_fixed:
  assumes "locks_now t a" and "\<forall>(now, e) \<in> set es. now < t + 15 * minute \<and> e \<noteq> Success"
  shows "run_events ((t, Failure) # es) a = \<lparr>ac_failed = ac_failed (fail_account t a), ac_locked = Some (t + 15 * minute)\<rparr> \<and>
    lock_logs ((t, Failure) # es) a = 1"
proof -
  have "ac_locked (fail_account t a) = Some (t + 15 * minute)"
    using assms(1) by (auto simp: locks_now_def fail_account_def Let_def lockout_window_def split: if_splits)
  from locked_frozen [OF this, of es] assms this show ?thesis by (cases "fail_account t a") simp
qed

corollary lockout_window_fixed_witness:
  "run_events [(0, Failure), (1, Failure), (2, Timing)] \<lparr>ac_failed = 4, ac_locked = None\<rparr> =
     \<lparr>ac_failed = 5, ac_locked = Some (15 * minute)\<rparr>"
proof -
  have "locks_now 0 \<lparr>ac_failed = 4, ac_locked = None\<rparr>"
    by (simp add: locks_now_def fail_account_def still_locked_def lockout_threshold_def Let_def)
  from lockout_window_fixed [OF this, of "[(1, Failure), (2, Timing)]"]
  show ?thesis by (simp add: fail_account_def still_locked_def lockout_threshold_def duration_defs)
qed

text \<open>C13: brute force is bounded, whatever fails.  In any series of logins with wrong passwords for one
  active account, served one after the other with any pauses, and with any failure at any round trip, at
  most five per started quarter of an hour are compared with the account's hash and answered with a
  refusal.  The others are turned away at the lock, or are answered 500 because a round trip failed;
  such an answer does not tell a wrong password from a right one.\<close>

theorem guess_rate_bound:
  assumes "guess_target pl name ph a (w_tabs w)" and "account_ok a"
    and "\<forall>(pause, rid, b) \<in> set as. wrong_guess pl kdf ul name ph b"
    and "run_logins (new_handler pl kdf d ul) as w = (n, w')"
  shows "int n \<le> 5 * ((w_db w' - w_db w) div (15 * minute) + 1)"
proof -
  have "int n \<le> guess_budget (w_db w) (w_db w') a" and "w_db w \<le> w_db w'"
    using run_logins_bound [OF assms] by simp_all
  with guess_budget_windows [OF assms(2), of "w_db w" "w_db w'"]
  show ?thesis by (simp add: windows_def lockout_window_def)
qed

corollary guess_rate_bound_witness:
  "\<exists>n w'. run_logins toy_handler (replicate 100 (1, ''r'', toy_wrong_body))
       (toy_world\<lparr>w_script := [(7, NoFault), (8, NoFault), (9, FailBefore (PgError ''57P01''))]\<rparr>) = (n, w') \<and>
     int n \<le> 5 * ((w_db w' - w_db toy_world) div (15 * minute) + 1)"
proof -
  let ?w = "toy_world\<lparr>w_script := [(7, NoFault), (8, NoFault), (9, FailBefore (PgError ''57P01''))]\<rparr>"
  obtain n w' where r: "run_logins toy_handler (replicate 100 (1, ''r'', toy_wrong_body)) ?w = (n, w')" by force
  have g: "guess_target (\<lambda>s. s) ''alice'' (toy_hash ''secret'') fresh_account (w_tabs ?w)"
    by (simp add: guess_target_def account_of_def fresh_account_def)
  have b: "\<forall>(p, rid, b) \<in> set (replicate 100 (1, ''r'', toy_wrong_body)).
      wrong_guess (\<lambda>s. s) toy_kdf (\<lambda>s. s) ''alice'' (toy_hash ''secret'') b"
    by (simp add: wrong_guess_def toy_wrong_body_decodes toy_lower_alice)
  from guess_rate_bound [OF g fresh_ok b r [unfolded toy_handler_def]] r show ?thesis by simp
qed

end
