(* ===== verification/RefreshConc.thy ===== *)
theory RefreshConc
  imports Refresh
begin

text \<open>
  Concurrent requests of \<^verbatim>\<open>rotateRefresh\<close> (\<^verbatim>\<open>internal/modules/auth/refresh.go\<close>), statement by statement.
  Theory Refresh runs one transaction from start to end; here any number of them are interleaved by
  the database at READ COMMITTED: a statement sees the committed tables and the writes of its own
  transaction, writes become visible at the commit, and a statement that needs a lock somebody else
  holds waits.  Locks are the advisory lock of the token family, row locks, and the claims an
  uncommitted insertion has on the keys of the unique indexes; all of them are held to the end of the
  transaction.
\<close>

section \<open>Locks, writes, transactions\<close>

datatype lock =
    FamilyLock int
  | RowLock uuid
  | TokenIdClaim uuid
  | SelectorClaim string
  | AccessIdClaim uuid
  | HashClaim bytes

datatype change =
    PutUsed uuid time
  | PutRevoked "uuid list" time
  | PutRefresh refresh_row
  | PutAccess access_row

fun apply_change :: "change \<Rightarrow> tables \<Rightarrow> tables" where
  "apply_change (PutUsed i t) c = marked i t c"
| "apply_change (PutRevoked ids t) c =
     c\<lparr>refresh_tokens := update_where (\<lambda>r. rt_id r \<in> set ids) (\<lambda>r. r\<lparr>rt_revoked_at := Some t\<rparr>) (refresh_tokens c)\<rparr>"
| "apply_change (PutRefresh r) c = c\<lparr>refresh_tokens := refresh_tokens c @ [r]\<rparr>"
| "apply_change (PutAccess a) c = c\<lparr>access_tokens := access_tokens c @ [a]\<rparr>"

text \<open>Where a request stands, with the local variables of \<^verbatim>\<open>rotateRefresh\<close> that are still needed.\<close>

datatype stage =
    Arrived
  | Begun
  | Preread refresh_row
  | FamilyHeld refresh_row
  | RowHeld refresh_now_row
  | Replaying refresh_now_row
  | Looking refresh_now_row time
  | Marking refresh_now_row time
  | InsertingRefresh refresh_now_row access_token refresh_token time
  | InsertingAccess refresh_now_row access_token refresh_token time
  | Committing refresh_now_row "login_session option"
  | Finished "gerr + login_session option"

type_synonym pid = nat

record txn =
  t_stage :: stage
  t_start :: time
  t_writes :: "change list"

record sys =
  s_tabs :: tables
  s_db :: time
  s_locks :: "lock \<Rightarrow> pid option"
  s_txn :: "pid \<Rightarrow> txn"

definition view :: "txn \<Rightarrow> tables \<Rightarrow> tables" where
  "view t c = fold apply_change (t_writes t) c"

definition goto :: "pid \<Rightarrow> stage \<Rightarrow> sys \<Rightarrow> sys" where
  "goto p st s = s\<lparr>s_txn := (s_txn s)(p := (s_txn s p)\<lparr>t_stage := st\<rparr>)\<rparr>"

definition writes :: "pid \<Rightarrow> change \<Rightarrow> sys \<Rightarrow> sys" where
  "writes p x s = s\<lparr>s_txn := (s_txn s)(p := (s_txn s p)\<lparr>t_writes := t_writes (s_txn s p) @ [x]\<rparr>)\<rparr>"

text \<open>All the locks at once, or waiting.\<close>

definition takes :: "pid \<Rightarrow> lock list \<Rightarrow> sys \<Rightarrow> sys option" where
  "takes p ks s =
     (if list_all (\<lambda>k. s_locks s k = None \<or> s_locks s k = Some p) ks
      then Some (s\<lparr>s_locks := (\<lambda>k. if k \<in> set ks then Some p else s_locks s k)\<rparr>)
      else None)"

text \<open>The end of a transaction: its locks go, and so do the writes that were not committed.\<close>

definition finish :: "pid \<Rightarrow> gerr + login_session option \<Rightarrow> sys \<Rightarrow> sys" where
  "finish p out s =
     s\<lparr>s_locks := (\<lambda>k. if s_locks s k = Some p then None else s_locks s k),
       s_txn := (s_txn s)(p := (s_txn s p)\<lparr>t_stage := Finished out, t_writes := []\<rparr>)\<rparr>"

section \<open>The statements\<close>

text \<open>What the surroundings decide at a step: whether the round trip fails, the application's clock, the
  id the database makes up, the random bytes of the tokens.\<close>

record draw =
  dr_fault :: fault
  dr_now :: time
  dr_id :: uuid
  dr_raw :: bytes
  dr_sel :: bytes
  dr_ver :: bytes

definition valid_draw :: "draw \<Rightarrow> bool" where
  "valid_draw d \<longleftrightarrow> length (dr_raw d) = 32 \<and> length (dr_sel d) = 16 \<and> length (dr_ver d) = 16"

definition step_begin :: "pid \<Rightarrow> sys \<Rightarrow> sys option" where
  "step_begin p s = Some (s\<lparr>s_txn := (s_txn s)(p := \<lparr>t_stage = Begun, t_start = s_db s, t_writes = []\<rparr>)\<rparr>)"

definition step_preread :: "string \<Rightarrow> pid \<Rightarrow> sys \<Rightarrow> sys option" where
  "step_preread sel p s =
     (case fst (get_refresh_token_by_selector sel (t_start (s_txn s p)) (view (s_txn s p) (s_tabs s))) of
        Inl e \<Rightarrow> Some (finish p (if err_is ErrNoRows e then Inr None else Inl e) s)
      | Inr pre \<Rightarrow> Some (goto p (Preread pre) s))"

text \<open>\<open>lk\<close> is PostgreSQL's hash of a family into the space of the advisory locks; families may share a
  lock.\<close>

definition step_family :: "(uuid \<Rightarrow> int) \<Rightarrow> refresh_row \<Rightarrow> pid \<Rightarrow> sys \<Rightarrow> sys option" where
  "step_family lk pre p s =
     map_option (goto p (FamilyHeld pre)) (takes p [FamilyLock (lk (rt_token_family pre))] s)"

definition step_row :: "string \<Rightarrow> pid \<Rightarrow> sys \<Rightarrow> sys option" where
  "step_row sel p s =
     (case fst (get_refresh_token_by_selector_for_update sel (t_start (s_txn s p))
             (view (s_txn s p) (s_tabs s))) of
        Inl e \<Rightarrow> Some (finish p (if err_is ErrNoRows e then Inr None else Inl e) s)
      | Inr row \<Rightarrow> map_option (goto p (RowHeld row)) (takes p [RowLock (rt_id row)] s))"

text \<open>Steps 4 to 7, all local.\<close>

definition step_decide :: "string \<Rightarrow> time \<Rightarrow> refresh_now_row \<Rightarrow> pid \<Rightarrow> sys \<Rightarrow> sys option" where
  "step_decide ver now row p s =
     Some (case raw_url_dec ver of
         None \<Rightarrow> finish p (Inr None) s
       | Some raw \<Rightarrow>
           if \<not> constant_time_eq (sha256 raw) (rt_verifier_hash row) then finish p (Inr None) s
           else if rt_revoked_at row \<noteq> None then finish p (Inr None) s
           else (case rt_used_at row of
               Some t \<Rightarrow> if used_recently row t then finish p (Inr None) s else goto p (Replaying row) s
             | None \<Rightarrow>
                 if expired (rt_expires_at row) now then finish p (Inr None) s
                 else goto p (Looking row now) s))"

definition step_user :: "refresh_now_row \<Rightarrow> time \<Rightarrow> pid \<Rightarrow> sys \<Rightarrow> sys option" where
  "step_user row now p s =
     (case fst (get_user_by_id (rt_user_id row) (t_start (s_txn s p)) (view (s_txn s p) (s_tabs s))) of
        Inl e \<Rightarrow> Some (finish p (if err_is ErrNoRows e then Inr None else Inl e) s)
      | Inr u \<Rightarrow>
          if u_status u \<noteq> user_status_active then Some (finish p (Inr None) s)
          else Some (goto p (Marking row now) s))"

text \<open>The update of the old token, and the minting of the new ones, which nobody else sees.\<close>

definition step_mark :: "draw \<Rightarrow> refresh_now_row \<Rightarrow> time \<Rightarrow> pid \<Rightarrow> sys \<Rightarrow> sys option" where
  "step_mark d row now p s =
     map_option
       (\<lambda>s. goto p (InsertingRefresh row (access_of (dr_raw d)) (refresh_of (dr_sel d) (dr_ver d)) now)
              (writes p (PutUsed (rt_id row) (t_start (s_txn s p))) s))
       (takes p [RowLock (rt_id row)] s)"

definition step_insert_refresh ::
  "uuid \<Rightarrow> refresh_now_row \<Rightarrow> access_token \<Rightarrow> refresh_token \<Rightarrow> time \<Rightarrow> pid \<Rightarrow> sys \<Rightarrow> sys option" where
  "step_insert_refresh i row a r now p s =
     (let arg = sr_refresh (rotation_rows row a r now) in
      case takes p [TokenIdClaim i, SelectorClaim (ir_selector arg)] s of
        None \<Rightarrow> None
      | Some s1 \<Rightarrow>
          (case fst (insert_refresh_token i arg (t_start (s_txn s p)) (view (s_txn s p) (s_tabs s))) of
             Inl e \<Rightarrow> Some (finish p (Inl e) s1)
           | Inr x \<Rightarrow> Some (goto p (InsertingAccess row a r now) (writes p (PutRefresh x) s1))))"

definition step_insert_access ::
  "uuid \<Rightarrow> refresh_now_row \<Rightarrow> access_token \<Rightarrow> refresh_token \<Rightarrow> time \<Rightarrow> pid \<Rightarrow> sys \<Rightarrow> sys option" where
  "step_insert_access i row a r now p s =
     (let arg = sr_access (rotation_rows row a r now) in
      case takes p [AccessIdClaim i, HashClaim (ia_token_hash arg)] s of
        None \<Rightarrow> None
      | Some s1 \<Rightarrow>
          (case fst (insert_access_token i arg (t_start (s_txn s p)) (view (s_txn s p) (s_tabs s))) of
             Inl e \<Rightarrow> Some (finish p (Inl e) s1)
           | Inr x \<Rightarrow>
               Some (goto p (Committing row (Some (session_of (rt_user_id row) a r now)))
                       (writes p (PutAccess x) s1))))"

text \<open>The rows the family-wide \<^verbatim>\<open>UPDATE\<close> finds, each of which it locks.\<close>

definition live_ids :: "uuid \<Rightarrow> tables \<Rightarrow> uuid list" where
  "live_ids f c = map rt_id (filter (\<lambda>r. rt_token_family r = f \<and> rt_revoked_at r = None) (refresh_tokens c))"

definition step_revoke :: "refresh_now_row \<Rightarrow> pid \<Rightarrow> sys \<Rightarrow> sys option" where
  "step_revoke row p s =
     (let ids = live_ids (rt_token_family row) (view (s_txn s p) (s_tabs s)) in
      map_option (\<lambda>s. goto p (Committing row None) (writes p (PutRevoked ids (t_start (s_txn s p))) s))
        (takes p (map RowLock ids) s))"

definition commit :: "pid \<Rightarrow> sys \<Rightarrow> sys" where
  "commit p s = s\<lparr>s_tabs := view (s_txn s p) (s_tabs s)\<rparr>"

definition tx_run :: "(uuid \<Rightarrow> int) \<Rightarrow> string \<times> string \<Rightarrow> draw \<Rightarrow> pid \<Rightarrow> sys \<Rightarrow> sys option" where
  "tx_run lk rq d p s =
     (case t_stage (s_txn s p) of
        Arrived \<Rightarrow> step_begin p s
      | Begun \<Rightarrow> step_preread (fst rq) p s
      | Preread pre \<Rightarrow> step_family lk pre p s
      | FamilyHeld pre \<Rightarrow> step_row (fst rq) p s
      | RowHeld row \<Rightarrow> step_decide (snd rq) (dr_now d) row p s
      | Replaying row \<Rightarrow> step_revoke row p s
      | Looking row now \<Rightarrow> step_user row now p s
      | Marking row now \<Rightarrow> step_mark d row now p s
      | InsertingRefresh row a r now \<Rightarrow> step_insert_refresh (dr_id d) row a r now p s
      | InsertingAccess row a r now \<Rightarrow> step_insert_access (dr_id d) row a r now p s
      | Committing row out \<Rightarrow> Some (finish p (Inr out) (commit p s))
      | Finished _ \<Rightarrow> None)"

text \<open>One step of the request \<open>p\<close>, \<^const>\<open>None\<close> while it waits; any step may fail, a commit also after it took
  effect.\<close>

definition tx_next :: "(uuid \<Rightarrow> int) \<Rightarrow> string \<times> string \<Rightarrow> draw \<Rightarrow> pid \<Rightarrow> sys \<Rightarrow> sys option" where
  "tx_next lk rq d p s =
     (case t_stage (s_txn s p) of
        Finished _ \<Rightarrow> None
      | st \<Rightarrow>
          (case dr_fault d of
             NoFault \<Rightarrow> tx_run lk rq d p s
           | FailBefore e \<Rightarrow> Some (finish p (Inl e) s)
           | FailAfter e \<Rightarrow>
               (case st of
                  Committing row out \<Rightarrow> Some (finish p (Inl e) (commit p s))
                | _ \<Rightarrow> Some (finish p (Inl e) s))))"

section \<open>The system\<close>

text \<open>Logins put new rows in, of a family of their own; other requests and operators change users (nobody
  is deleted), access tokens and events, but no refresh token.\<close>

definition login_rows :: "refresh_row \<Rightarrow> access_row \<Rightarrow> sys \<Rightarrow> bool" where
  "login_rows r a s \<longleftrightarrow>
     (\<forall>q \<in> set (refresh_tokens (s_tabs s)).
        rt_id q \<noteq> rt_id r \<and> rt_selector q \<noteq> rt_selector r \<and> rt_token_family q \<noteq> rt_token_family r) \<and>
     (\<forall>q \<in> set (access_tokens (s_tabs s)). at_id q \<noteq> at_id a \<and> at_token_hash q \<noteq> at_token_hash a) \<and>
     rt_used_at r = None \<and> rt_revoked_at r = None \<and>
     list_all (\<lambda>k. s_locks s k = None)
       [TokenIdClaim (rt_id r), SelectorClaim (rt_selector r), AccessIdClaim (at_id a), HashClaim (at_token_hash a)]"

definition others :: "tables \<Rightarrow> tables \<Rightarrow> bool" where
  "others c c' \<longleftrightarrow>
     refresh_tokens c' = refresh_tokens c \<and>
     map (\<lambda>a. (at_id a, at_token_hash a)) (access_tokens c') = map (\<lambda>a. (at_id a, at_token_hash a)) (access_tokens c) \<and>
     u_id ` set (users c) \<subseteq> u_id ` set (users c')"

inductive conc_step ::
  "(uuid \<Rightarrow> int) \<Rightarrow> (pid \<Rightarrow> string \<times> string) \<Rightarrow> sys \<Rightarrow> sys \<Rightarrow> bool"
  for lk rq where
  conc_tx: "tx_next lk (rq p) d p s = Some s' \<Longrightarrow> valid_draw d \<Longrightarrow> conc_step lk rq s s'"
| conc_tick: "s_db s \<le> t \<Longrightarrow> conc_step lk rq s (s\<lparr>s_db := t\<rparr>)"
| conc_login: "login_rows r a s \<Longrightarrow>
    conc_step lk rq s (s\<lparr>s_tabs := (s_tabs s)\<lparr>refresh_tokens := refresh_tokens (s_tabs s) @ [r],
      access_tokens := access_tokens (s_tabs s) @ [a]\<rparr>\<rparr>)"
| conc_others: "others (s_tabs s) c' \<Longrightarrow> conc_step lk rq s (s\<lparr>s_tabs := c'\<rparr>)"

abbreviation conc_steps ::
  "(uuid \<Rightarrow> int) \<Rightarrow> (pid \<Rightarrow> string \<times> string) \<Rightarrow> sys \<Rightarrow> sys \<Rightarrow> bool" where
  "conc_steps lk rq \<equiv> (conc_step lk rq)\<^sup>*\<^sup>*"

text \<open>The primary key and the unique index of \<^verbatim>\<open>refresh_tokens\<close>; a start with no request under way.\<close>

definition keys_ok :: "tables \<Rightarrow> bool" where
  "keys_ok c \<longleftrightarrow> distinct (map rt_id (refresh_tokens c)) \<and> distinct (map rt_selector (refresh_tokens c))"

definition fresh_sys :: "tables \<Rightarrow> time \<Rightarrow> sys" where
  "fresh_sys c t =
     \<lparr>s_tabs = c, s_db = t, s_locks = (\<lambda>_. None),
      s_txn = (\<lambda>_. \<lparr>t_stage = Arrived, t_start = 0, t_writes = []\<rparr>)\<rparr>"

definition conc_reachable :: "(uuid \<Rightarrow> int) \<Rightarrow> (pid \<Rightarrow> string \<times> string) \<Rightarrow> sys \<Rightarrow> bool" where
  "conc_reachable lk rq s \<longleftrightarrow> (\<exists>c t. keys_ok c \<and> conc_steps lk rq (fresh_sys c t) s)"

text \<open>A schedule that is executed: who moves, with which draw, or the database's clock moving on.\<close>

datatype move = Move pid draw | Wait time

fun run_moves :: "(uuid \<Rightarrow> int) \<Rightarrow> (pid \<Rightarrow> string \<times> string) \<Rightarrow> move list \<Rightarrow> sys \<Rightarrow> sys option" where
  "run_moves lk rq [] s = Some s"
| "run_moves lk rq (Move p d # ms) s =
     (if valid_draw d
      then (case tx_next lk (rq p) d p s of None \<Rightarrow> None | Some s' \<Rightarrow> run_moves lk rq ms s')
      else None)"
| "run_moves lk rq (Wait t # ms) s =
     (if s_db s \<le> t then run_moves lk rq ms (s\<lparr>s_db := t\<rparr>) else None)"

lemma run_moves_steps: "run_moves lk rq ms s = Some s' \<Longrightarrow> conc_steps lk rq s s'"
proof (induction lk rq ms s rule: run_moves.induct)
  case (2 lk rq p d ms s)
  then obtain s1 where "tx_next lk (rq p) d p s = Some s1" "valid_draw d"
    by (auto split: option.splits if_splits)
  with 2 show ?case by (auto intro: conc_tx converse_rtranclp_into_rtranclp)
next
  case (3 lk rq t ms s)
  then show ?case by (auto intro: conc_tick converse_rtranclp_into_rtranclp split: if_splits)
qed simp

end
