(* ===== verification/RefreshConcInv.thy ===== *)
theory RefreshConcInv
  imports RefreshConc RefreshSpec
begin

text \<open>
  The invariant of concurrent rotation, for every schedule, every latency, every failure and whatever
  logins and other writers do in between.  It says of every transaction which locks it holds, which
  writes are pending and what it knows of the committed tables; \<open>evolves\<close> says how the committed
  tables can change under the holder of a set of locks, and what a transaction knows survives that.
\<close>

section \<open>Locks held\<close>

fun claims :: "change \<Rightarrow> lock set" where
  "claims (PutUsed i t) = {RowLock i}"
| "claims (PutRevoked ids t) = RowLock ` set ids"
| "claims (PutRefresh r) = {TokenIdClaim (rt_id r), SelectorClaim (rt_selector r)}"
| "claims (PutAccess a) = {AccessIdClaim (at_id a), HashClaim (at_token_hash a)}"

fun stage_row :: "stage \<Rightarrow> refresh_now_row option" where
  "stage_row (RowHeld row) = Some row"
| "stage_row (Replaying row) = Some row"
| "stage_row (Looking row now) = Some row"
| "stage_row (Marking row now) = Some row"
| "stage_row (InsertingRefresh row a r now) = Some row"
| "stage_row (InsertingAccess row a r now) = Some row"
| "stage_row (Committing row out) = Some row"
| "stage_row _ = None"

definition stage_locks :: "(uuid \<Rightarrow> int) \<Rightarrow> stage \<Rightarrow> lock set" where
  "stage_locks lk st =
     (case st of FamilyHeld pre \<Rightarrow> {FamilyLock (lk (rt_token_family pre))}
      | _ \<Rightarrow> (case stage_row st of None \<Rightarrow> {}
              | Some row \<Rightarrow> {FamilyLock (lk (rt_token_family row)), RowLock (rt_id row)}))"

definition held :: "(uuid \<Rightarrow> int) \<Rightarrow> txn \<Rightarrow> lock set" where
  "held lk t = stage_locks lk (t_stage t) \<union> \<Union> (claims ` set (t_writes t))"

definition locks_ok :: "(uuid \<Rightarrow> int) \<Rightarrow> sys \<Rightarrow> bool" where
  "locks_ok lk s \<longleftrightarrow> (\<forall>k p. s_locks s k = Some p \<longleftrightarrow> k \<in> held lk (s_txn s p))"

lemma locks_ok_D: "locks_ok lk s \<Longrightarrow> k \<in> held lk (s_txn s p) \<Longrightarrow> s_locks s k = Some p"
  by (simp add: locks_ok_def)

lemma locks_ok_disjoint:
  "locks_ok lk s \<Longrightarrow> k \<in> held lk (s_txn s p) \<Longrightarrow> p \<noteq> q \<Longrightarrow> k \<notin> held lk (s_txn s q)"
  by (metis locks_ok_def option.inject)

text \<open>The three ways a step treats the locks: it takes some, it keeps them, it lets all go.\<close>

lemma takes_Some:
  "takes p ks s = Some s' \<longleftrightarrow>
     (\<forall>k \<in> set ks. s_locks s k = None \<or> s_locks s k = Some p) \<and>
     s' = s\<lparr>s_locks := (\<lambda>k. if k \<in> set ks then Some p else s_locks s k)\<rparr>"
  by (auto simp: takes_def list_all_iff)

lemma locks_ok_takes:
  assumes "locks_ok lk s" and "takes p ks s = Some s1" and "held lk t' = held lk (s_txn s p) \<union> set ks"
  shows "locks_ok lk (s1\<lparr>s_txn := (s_txn s)(p := t')\<rparr>)"
  unfolding locks_ok_def
proof (intro allI)
  fix k q
  have free: "s_locks s k = None \<or> s_locks s k = Some p" if "k \<in> set ks"
    using assms(2) that by (auto simp: takes_Some)
  have old: "s_locks s k = Some q \<longleftrightarrow> k \<in> held lk (s_txn s q)"
    using assms(1) by (simp add: locks_ok_def)
  have l: "s_locks s1 k = (if k \<in> set ks then Some p else s_locks s k)"
    using assms(2) by (auto simp: takes_Some)
  show "s_locks (s1\<lparr>s_txn := (s_txn s)(p := t')\<rparr>) k = Some q \<longleftrightarrow>
      k \<in> held lk (s_txn (s1\<lparr>s_txn := (s_txn s)(p := t')\<rparr>) q)"
    using free old by (cases "q = p"; cases "k \<in> set ks") (auto simp: l assms(3))
qed

lemma locks_ok_keeps:
  assumes "locks_ok lk s" and "held lk t' = held lk (s_txn s p)"
  shows "locks_ok lk (s\<lparr>s_txn := (s_txn s)(p := t')\<rparr>)"
  using assms unfolding locks_ok_def by auto

definition same_others :: "pid \<Rightarrow> sys \<Rightarrow> sys \<Rightarrow> bool" where
  "same_others p s s1 \<longleftrightarrow> s_txn s1 = s_txn s \<and> s_db s1 = s_db s \<and>
     (\<forall>k q. q \<noteq> p \<longrightarrow> (s_locks s1 k = Some q \<longleftrightarrow> s_locks s k = Some q))"

lemma same_others_refl [simp]: "same_others p s s"
  by (simp add: same_others_def)

lemma same_others_takes: "takes p ks s = Some s1 \<Longrightarrow> same_others p s s1"
  by (auto simp: takes_Some same_others_def)

lemma locks_ok_finish:
  assumes "locks_ok lk s" and "same_others p s s1"
  shows "locks_ok lk (finish p out s1)"
proof -
  have "held lk (t\<lparr>t_stage := Finished out, t_writes := []\<rparr>) = {}" for t
    by (simp add: held_def stage_locks_def)
  moreover have o: "s_locks s1 k = Some q \<longleftrightarrow> k \<in> held lk (s_txn s q)" if "q \<noteq> p" for k q
    using assms that unfolding locks_ok_def same_others_def by metis
  moreover have "s_txn s1 = s_txn s" using assms(2) by (simp add: same_others_def)
  ultimately have "s_locks (finish p out s1) k = Some q \<longleftrightarrow> k \<in> held lk (s_txn (finish p out s1) q)" for k q
  proof (cases "q = p")
    case False
    then have "s_locks (finish p out s1) k = Some q \<longleftrightarrow> s_locks s1 k = Some q" by (auto simp: finish_def)
    with o [OF False, of k] False \<open>s_txn s1 = s_txn s\<close> show ?thesis by (simp add: finish_def)
  qed (simp add: finish_def)
  then show ?thesis by (simp add: locks_ok_def)
qed

section \<open>How the tables change under the holder of some locks\<close>

definition derives :: "refresh_row \<Rightarrow> refresh_row \<Rightarrow> bool" where
  "derives r r' \<longleftrightarrow> rt_id r' = rt_id r \<and> rt_selector r' = rt_selector r \<and>
     rt_token_family r' = rt_token_family r \<and>
     (rt_used_at r \<noteq> None \<longrightarrow> rt_used_at r' = rt_used_at r) \<and> (rt_revoked_at r \<noteq> None \<longrightarrow> rt_revoked_at r' \<noteq> None)"

lemma derives_refl [simp]: "derives r r"
  by (simp add: derives_def)

lemma derives_trans: "derives a b \<Longrightarrow> derives b c \<Longrightarrow> derives a c"
  by (auto simp: derives_def)

definition families :: "tables \<Rightarrow> uuid set" where
  "families c = rt_token_family ` set (refresh_tokens c)"

text \<open>A row that somebody else may add: its keys are not claimed, and if its family exists, the family is not
  locked and has a live row.\<close>

definition addable :: "(uuid \<Rightarrow> int) \<Rightarrow> lock set \<Rightarrow> tables \<Rightarrow> refresh_row \<Rightarrow> bool" where
  "addable lk K c r \<longleftrightarrow> TokenIdClaim (rt_id r) \<notin> K \<and> SelectorClaim (rt_selector r) \<notin> K \<and>
     (rt_token_family r \<in> families c \<longrightarrow>
        FamilyLock (lk (rt_token_family r)) \<notin> K \<and>
        (\<exists>q \<in> set (refresh_tokens c). rt_token_family q = rt_token_family r \<and> rt_revoked_at q = None))"

definition access_addable :: "lock set \<Rightarrow> access_row \<Rightarrow> bool" where
  "access_addable K a \<longleftrightarrow> AccessIdClaim (at_id a) \<notin> K \<and> HashClaim (at_token_hash a) \<notin> K"

definition evolves :: "(uuid \<Rightarrow> int) \<Rightarrow> lock set \<Rightarrow> tables \<Rightarrow> tables \<Rightarrow> bool" where
  "evolves lk K c c' \<longleftrightarrow>
     (\<forall>r \<in> set (refresh_tokens c). \<exists>r' \<in> set (refresh_tokens c'). derives r r' \<and> (RowLock (rt_id r) \<in> K \<longrightarrow> r' = r)) \<and>
     (\<forall>r' \<in> set (refresh_tokens c'). (\<exists>r \<in> set (refresh_tokens c). derives r r') \<or>
        addable lk K c r') \<and>
     (\<forall>f \<in> families c. FamilyLock (lk f) \<in> K \<longrightarrow> RowLock ` set (live_ids f c) \<subseteq> K \<longrightarrow> live_ids f c' = live_ids f c) \<and>
     (\<forall>a' \<in> set (access_tokens c').
        (\<exists>a \<in> set (access_tokens c). at_id a' = at_id a \<and> at_token_hash a' = at_token_hash a) \<or>
        access_addable K a') \<and>
     u_id ` set (users c) \<subseteq> u_id ` set (users c')"

lemma evolves_refl [simp]: "evolves lk K c c"
  unfolding evolves_def using derives_refl by blast

lemma evolves_row:
  assumes "evolves lk K c c'" and "r \<in> set (refresh_tokens c)"
  obtains r' where "r' \<in> set (refresh_tokens c')" "derives r r'" "RowLock (rt_id r) \<in> K \<Longrightarrow> r' = r"
  using assms unfolding evolves_def by blast

lemma evolves_back:
  assumes "evolves lk K c c'" and "r' \<in> set (refresh_tokens c')"
  obtains (old) r where "r \<in> set (refresh_tokens c)" "derives r r'"
  | (added) "addable lk K c r'"
  using assms unfolding evolves_def by blast

lemma evolves_live:
  "evolves lk K c c' \<Longrightarrow> f \<in> families c \<Longrightarrow> FamilyLock (lk f) \<in> K \<Longrightarrow> RowLock ` set (live_ids f c) \<subseteq> K \<Longrightarrow>
     live_ids f c' = live_ids f c"
  unfolding evolves_def by blast

lemma evolves_access:
  assumes "evolves lk K c c'" and "a' \<in> set (access_tokens c')"
  obtains (old) a where "a \<in> set (access_tokens c)" "at_id a' = at_id a" "at_token_hash a' = at_token_hash a"
  | (added) "access_addable K a'"
  using assms unfolding evolves_def by blast

lemma evolves_users: "evolves lk K c c' \<Longrightarrow> u_id ` set (users c) \<subseteq> u_id ` set (users c')"
  unfolding evolves_def by blast

lemma families_evolve:
  assumes "evolves lk K c c'"
  shows "families c \<subseteq> families c'"
proof
  fix f assume "f \<in> families c"
  then obtain r where r: "r \<in> set (refresh_tokens c)" "rt_token_family r = f" by (auto simp: families_def)
  obtain r' where "r' \<in> set (refresh_tokens c')" "derives r r'" by (rule evolves_row [OF assms r(1)])
  with r(2) show "f \<in> families c'"
    unfolding families_def derives_def by (intro image_eqI [of _ _ r']) auto
qed

lemma evolves_trans:
  assumes "evolves lk K c c1" and "evolves lk K c1 c2"
  shows "evolves lk K c c2"
  unfolding evolves_def
proof (intro conjI ballI impI)
  fix r assume r: "r \<in> set (refresh_tokens c)"
  obtain r1 where r1: "r1 \<in> set (refresh_tokens c1)" "derives r r1" "RowLock (rt_id r) \<in> K \<Longrightarrow> r1 = r"
    using evolves_row [OF assms(1) r] by blast
  obtain r2 where r2: "r2 \<in> set (refresh_tokens c2)" "derives r1 r2" "RowLock (rt_id r1) \<in> K \<Longrightarrow> r2 = r1"
    using evolves_row [OF assms(2) r1(1)] by blast
  show "\<exists>r' \<in> set (refresh_tokens c2). derives r r' \<and> (RowLock (rt_id r) \<in> K \<longrightarrow> r' = r)"
    using r1 r2 by (intro bexI [OF _ r2(1)]) (auto intro: derives_trans)
next
  fix r2 assume r2: "r2 \<in> set (refresh_tokens c2)"
  show "(\<exists>r \<in> set (refresh_tokens c). derives r r2) \<or> addable lk K c r2"
    using assms(2) r2
  proof (cases rule: evolves_back)
    case (old r1)
    from assms(1) old(1) show ?thesis
    proof (cases rule: evolves_back)
      case (old r) with \<open>derives r1 r2\<close> show ?thesis by (blast intro: derives_trans)
    next
      case added with \<open>derives r1 r2\<close> show ?thesis by (auto simp: derives_def addable_def)
    qed
  next
    case added
    have "\<exists>r \<in> set (refresh_tokens c). rt_token_family r = rt_token_family r2 \<and> rt_revoked_at r = None"
      if "rt_token_family r2 \<in> families c"
    proof -
      from that families_evolve [OF assms(1)] added obtain r1 where r1: "r1 \<in> set (refresh_tokens c1)"
        "rt_token_family r1 = rt_token_family r2" "rt_revoked_at r1 = None" unfolding addable_def by blast
      from assms(1) r1(1) show ?thesis
      proof (cases rule: evolves_back)
        case (old r) with r1 show ?thesis by (auto simp: derives_def intro!: bexI [of _ r])
      qed (use r1 that in \<open>auto simp: addable_def\<close>)
    qed
    with added families_evolve [OF assms(1)] show ?thesis unfolding addable_def by blast
  qed
next
  fix f assume f: "f \<in> families c" "FamilyLock (lk f) \<in> K" "RowLock ` set (live_ids f c) \<subseteq> K"
  then have 1: "live_ids f c1 = live_ids f c" by (rule evolves_live [OF assms(1)])
  with f families_evolve [OF assms(1)] have "live_ids f c2 = live_ids f c1"
    by (intro evolves_live [OF assms(2)]) auto
  with 1 show "live_ids f c2 = live_ids f c" by simp
next
  fix a assume a: "a \<in> set (access_tokens c2)"
  show "(\<exists>b \<in> set (access_tokens c). at_id a = at_id b \<and> at_token_hash a = at_token_hash b) \<or>
      access_addable K a"
    by (rule evolves_access [OF assms(2) a]; (erule evolves_access [OF assms(1)])?) (auto simp: access_addable_def)
next
  show "u_id ` set (users c) \<subseteq> u_id ` set (users c2)"
    using evolves_users [OF assms(1)] evolves_users [OF assms(2)] by (rule subset_trans)
qed

subsection \<open>Single changes\<close>

lemma live_ids_iff: "i \<in> set (live_ids f c) \<longleftrightarrow>
    (\<exists>r \<in> set (refresh_tokens c). rt_id r = i \<and> rt_token_family r = f \<and> rt_revoked_at r = None)"
  by (auto simp: live_ids_def)

text \<open>An update of rows that are not locked, which keeps the identity of a row, its use and its
  revocation, and which touches no live row of a family held with all its live rows.\<close>

lemma evolves_update:
  assumes d: "\<And>r. r \<in> set (refresh_tokens c) \<Longrightarrow> P r \<Longrightarrow> derives r (g r)"
    and free: "\<And>r. r \<in> set (refresh_tokens c) \<Longrightarrow> P r \<Longrightarrow> RowLock (rt_id r) \<notin> K"
  shows "evolves lk K c (c\<lparr>refresh_tokens := update_where P g (refresh_tokens c)\<rparr>)"
  unfolding evolves_def
proof (intro conjI ballI impI)
  let ?R = "update_where P g (refresh_tokens c)"
  fix r assume r: "r \<in> set (refresh_tokens c)"
  have "(if P r then g r else r) \<in> set ?R" using r by (auto simp: in_update_where)
  then show "\<exists>r' \<in> set (refresh_tokens (c\<lparr>refresh_tokens := ?R\<rparr>)). derives r r' \<and> (RowLock (rt_id r) \<in> K \<longrightarrow> r' = r)"
    using r d free by (intro bexI [of _ "if P r then g r else r"]) auto
next
  let ?R = "update_where P g (refresh_tokens c)"
  fix r' assume "r' \<in> set (refresh_tokens (c\<lparr>refresh_tokens := ?R\<rparr>))"
  then obtain r where "r \<in> set (refresh_tokens c)" "r' = (if P r then g r else r)" by (auto simp: in_update_where)
  with d have "\<exists>r \<in> set (refresh_tokens c). derives r r'" by (intro bexI [of _ r]) auto
  then show "(\<exists>r \<in> set (refresh_tokens c). derives r r') \<or> addable lk K c r'" by blast
next
  fix f assume live: "RowLock ` set (live_ids f c) \<subseteq> K"
  have k: "\<not> P r \<or> rt_id (g r) = rt_id r \<and> rt_token_family (g r) = rt_token_family r \<and>
      (rt_token_family r = f \<longrightarrow> rt_revoked_at r \<noteq> None \<and> rt_revoked_at (g r) \<noteq> None)"
    if r: "r \<in> set (refresh_tokens c)" for r
  proof (cases "P r")
    case True
    have "rt_revoked_at r \<noteq> None" if "rt_token_family r = f"
    proof
      assume "rt_revoked_at r = None"
      with that r have "rt_id r \<in> set (live_ids f c)" by (auto simp: live_ids_iff)
      with live free [OF r True] show False by blast
    qed
    with d [OF r True] show ?thesis by (auto simp: derives_def)
  qed simp
  have "map rt_id (filter (\<lambda>r. rt_token_family r = f \<and> rt_revoked_at r = None) (update_where P g rs)) =
      map rt_id (filter (\<lambda>r. rt_token_family r = f \<and> rt_revoked_at r = None) rs)"
    if "set rs \<subseteq> set (refresh_tokens c)" for rs
    using that
  proof (induction rs)
    case (Cons r rs)
    with k [of r] show ?case by (cases "P r") (auto simp: update_where_def)
  qed (simp add: update_where_def)
  then show "live_ids f (c\<lparr>refresh_tokens := update_where P g (refresh_tokens c)\<rparr>) = live_ids f c"
    by (simp add: live_ids_def)
qed auto

text \<open>What a pending change must satisfy to come from somebody else.\<close>

definition foreign :: "(uuid \<Rightarrow> int) \<Rightarrow> lock set \<Rightarrow> tables \<Rightarrow> change \<Rightarrow> bool" where
  "foreign lk K c ch \<longleftrightarrow> claims ch \<inter> K = {} \<and>
     (case ch of
        PutUsed i t \<Rightarrow> \<forall>r \<in> set (refresh_tokens c). rt_id r = i \<longrightarrow> rt_used_at r = None
      | PutRefresh x \<Rightarrow> FamilyLock (lk (rt_token_family x)) \<notin> K \<and>
          (\<exists>r \<in> set (refresh_tokens c). rt_token_family r = rt_token_family x \<and> rt_revoked_at r = None)
      | _ \<Rightarrow> True)"

lemma evolves_added:
  assumes "addable lk K c x"
  shows "evolves lk K c (c\<lparr>refresh_tokens := refresh_tokens c @ [x]\<rparr>)"
  unfolding evolves_def
proof (intro conjI ballI impI)
  fix r assume "r \<in> set (refresh_tokens c)"
  then show "\<exists>r' \<in> set (refresh_tokens (c\<lparr>refresh_tokens := refresh_tokens c @ [x]\<rparr>)).
      derives r r' \<and> (RowLock (rt_id r) \<in> K \<longrightarrow> r' = r)"
    by (intro bexI [of _ r]) auto
next
  fix r' assume "r' \<in> set (refresh_tokens (c\<lparr>refresh_tokens := refresh_tokens c @ [x]\<rparr>))"
  then consider "r' \<in> set (refresh_tokens c)" | "r' = x" by auto
  then show "(\<exists>r \<in> set (refresh_tokens c). derives r r') \<or> addable lk K c r'"
    using assms derives_refl by (cases; blast)
next
  fix f assume "f \<in> families c" "FamilyLock (lk f) \<in> K"
  with assms have "rt_token_family x \<noteq> f" by (auto simp: addable_def)
  then show "live_ids f (c\<lparr>refresh_tokens := refresh_tokens c @ [x]\<rparr>) = live_ids f c"
    by (simp add: live_ids_def)
qed auto

lemma evolves_access_added:
  assumes "access_addable K a"
  shows "evolves lk K c (c\<lparr>access_tokens := access_tokens c @ [a]\<rparr>)"
  unfolding evolves_def
proof (intro conjI ballI impI)
  fix b assume "b \<in> set (access_tokens (c\<lparr>access_tokens := access_tokens c @ [a]\<rparr>))"
  then show "(\<exists>a \<in> set (access_tokens c). at_id b = at_id a \<and> at_token_hash b = at_token_hash a) \<or> access_addable K b"
    using assms by auto
qed (auto simp: live_ids_def intro: bexI [OF _ _] derives_refl)

lemma evolves_change:
  assumes "foreign lk K c ch"
  shows "evolves lk K c (apply_change ch c)"
proof (cases ch)
  case (PutUsed i t)
  with assms show ?thesis
    unfolding PutUsed apply_change.simps marked_def mark_refresh_token_used_def snd_conv
    by (intro evolves_update) (auto simp: foreign_def derives_def)
next
  case (PutRevoked ids t)
  with assms show ?thesis
    unfolding PutRevoked apply_change.simps by (intro evolves_update) (auto simp: foreign_def derives_def)
next
  case (PutRefresh x)
  with assms show ?thesis
    unfolding PutRefresh apply_change.simps by (intro evolves_added) (auto simp: foreign_def addable_def)
next
  case (PutAccess a)
  with assms show ?thesis
    unfolding PutAccess apply_change.simps by (intro evolves_access_added) (auto simp: foreign_def access_addable_def)
qed

lemma evolves_others: "others c c' \<Longrightarrow> evolves lk K c c'"
  unfolding evolves_def others_def
proof (elim conjE, intro conjI ballI)
  fix a' assume "map (\<lambda>a. (at_id a, at_token_hash a)) (access_tokens c') = map (\<lambda>a. (at_id a, at_token_hash a)) (access_tokens c)"
    and a': "a' \<in> set (access_tokens c')"
  from arg_cong [OF this(1), of set] a' have "(at_id a', at_token_hash a') \<in> (\<lambda>a. (at_id a, at_token_hash a)) ` set (access_tokens c)"
    by auto
  then show "(\<exists>a \<in> set (access_tokens c). at_id a' = at_id a \<and> at_token_hash a' = at_token_hash a) \<or>
      access_addable K a'" by auto
qed (auto simp: live_ids_def intro: bexI [OF _ _] derives_refl)

definition with_login :: "refresh_row \<Rightarrow> access_row \<Rightarrow> tables \<Rightarrow> tables" where
  "with_login r a c = c\<lparr>refresh_tokens := refresh_tokens c @ [r], access_tokens := access_tokens c @ [a]\<rparr>"

lemma evolves_login:
  assumes "login_rows r a s" and "\<And>k. k \<in> K \<Longrightarrow> s_locks s k \<noteq> None"
  shows "evolves lk K (s_tabs s) (with_login r a (s_tabs s))"
proof -
  let ?c = "(s_tabs s)\<lparr>refresh_tokens := refresh_tokens (s_tabs s) @ [r]\<rparr>"
  have "k \<notin> K" if "s_locks s k = None" for k using assms(2) that by blast
  with assms(1) have "addable lk K (s_tabs s) r" "access_addable K a"
    by (auto simp: login_rows_def families_def addable_def access_addable_def)
  then have "evolves lk K (s_tabs s) ?c" "evolves lk K ?c (?c\<lparr>access_tokens := access_tokens ?c @ [a]\<rparr>)"
    by - (erule evolves_added, erule evolves_access_added)
  then have "evolves lk K (s_tabs s) (?c\<lparr>access_tokens := access_tokens ?c @ [a]\<rparr>)" by (rule evolves_trans)
  then show ?thesis by (simp add: with_login_def)
qed

section \<open>What a transaction knows\<close>

definition usable :: "refresh_now_row \<Rightarrow> string \<Rightarrow> time \<Rightarrow> bool" where
  "usable row ver now \<longleftrightarrow>
     (\<exists>raw. raw_url_dec ver = Some raw \<and> sha256 raw = rt_verifier_hash row) \<and>
     rt_revoked_at row = None \<and> rt_used_at row = None \<and> \<not> expired (rt_expires_at row) now"

definition knows_family :: "string \<Rightarrow> refresh_row \<Rightarrow> tables \<Rightarrow> bool" where
  "knows_family sel pre c \<longleftrightarrow>
     (\<exists>r \<in> set (refresh_tokens c). rt_selector r = sel \<and> rt_token_family r = rt_token_family pre)"

definition minted :: "access_token \<Rightarrow> refresh_token \<Rightarrow> bool" where
  "minted a r \<longleftrightarrow> (\<exists>raw sel ver. length raw = 32 \<and> length sel = 16 \<and> length ver = 16 \<and>
     a = access_of raw \<and> r = refresh_of sel ver)"

definition fresh_refresh :: "refresh_row \<Rightarrow> tables \<Rightarrow> bool" where
  "fresh_refresh x c \<longleftrightarrow> (\<forall>q \<in> set (refresh_tokens c). rt_id q \<noteq> rt_id x \<and> rt_selector q \<noteq> rt_selector x)"

definition fresh_access :: "access_row \<Rightarrow> tables \<Rightarrow> bool" where
  "fresh_access y c \<longleftrightarrow> (\<forall>q \<in> set (access_tokens c). at_id q \<noteq> at_id y \<and> at_token_hash q \<noteq> at_token_hash y)"

definition row_with_user :: "refresh_now_row \<Rightarrow> tables \<Rightarrow> bool" where
  "row_with_user row c \<longleftrightarrow> (\<exists>u \<in> set (users c). u_id u = rt_user_id row)"

abbreviation rotation_refresh :: "uuid \<Rightarrow> refresh_now_row \<Rightarrow> access_token \<Rightarrow> refresh_token \<Rightarrow> time \<Rightarrow> time \<Rightarrow> refresh_row" where
  "rotation_refresh i row a r now t0 \<equiv> refresh_row_of i (sr_refresh (rotation_rows row a r now)) t0"

abbreviation rotation_access :: "uuid \<Rightarrow> refresh_now_row \<Rightarrow> access_token \<Rightarrow> refresh_token \<Rightarrow> time \<Rightarrow> time \<Rightarrow> access_row" where
  "rotation_access i row a r now t0 \<equiv> access_row_of i (sr_access (rotation_rows row a r now)) t0"

fun stage_ok :: "string \<times> string \<Rightarrow> time \<Rightarrow> change list \<Rightarrow> tables \<Rightarrow> stage \<Rightarrow> bool" where
  "stage_ok rq t0 ws c (Preread pre) \<longleftrightarrow> ws = [] \<and> knows_family (fst rq) pre c"
| "stage_ok rq t0 ws c (FamilyHeld pre) \<longleftrightarrow> ws = [] \<and> knows_family (fst rq) pre c"
| "stage_ok rq t0 ws c (RowHeld row) \<longleftrightarrow> ws = [] \<and> locked_row (fst rq) t0 c = Some row"
| "stage_ok rq t0 ws c (Replaying row) \<longleftrightarrow>
     ws = [] \<and> locked_row (fst rq) t0 c = Some row \<and> is_replay row (snd rq)"
| "stage_ok rq t0 ws c (Looking row now) \<longleftrightarrow>
     ws = [] \<and> locked_row (fst rq) t0 c = Some row \<and> usable row (snd rq) now"
| "stage_ok rq t0 ws c (Marking row now) \<longleftrightarrow>
     ws = [] \<and> locked_row (fst rq) t0 c = Some row \<and> usable row (snd rq) now"
| "stage_ok rq t0 ws c (InsertingRefresh row a r now) \<longleftrightarrow>
     ws = [PutUsed (rt_id row) t0] \<and> locked_row (fst rq) t0 c = Some row \<and> usable row (snd rq) now \<and> minted a r"
| "stage_ok rq t0 ws c (InsertingAccess row a r now) \<longleftrightarrow>
     locked_row (fst rq) t0 c = Some row \<and> usable row (snd rq) now \<and> minted a r \<and> row_with_user row c \<and>
     (\<exists>i. ws = [PutUsed (rt_id row) t0, PutRefresh (rotation_refresh i row a r now t0)] \<and>
        fresh_refresh (rotation_refresh i row a r now t0) c)"
| "stage_ok rq t0 ws c (Committing row None) \<longleftrightarrow>
     ws = [PutRevoked (live_ids (rt_token_family row) c) t0] \<and>
     locked_row (fst rq) t0 c = Some row \<and> is_replay row (snd rq)"
| "stage_ok rq t0 ws c (Committing row (Some ls)) \<longleftrightarrow>
     (\<exists>i j a r now. locked_row (fst rq) t0 c = Some row \<and> usable row (snd rq) now \<and> minted a r \<and> row_with_user row c \<and>
        ls = session_of (rt_user_id row) a r now \<and>
        ws = [PutUsed (rt_id row) t0, PutRefresh (rotation_refresh i row a r now t0),
              PutAccess (rotation_access j row a r now t0)] \<and>
        fresh_refresh (rotation_refresh i row a r now t0) c \<and> fresh_access (rotation_access j row a r now t0) c)"
| "stage_ok rq t0 ws c _ \<longleftrightarrow> ws = []"

definition tx_ok :: "string \<times> string \<Rightarrow> tables \<Rightarrow> txn \<Rightarrow> bool" where
  "tx_ok rq c t \<longleftrightarrow> stage_ok rq (t_start t) (t_writes t) c (t_stage t)"

definition conc_inv :: "(uuid \<Rightarrow> int) \<Rightarrow> (pid \<Rightarrow> string \<times> string) \<Rightarrow> sys \<Rightarrow> bool" where
  "conc_inv lk rq s \<longleftrightarrow> keys_ok (s_tabs s) \<and> locks_ok lk s \<and> (\<forall>p. tx_ok (rq p) (s_tabs s) (s_txn s p))"

subsection \<open>It stays true under its locks\<close>

lemma keys_unique:
  assumes "keys_ok c" and "q \<in> set (refresh_tokens c)" and "r \<in> set (refresh_tokens c)"
  shows "rt_selector q = rt_selector r \<Longrightarrow> q = r" and "rt_id q = rt_id r \<Longrightarrow> q = r"
  using assms by (auto simp: keys_ok_def distinct_map dest: inj_onD)

lemma locked_row_iff:
  assumes "keys_ok c"
  shows "locked_row sel t0 c = Some row \<longleftrightarrow>
    (\<exists>r \<in> set (refresh_tokens c). rt_selector r = sel \<and> row = refresh_row.extend r \<lparr>rt_db_now = t0\<rparr>)"
proof -
  have "distinct (map rt_selector (refresh_tokens c))" using assms by (simp add: keys_ok_def)
  from find_unique_iff [OF this] show ?thesis by (auto simp: locked_row_def)
qed

lemma extend_row_simps [simp]:
  "rt_id (refresh_row.extend r x) = rt_id r" "rt_selector (refresh_row.extend r x) = rt_selector r"
  "rt_token_family (refresh_row.extend r x) = rt_token_family r" "rt_user_id (refresh_row.extend r x) = rt_user_id r"
  "rt_used_at (refresh_row.extend r x) = rt_used_at r" "rt_revoked_at (refresh_row.extend r x) = rt_revoked_at r"
  "rt_verifier_hash (refresh_row.extend r x) = rt_verifier_hash r"
  by (simp_all add: refresh_row.defs)

text \<open>The row behind what a transaction holds, named once.\<close>

lemma locked_row_obtain:
  assumes "keys_ok c" and "locked_row sel t0 c = Some row"
  obtains r where "r \<in> set (refresh_tokens c)" "rt_selector r = sel" "rt_id row = rt_id r"
    "rt_token_family row = rt_token_family r" "rt_used_at row = rt_used_at r" "rt_revoked_at row = rt_revoked_at r"
    "rt_db_now row = t0"
  using assms by (auto simp: locked_row_iff refresh_row.defs)

lemma locked_row_evolves:
  assumes "keys_ok c" "keys_ok c'" and "evolves lk K c c'" and "locked_row sel t0 c = Some row"
    and "RowLock (rt_id row) \<in> K"
  shows "locked_row sel t0 c' = Some row"
proof -
  from assms(1,4) obtain r where r: "r \<in> set (refresh_tokens c)" "rt_selector r = sel"
    "row = refresh_row.extend r \<lparr>rt_db_now = t0\<rparr>" by (auto simp: locked_row_iff)
  with assms(5) evolves_row [OF assms(3) r(1)] have "r \<in> set (refresh_tokens c')" by (metis extend_row_simps(1))
  with r assms(2) show ?thesis by (auto simp: locked_row_iff)
qed

lemma locked_row_family: "keys_ok c \<Longrightarrow> locked_row sel t0 c = Some row \<Longrightarrow> rt_token_family row \<in> families c"
  by (auto simp: locked_row_iff families_def)

lemma knows_family_evolves: "evolves lk K c c' \<Longrightarrow> knows_family sel pre c \<Longrightarrow> knows_family sel pre c'"
  unfolding knows_family_def
proof (elim bexE conjE)
  fix r assume e: "evolves lk K c c'" and r: "r \<in> set (refresh_tokens c)" "rt_selector r = sel"
    "rt_token_family r = rt_token_family pre"
  obtain r' where "r' \<in> set (refresh_tokens c')" "derives r r'" using evolves_row [OF e r(1)] by blast
  with r show "\<exists>r \<in> set (refresh_tokens c'). rt_selector r = sel \<and> rt_token_family r = rt_token_family pre"
    by (auto simp: derives_def)
qed

lemma row_with_user_evolves: "evolves lk K c c' \<Longrightarrow> row_with_user row c \<Longrightarrow> row_with_user row c'"
  unfolding row_with_user_def by (drule evolves_users) (metis image_iff image_subset_iff)

lemma fresh_refresh_evolves:
  assumes "evolves lk K c c'" "fresh_refresh x c" and "TokenIdClaim (rt_id x) \<in> K" "SelectorClaim (rt_selector x) \<in> K"
  shows "fresh_refresh x c'"
  unfolding fresh_refresh_def
proof
  fix q assume "q \<in> set (refresh_tokens c')"
  with assms(1) show "rt_id q \<noteq> rt_id x \<and> rt_selector q \<noteq> rt_selector x"
    by (cases rule: evolves_back) (use assms(2-4) in \<open>auto simp: fresh_refresh_def derives_def addable_def\<close>)
qed

lemma fresh_access_evolves:
  assumes "evolves lk K c c'" "fresh_access y c" and "AccessIdClaim (at_id y) \<in> K" "HashClaim (at_token_hash y) \<in> K"
  shows "fresh_access y c'"
  unfolding fresh_access_def
proof
  fix q assume "q \<in> set (access_tokens c')"
  with assms(1) show "at_id q \<noteq> at_id y \<and> at_token_hash q \<noteq> at_token_hash y"
    by (cases rule: evolves_access) (use assms(2-4) in \<open>auto simp: fresh_access_def access_addable_def\<close>)
qed

lemma stage_locks_simps [simp]:
  "stage_locks lk Arrived = {}" "stage_locks lk Begun = {}" "stage_locks lk (Preread pre) = {}"
  "stage_locks lk (Finished o') = {}" "stage_locks lk (FamilyHeld pre) = {FamilyLock (lk (rt_token_family pre))}"
  "stage_row st = Some row \<Longrightarrow> stage_locks lk st = {FamilyLock (lk (rt_token_family row)), RowLock (rt_id row)}"
  by (auto simp: stage_locks_def split: stage.splits)

lemma stage_ok_evolves:
  assumes "keys_ok c" "keys_ok c'" and e: "evolves lk (stage_locks lk st \<union> \<Union> (claims ` set ws)) c c'"
    and ok: "stage_ok rq t0 ws c st"
  shows "stage_ok rq t0 ws c' st"
proof -
  let ?K = "stage_locks lk st \<union> \<Union> (claims ` set ws)"
  note row = locked_row_evolves [OF assms(1,2) e]
  show ?thesis
  proof (cases st)
    case (Committing row out)
    show ?thesis
    proof (cases out)
      case None
      have "live_ids (rt_token_family row) c' = live_ids (rt_token_family row) c"
        using ok locked_row_family [OF assms(1), of "fst rq" t0 row] unfolding Committing None
        by (intro evolves_live [OF e]) (auto simp: Committing None)
      with ok row show ?thesis by (auto simp: Committing None)
    next
      case (Some ls)
      from ok obtain i j a r now where
        l: "locked_row (fst rq) t0 c = Some row" "usable row (snd rq) now" "minted a r" "row_with_user row c"
          "ls = session_of (rt_user_id row) a r now"
        and w: "ws = [PutUsed (rt_id row) t0, PutRefresh (rotation_refresh i row a r now t0),
              PutAccess (rotation_access j row a r now t0)]"
        and f: "fresh_refresh (rotation_refresh i row a r now t0) c" "fresh_access (rotation_access j row a r now t0) c"
        by (auto simp: Committing Some)
      have "locked_row (fst rq) t0 c' = Some row" using l(1) by (intro row) (auto simp: Committing)
      moreover have "row_with_user row c'" using e l(4) by (rule row_with_user_evolves)
      moreover have "fresh_refresh (rotation_refresh i row a r now t0) c'"
        using e f(1) by (rule fresh_refresh_evolves) (auto simp: w)
      moreover have "fresh_access (rotation_access j row a r now t0) c'"
        using e f(2) by (rule fresh_access_evolves) (auto simp: w)
      ultimately show ?thesis
        using l w unfolding Committing Some stage_ok.simps
        by (intro exI [of _ i] exI [of _ j] exI [of _ a] exI [of _ r] exI [of _ now]) simp
    qed
  next
    case (InsertingAccess row a r now)
    from ok obtain i where
      l: "locked_row (fst rq) t0 c = Some row" "usable row (snd rq) now" "minted a r" "row_with_user row c"
      and w: "ws = [PutUsed (rt_id row) t0, PutRefresh (rotation_refresh i row a r now t0)]"
      and f: "fresh_refresh (rotation_refresh i row a r now t0) c"
      by (auto simp: InsertingAccess)
    have "locked_row (fst rq) t0 c' = Some row" using l(1) by (intro row) (auto simp: InsertingAccess)
    moreover have "row_with_user row c'" using e l(4) by (rule row_with_user_evolves)
    moreover have "fresh_refresh (rotation_refresh i row a r now t0) c'"
      using e f by (rule fresh_refresh_evolves) (auto simp: w)
    ultimately show ?thesis using l w by (auto simp: InsertingAccess)
  qed (use ok row knows_family_evolves [OF e] in auto)
qed

subsection \<open>What a commit does\<close>

lemma rotation_row_simps [simp]:
  "rt_token_family (rotation_refresh i row a r now t0) = rt_token_family row"
  "rt_id (rotation_refresh i row a r now t0) = i"
  "rt_user_id (rotation_refresh i row a r now t0) = rt_user_id row"
  "rt_revoked_at (rotation_refresh i row a r now t0) = None"
  "rt_used_at (rotation_refresh i row a r now t0) = None"
  "at_user_id (rotation_access j row a r now t0) = rt_user_id row"
  "at_id (rotation_access j row a r now t0) = j"
  by (simp_all add: refresh_row_of_def access_row_of_def rotation_rows_def rows_for_def)

text \<open>The tables after the commit of a rotation: those of one rotation of the current row.\<close>

lemma commit_rotates:
  assumes "keys_ok c" and "tx_ok rq c t" and "t_stage t = Committing row (Some ls)"
  shows "locked_row (fst rq) (t_start t) c = Some row \<and>
    (\<exists>now. usable row (snd rq) now \<and> rotated row now (t_start t) c (view t c) ls)"
proof -
  let ?t0 = "t_start t"
  from assms(2,3) obtain i j a r now where l: "locked_row (fst rq) ?t0 c = Some row" "usable row (snd rq) now"
      "minted a r" "row_with_user row c" "ls = session_of (rt_user_id row) a r now"
    and w: "t_writes t = [PutUsed (rt_id row) ?t0, PutRefresh (rotation_refresh i row a r now ?t0),
          PutAccess (rotation_access j row a r now ?t0)]"
    and f: "fresh_refresh (rotation_refresh i row a r now ?t0) c" "fresh_access (rotation_access j row a r now ?t0) c"
    by (auto simp: tx_ok_def)
  let ?m = "marked (rt_id row) ?t0 c"
  have m12: "users ?m = users c" "access_tokens ?m = access_tokens c"
    and sels: "map rt_selector (refresh_tokens ?m) = map rt_selector (refresh_tokens c)"
    by (simp_all add: marked_def mark_refresh_token_used_def map_update_where)
  note m = m12 arg_cong [OF sels, of set, unfolded set_map]
  have "session_inserted (rotation_rows row a r now) ?m (view t c)"
    unfolding session_inserted_def Let_def
  proof (rule exI [of _ j], rule exI [of _ i], rule exI [of _ ?t0], intro conjI)
    show "view t c = ?m\<lparr>access_tokens := access_tokens ?m @ [rotation_access j row a r now ?t0],
        refresh_tokens := refresh_tokens ?m @ [rotation_refresh i row a r now ?t0]\<rparr>"
      by (simp add: view_def w)
    show "\<forall>q \<in> set (access_tokens ?m). at_token_hash q \<noteq> at_token_hash (rotation_access j row a r now ?t0)"
      using f(2) m by (simp add: fresh_access_def)
    have "rt_selector (rotation_refresh i row a r now ?t0) \<notin> rt_selector ` set (refresh_tokens ?m)"
      using f(1) unfolding m(3) by (auto simp: fresh_refresh_def)
    then show "\<forall>q \<in> set (refresh_tokens ?m). rt_selector q \<noteq> rt_selector (rotation_refresh i row a r now ?t0)"
      by (metis image_eqI)
    show "\<exists>u \<in> set (users ?m). u_id u = at_user_id (rotation_access j row a r now ?t0)"
      "\<exists>u \<in> set (users ?m). u_id u = rt_user_id (rotation_refresh i row a r now ?t0)"
      using l(4) m by (auto simp: row_with_user_def)
  qed
  then have "rotated row now ?t0 c (view t c) ls"
    using l(3,5) unfolding rotated_def minted_def by blast
  with l show ?thesis by blast
qed

lemma revoke_by_ids:
  assumes "keys_ok c"
  shows "apply_change (PutRevoked (live_ids f c) t0) c = revoked f t0 c"
proof -
  have "rt_id r \<in> set (live_ids f c) \<longleftrightarrow> rt_token_family r = f \<and> rt_revoked_at r = None"
    if "r \<in> set (refresh_tokens c)" for r
    using keys_unique(2) [OF assms that] that unfolding live_ids_iff by metis
  then show ?thesis
    by (simp add: revoked_def revoke_token_family_def update_where_def cong: map_cong)
qed

text \<open>The tables after the commit of a revocation: those of one revocation of the current family.\<close>

lemma commit_revokes:
  assumes "keys_ok c" and "tx_ok rq c t" and "t_stage t = Committing row None"
  shows "locked_row (fst rq) (t_start t) c = Some row \<and> is_replay row (snd rq) \<and>
    view t c = revoked (rt_token_family row) (t_start t) c"
  using assms(2,3) revoke_by_ids [OF assms(1)] by (simp add: tx_ok_def view_def)

text \<open>For everybody else the commit is a change under locks they do not hold.\<close>

lemma commit_foreign:
  assumes "keys_ok c" and "tx_ok rq c t" and "t_stage t = Committing row out" and "held lk t \<inter> K = {}"
  shows "evolves lk K c (view t c)"
proof (cases out)
  case None
  with assms have w: "t_writes t = [PutRevoked (live_ids (rt_token_family row) c) (t_start t)]"
    by (simp add: tx_ok_def)
  with assms(4) have "foreign lk K c (PutRevoked (live_ids (rt_token_family row) c) (t_start t))"
    by (auto simp: foreign_def held_def)
  from evolves_change [OF this] show ?thesis by (simp add: view_def w)
next
  case (Some ls)
  let ?t0 = "t_start t"
  from assms(2,3) obtain i j a r now where l: "locked_row (fst rq) ?t0 c = Some row" "usable row (snd rq) now"
    and w: "t_writes t = [PutUsed (rt_id row) ?t0, PutRefresh (rotation_refresh i row a r now ?t0),
          PutAccess (rotation_access j row a r now ?t0)]"
    by (auto simp: tx_ok_def Some)
  obtain q where q: "q \<in> set (refresh_tokens c)" "rt_id row = rt_id q" "rt_token_family row = rt_token_family q"
    "rt_used_at row = rt_used_at q" "rt_revoked_at row = rt_revoked_at q"
    by (rule locked_row_obtain [OF assms(1) l(1)])
  have K: "RowLock (rt_id row) \<notin> K" "FamilyLock (lk (rt_token_family row)) \<notin> K"
    "claims (PutRefresh (rotation_refresh i row a r now ?t0)) \<inter> K = {}"
    "claims (PutAccess (rotation_access j row a r now ?t0)) \<inter> K = {}"
    using assms(3,4) by (auto simp: held_def w)
  have "rt_used_at r' = None" if "r' \<in> set (refresh_tokens c)" "rt_id r' = rt_id row" for r'
    using that q(1,2,4) l(2) assms(1) by (auto simp: keys_ok_def usable_def distinct_map dest: inj_onD)
  then have "foreign lk K c (PutUsed (rt_id row) ?t0)" using K(1) by (auto simp: foreign_def)
  note 1 = evolves_change [OF this]
  let ?q = "q\<lparr>rt_used_at := Some ?t0\<rparr>"
  have "?q \<in> set (refresh_tokens (marked (rt_id row) ?t0 c))" "rt_revoked_at ?q = None"
    "rt_token_family ?q = rt_token_family row"
    using q l(2) by (auto simp: marked_def mark_refresh_token_used_def in_update_where usable_def)
  then have "\<exists>r \<in> set (refresh_tokens (marked (rt_id row) ?t0 c)).
      rt_token_family r = rt_token_family row \<and> rt_revoked_at r = None" by blast
  then have "foreign lk K (marked (rt_id row) ?t0 c) (PutRefresh (rotation_refresh i row a r now ?t0))"
    using K(2,3) by (auto simp: foreign_def)
  note 2 = evolves_trans [OF 1 [unfolded apply_change.simps] evolves_change [OF this]]
  have "foreign lk K c' (PutAccess (rotation_access j row a r now ?t0))" for c'
    using K(4) by (auto simp: foreign_def)
  note 3 = evolves_trans [OF 2 evolves_change [OF this]]
  then show ?thesis by (simp add: view_def w)
qed

lemma commit_keys:
  assumes "keys_ok c" and "tx_ok rq c t" and "t_stage t = Committing row out"
  shows "keys_ok (view t c)"
proof (cases out)
  case None
  with assms have "view t c = revoked (rt_token_family row) (t_start t) c" using commit_revokes by blast
  with assms(1) show ?thesis
    by (simp add: keys_ok_def revoked_def revoke_token_family_def map_update_where)
next
  case (Some ls)
  with assms(2,3) obtain i j a r now where
    w: "t_writes t = [PutUsed (rt_id row) (t_start t), PutRefresh (rotation_refresh i row a r now (t_start t)),
          PutAccess (rotation_access j row a r now (t_start t))]"
    and f: "fresh_refresh (rotation_refresh i row a r now (t_start t)) c"
    by (auto simp: tx_ok_def)
  from assms(1) f show ?thesis
    by (auto simp: view_def w keys_ok_def fresh_refresh_def marked_def mark_refresh_token_used_def map_update_where)
qed

section \<open>One step\<close>

text \<open>A step of a request ends it without a commit, commits it, or moves it to a next stage with some more
  locks and a knowledge that is true.\<close>

definition moved :: "(uuid \<Rightarrow> int) \<Rightarrow> string \<times> string \<Rightarrow> pid \<Rightarrow> sys \<Rightarrow> sys \<Rightarrow> bool" where
  "moved lk rq p s s' \<longleftrightarrow>
     (\<exists>t' ks s1. takes p ks s = Some s1 \<and> s' = s1\<lparr>s_txn := (s_txn s)(p := t')\<rparr> \<and>
        held lk t' = held lk (s_txn s p) \<union> set ks \<and> tx_ok rq (s_tabs s) t' \<and>
        (t_stage (s_txn s p) \<noteq> Arrived \<longrightarrow> t_start t' = t_start (s_txn s p)) \<and>
        (\<forall>out. t_stage t' \<noteq> Finished out))"

definition ended :: "pid \<Rightarrow> sys \<Rightarrow> sys \<Rightarrow> bool" where
  "ended p s s' \<longleftrightarrow> (\<exists>out s1. s' = finish p out s1 \<and> same_others p s s1 \<and> s_tabs s1 = s_tabs s \<and>
     (\<forall>ls. out \<noteq> Inr (Some ls)))"

lemma endedI: "same_others p s s1 \<Longrightarrow> s_tabs s1 = s_tabs s \<Longrightarrow> \<forall>ls. out \<noteq> Inr (Some ls) \<Longrightarrow> ended p s (finish p out s1)"
  unfolding ended_def by blast

lemma takes_tabs: "takes p ks s = Some s1 \<Longrightarrow> s_tabs s1 = s_tabs s \<and> s_txn s1 = s_txn s \<and> s_db s1 = s_db s"
  by (auto simp: takes_Some)

lemma takes_none [simp]: "takes p [] s = Some s"
  by (simp add: takes_def)

lemma movedI:
  assumes "takes p ks s = Some s1" and "s' = s1\<lparr>s_txn := (s_txn s)(p := t')\<rparr>"
    and "held lk t' = held lk (s_txn s p) \<union> set ks" and "tx_ok rq (s_tabs s) t'"
    and "t_stage (s_txn s p) \<noteq> Arrived \<Longrightarrow> t_start t' = t_start (s_txn s p)"
    and "\<And>out. t_stage t' \<noteq> Finished out"
  shows "moved lk rq p s s'"
  unfolding moved_def using assms by blast

text \<open>Moving on without a lock.\<close>

lemma moved_goto:
  assumes "stage_locks lk st = stage_locks lk (t_stage (s_txn s p))"
    and "stage_ok rq (t_start (s_txn s p)) (t_writes (s_txn s p)) (s_tabs s) st"
    and "\<And>out. st \<noteq> Finished out"
  shows "moved lk rq p s (goto p st s)"
  by (rule movedI [where ks = "[]" and t' = "(s_txn s p)\<lparr>t_stage := st\<rparr>"])
     (use assms in \<open>auto simp: goto_def held_def tx_ok_def\<close>)

lemma step_begin_moved:
  assumes "step_begin p s = Some s'" "t_stage (s_txn s p) = Arrived" "tx_ok rq (s_tabs s) (s_txn s p)"
  shows "moved lk rq p s s'"
  by (rule movedI [where ks = "[]" and t' = "\<lparr>t_stage = Begun, t_start = s_db s, t_writes = []\<rparr>"])
     (use assms in \<open>auto simp: step_begin_def held_def tx_ok_def\<close>)

lemma select_Inr:
  "fst (get_refresh_token_by_selector sel t0 c) = Inr r \<longleftrightarrow> find (\<lambda>r. rt_selector r = sel) (refresh_tokens c) = Some r"
  "fst (get_refresh_token_by_selector_for_update sel t0 c) = Inr row \<longleftrightarrow> locked_row sel t0 c = Some row"
  by (auto simp: get_refresh_token_by_selector_def get_refresh_token_by_selector_for_update_def one_row_def
      locked_row_def split: option.splits)

lemma view_nothing: "t_writes t = [] \<Longrightarrow> view t c = c"
  by (simp add: view_def)

lemma step_preread_moved:
  assumes "step_preread (fst rq) p s = Some s'" and st: "t_stage (s_txn s p) = Begun"
    and ok: "tx_ok rq (s_tabs s) (s_txn s p)"
  shows "moved lk rq p s s' \<or> ended p s s'"
proof -
  let ?t = "s_txn s p"
  have w: "t_writes ?t = []" using ok st by (simp add: tx_ok_def)
  show ?thesis
  proof (cases "fst (get_refresh_token_by_selector (fst rq) (t_start ?t) (view ?t (s_tabs s)))")
    case (Inl e) with assms(1) show ?thesis
      by (auto simp: step_preread_def split: if_splits intro!: endedI)
  next
    case (Inr pre)
    with select_Inr(1) [of "fst rq" "t_start ?t" "s_tabs s" pre] have "knows_family (fst rq) pre (s_tabs s)"
      by (auto simp: view_nothing [OF w] knows_family_def dest: find_SomeD)
    with assms(1) Inr w show ?thesis by (auto simp: step_preread_def st intro!: moved_goto)
  qed
qed

lemma step_family_moved:
  assumes "step_family lk pre p s = Some s'" and st: "t_stage (s_txn s p) = Preread pre"
    and ok: "tx_ok rq (s_tabs s) (s_txn s p)"
  shows "moved lk rq p s s'"
proof -
  obtain s1 where s1: "takes p [FamilyLock (lk (rt_token_family pre))] s = Some s1" "s' = goto p (FamilyHeld pre) s1"
    using assms(1) by (auto simp: step_family_def)
  show ?thesis
    by (rule movedI [OF s1(1), where t' = "(s_txn s p)\<lparr>t_stage := FamilyHeld pre\<rparr>"])
       (use s1 st ok takes_tabs [OF s1(1)] in \<open>auto simp: goto_def held_def tx_ok_def\<close>)
qed

lemma step_row_moved:
  assumes "step_row (fst rq) p s = Some s'" and st: "t_stage (s_txn s p) = FamilyHeld pre"
    and ok: "tx_ok rq (s_tabs s) (s_txn s p)" and k: "keys_ok (s_tabs s)"
  shows "moved lk rq p s s' \<or> ended p s s'"
proof -
  let ?t = "s_txn s p"
  have w: "t_writes ?t = []" "knows_family (fst rq) pre (s_tabs s)" using ok st by (simp_all add: tx_ok_def)
  show ?thesis
  proof (cases "fst (get_refresh_token_by_selector_for_update (fst rq) (t_start ?t) (view ?t (s_tabs s)))")
    case (Inl e) with assms(1) show ?thesis
      by (auto simp: step_row_def split: if_splits intro!: endedI)
  next
    case (Inr row)
    then have row: "locked_row (fst rq) (t_start ?t) (s_tabs s) = Some row"
      by (simp add: select_Inr view_nothing [OF w(1)])
    obtain r where "r \<in> set (refresh_tokens (s_tabs s))" "rt_selector r = fst rq" "rt_token_family row = rt_token_family r"
      by (rule locked_row_obtain [OF k row])
    with w(2) keys_unique(1) [OF k] have f: "rt_token_family row = rt_token_family pre"
      by (metis knows_family_def)
    obtain s1 where s1: "takes p [RowLock (rt_id row)] s = Some s1" "s' = goto p (RowHeld row) s1"
      using assms(1) Inr by (auto simp: step_row_def)
    have "moved lk rq p s s'"
      by (rule movedI [OF s1(1), where t' = "(s_txn s p)\<lparr>t_stage := RowHeld row\<rparr>"])
         (use s1 st w row f takes_tabs [OF s1(1)] in \<open>auto simp: goto_def held_def tx_ok_def\<close>)
    then show ?thesis ..
  qed
qed

lemma step_decide_moved:
  assumes "step_decide (snd rq) now row p s = Some s'" and st: "t_stage (s_txn s p) = RowHeld row"
    and ok: "tx_ok rq (s_tabs s) (s_txn s p)"
  shows "moved lk rq p s s' \<or> ended p s s'"
proof -
  have w: "t_writes (s_txn s p) = []" "locked_row (fst rq) (t_start (s_txn s p)) (s_tabs s) = Some row"
    using ok st by (simp_all add: tx_ok_def)
  consider "s' = finish p (Inr None) s"
    | "s' = goto p (Replaying row) s" "is_replay row (snd rq)" | "s' = goto p (Looking row now) s" "usable row (snd rq) now"
    using assms(1) by (auto simp: step_decide_def is_replay_def usable_def split: option.splits if_splits)
  then show ?thesis
  proof cases
    case 1 then show ?thesis by (auto intro: endedI)
  next
    case 2 with w show ?thesis by (auto simp: st intro!: moved_goto)
  next
    case 3 with w show ?thesis by (auto simp: st intro!: moved_goto)
  qed
qed

lemma step_user_moved:
  assumes "step_user row now p s = Some s'" and st: "t_stage (s_txn s p) = Looking row now"
    and ok: "tx_ok rq (s_tabs s) (s_txn s p)"
  shows "moved lk rq p s s' \<or> ended p s s'"
proof -
  have "stage_ok rq (t_start (s_txn s p)) (t_writes (s_txn s p)) (s_tabs s) (Marking row now)"
    using ok st by (simp add: tx_ok_def)
  then show ?thesis
    using assms(1) by (auto simp: step_user_def st split: sum.splits if_splits intro!: moved_goto endedI)
qed

lemma step_mark_moved:
  assumes "step_mark d row now p s = Some s'" and st: "t_stage (s_txn s p) = Marking row now"
    and ok: "tx_ok rq (s_tabs s) (s_txn s p)" and d: "valid_draw d"
  shows "moved lk rq p s s'"
proof -
  let ?t = "s_txn s p"
  let ?t' = "?t\<lparr>t_writes := [PutUsed (rt_id row) (t_start ?t)],
      t_stage := InsertingRefresh row (access_of (dr_raw d)) (refresh_of (dr_sel d) (dr_ver d)) now\<rparr>"
  have w: "t_writes ?t = []" "locked_row (fst rq) (t_start ?t) (s_tabs s) = Some row" "usable row (snd rq) now"
    using ok st by (simp_all add: tx_ok_def)
  obtain s1 where s1: "takes p [RowLock (rt_id row)] s = Some s1"
    "s' = goto p (t_stage ?t') (writes p (PutUsed (rt_id row) (t_start (s_txn s1 p))) s1)"
    using assms(1) by (auto simp: step_mark_def)
  have "minted (access_of (dr_raw d)) (refresh_of (dr_sel d) (dr_ver d))"
    using d unfolding minted_def valid_draw_def by blast
  then show ?thesis
    by (intro movedI [OF s1(1), where t' = ?t'])
       (use s1 st w takes_tabs [OF s1(1)] in \<open>auto simp: goto_def writes_def held_def tx_ok_def\<close>)
qed

lemma view_marked: "t_writes t = [PutUsed i t0] \<Longrightarrow> view t c = marked i t0 c"
  by (simp add: view_def)

lemma fresh_marked:
  "fresh_refresh x (marked i t0 c) \<longleftrightarrow> fresh_refresh x c" "row_with_user row (marked i t0 c) \<longleftrightarrow> row_with_user row c"
proof -
  have "map (\<lambda>r. (rt_id r, rt_selector r)) (refresh_tokens (marked i t0 c)) =
      map (\<lambda>r. (rt_id r, rt_selector r)) (refresh_tokens c)"
    by (simp add: marked_def mark_refresh_token_used_def map_update_where)
  from arg_cong [OF this, of set] have s: "(\<lambda>r. (rt_id r, rt_selector r)) ` set (refresh_tokens (marked i t0 c)) =
      (\<lambda>r. (rt_id r, rt_selector r)) ` set (refresh_tokens c)" by simp
  have "fresh_refresh x c' \<longleftrightarrow>
      (\<forall>k \<in> (\<lambda>r. (rt_id r, rt_selector r)) ` set (refresh_tokens c'). fst k \<noteq> rt_id x \<and> snd k \<noteq> rt_selector x)" for c'
    by (simp add: fresh_refresh_def)
  then show "fresh_refresh x (marked i t0 c) \<longleftrightarrow> fresh_refresh x c" by (simp only: s)
  show "row_with_user row (marked i t0 c) \<longleftrightarrow> row_with_user row c"
    by (simp add: row_with_user_def marked_def mark_refresh_token_used_def)
qed

lemma step_insert_refresh_moved:
  assumes "step_insert_refresh i row a r now p s = Some s'" and st: "t_stage (s_txn s p) = InsertingRefresh row a r now"
    and ok: "tx_ok rq (s_tabs s) (s_txn s p)"
  shows "moved lk rq p s s' \<or> ended p s s'"
proof -
  let ?t = "s_txn s p"
  let ?arg = "sr_refresh (rotation_rows row a r now)"
  have w: "t_writes ?t = [PutUsed (rt_id row) (t_start ?t)]" "locked_row (fst rq) (t_start ?t) (s_tabs s) = Some row"
    "usable row (snd rq) now" "minted a r"
    using ok st by (simp_all add: tx_ok_def)
  obtain s1 where s1: "takes p [TokenIdClaim i, SelectorClaim (ir_selector ?arg)] s = Some s1"
    using assms(1) by (auto simp: step_insert_refresh_def Let_def split: option.splits)
  obtain out c where o: "insert_refresh_token i ?arg (t_start ?t) (view ?t (s_tabs s)) = (out, c)"
    by (cases "insert_refresh_token i ?arg (t_start ?t) (view ?t (s_tabs s))")
  show ?thesis
  proof (cases out)
    case (Inl e) with assms(1) s1 o show ?thesis
      by (auto simp: step_insert_refresh_def Let_def intro!: endedI dest: takes_tabs same_others_takes)
  next
    case (Inr x)
    from insert_refresh_Inr [OF o [unfolded Inr]] have x: "x = rotation_refresh i row a r now (t_start ?t)" by simp
    have "fresh_refresh x (view ?t (s_tabs s))" "row_with_user row (view ?t (s_tabs s))"
      using o [unfolded Inr] by (auto simp: insert_refresh_token_def fresh_refresh_def row_with_user_def Let_def
          rotation_rows_def rows_for_def image_iff split: if_splits)
    then have f: "fresh_refresh x (s_tabs s)" "row_with_user row (s_tabs s)"
      by (simp_all add: view_marked [OF w(1)] fresh_marked)
    let ?t' = "?t\<lparr>t_writes := t_writes ?t @ [PutRefresh x], t_stage := InsertingAccess row a r now\<rparr>"
    have "s' = s1\<lparr>s_txn := (s_txn s)(p := ?t')\<rparr>"
      using assms(1) s1 o takes_tabs [OF s1]
      by (auto simp: step_insert_refresh_def Let_def Inr goto_def writes_def)
    moreover have "rt_selector x = ir_selector ?arg" "rt_id x = i" by (simp_all add: x refresh_row_of_def)
    ultimately have "moved lk rq p s s'"
      by (intro movedI [OF s1, where t' = ?t']) (use st w f in \<open>auto simp: held_def tx_ok_def x\<close>)
    then show ?thesis ..
  qed
qed

lemma step_insert_access_moved:
  assumes "step_insert_access j row a r now p s = Some s'" and st: "t_stage (s_txn s p) = InsertingAccess row a r now"
    and ok: "tx_ok rq (s_tabs s) (s_txn s p)"
  shows "moved lk rq p s s' \<or> ended p s s'"
proof -
  let ?t = "s_txn s p"
  let ?arg = "sr_access (rotation_rows row a r now)"
  obtain i where w: "t_writes ?t = [PutUsed (rt_id row) (t_start ?t), PutRefresh (rotation_refresh i row a r now (t_start ?t))]"
    and l: "locked_row (fst rq) (t_start ?t) (s_tabs s) = Some row" "usable row (snd rq) now" "minted a r"
      "row_with_user row (s_tabs s)" "fresh_refresh (rotation_refresh i row a r now (t_start ?t)) (s_tabs s)"
    using ok st by (auto simp: tx_ok_def)
  obtain s1 where s1: "takes p [AccessIdClaim j, HashClaim (ia_token_hash ?arg)] s = Some s1"
    using assms(1) by (auto simp: step_insert_access_def Let_def split: option.splits)
  obtain out c where o: "insert_access_token j ?arg (t_start ?t) (view ?t (s_tabs s)) = (out, c)"
    by (cases "insert_access_token j ?arg (t_start ?t) (view ?t (s_tabs s))")
  show ?thesis
  proof (cases out)
    case (Inl e) with assms(1) s1 o show ?thesis
      by (auto simp: step_insert_access_def Let_def intro!: endedI dest: takes_tabs same_others_takes)
  next
    case (Inr y)
    from insert_access_Inr [OF o [unfolded Inr]] have y: "y = rotation_access j row a r now (t_start ?t)" by simp
    have "fresh_access y (view ?t (s_tabs s))"
      using o [unfolded Inr] by (auto simp: insert_access_token_def fresh_access_def Let_def split: if_splits)
    then have f: "fresh_access y (s_tabs s)"
      by (simp add: view_def w fresh_access_def marked_def mark_refresh_token_used_def)
    let ?t' = "?t\<lparr>t_writes := t_writes ?t @ [PutAccess y],
        t_stage := Committing row (Some (session_of (rt_user_id row) a r now))\<rparr>"
    have "s' = s1\<lparr>s_txn := (s_txn s)(p := ?t')\<rparr>"
      using assms(1) s1 o takes_tabs [OF s1]
      by (auto simp: step_insert_access_def Let_def Inr goto_def writes_def)
    moreover have "at_token_hash y = ia_token_hash ?arg" "at_id y = j" by (simp_all add: y access_row_of_def)
    moreover have "tx_ok rq (s_tabs s) ?t'"
      using l f unfolding tx_ok_def y w
      by (simp, intro exI [of _ i] exI [of _ j] exI [of _ a] exI [of _ r] exI [of _ now]) simp
    ultimately have "moved lk rq p s s'"
      by (intro movedI [OF s1, where t' = ?t']) (use st in \<open>auto simp: held_def\<close>)
    then show ?thesis ..
  qed
qed

lemma step_revoke_moved:
  assumes "step_revoke row p s = Some s'" and st: "t_stage (s_txn s p) = Replaying row"
    and ok: "tx_ok rq (s_tabs s) (s_txn s p)"
  shows "moved lk rq p s s'"
proof -
  let ?t = "s_txn s p"
  let ?ids = "live_ids (rt_token_family row) (s_tabs s)"
  let ?t' = "?t\<lparr>t_writes := [PutRevoked ?ids (t_start ?t)], t_stage := Committing row None\<rparr>"
  have w: "t_writes ?t = []" "locked_row (fst rq) (t_start ?t) (s_tabs s) = Some row" "is_replay row (snd rq)"
    using ok st by (simp_all add: tx_ok_def)
  obtain s1 where s1: "takes p (map RowLock ?ids) s = Some s1"
    "s' = goto p (Committing row None) (writes p (PutRevoked ?ids (t_start (s_txn s1 p))) s1)"
    using assms(1) by (auto simp: step_revoke_def Let_def view_nothing [OF w(1)])
  show ?thesis
    by (intro movedI [OF s1(1), where t' = ?t'])
       (use s1 st w takes_tabs [OF s1(1)] in \<open>auto simp: goto_def writes_def held_def tx_ok_def\<close>)
qed

text \<open>The step of a request, whatever it is.\<close>

definition committed :: "pid \<Rightarrow> sys \<Rightarrow> sys \<Rightarrow> bool" where
  "committed p s s' \<longleftrightarrow> (\<exists>row out ans. t_stage (s_txn s p) = Committing row out \<and>
     s' = finish p ans (commit p s) \<and> (ans = Inr out \<or> (\<exists>e. ans = Inl e)))"

lemma tx_run_cases:
  assumes "tx_run lk rq d p s = Some s'" and "valid_draw d"
    and ok: "tx_ok rq (s_tabs s) (s_txn s p)" and k: "keys_ok (s_tabs s)"
  shows "moved lk rq p s s' \<or> ended p s s' \<or> committed p s s'"
proof (cases "t_stage (s_txn s p)")
  case Arrived
  with assms(1) step_begin_moved [OF _ Arrived ok] show ?thesis by (auto simp: tx_run_def)
next
  case Begun
  with assms(1) step_preread_moved [OF _ Begun ok] show ?thesis by (auto simp: tx_run_def)
next
  case (Preread pre)
  with assms(1) step_family_moved [OF _ Preread ok] show ?thesis by (auto simp: tx_run_def)
next
  case (FamilyHeld pre)
  with assms(1) step_row_moved [OF _ FamilyHeld ok k] show ?thesis by (auto simp: tx_run_def)
next
  case (RowHeld row)
  with assms(1) step_decide_moved [OF _ RowHeld ok] show ?thesis by (auto simp: tx_run_def)
next
  case (Replaying row)
  with assms(1) step_revoke_moved [OF _ Replaying ok] show ?thesis by (auto simp: tx_run_def)
next
  case (Looking row now)
  with assms(1) step_user_moved [OF _ Looking ok] show ?thesis by (auto simp: tx_run_def)
next
  case (Marking row now)
  with assms(1) step_mark_moved [OF _ Marking ok assms(2)] show ?thesis by (auto simp: tx_run_def)
next
  case (InsertingRefresh row a r now)
  with assms(1) step_insert_refresh_moved [OF _ InsertingRefresh ok] show ?thesis by (auto simp: tx_run_def)
next
  case (InsertingAccess row a r now)
  with assms(1) step_insert_access_moved [OF _ InsertingAccess ok] show ?thesis by (auto simp: tx_run_def)
next
  case (Committing row out)
  with assms(1) have "s' = finish p (Inr out) (commit p s)" by (simp add: tx_run_def)
  with Committing show ?thesis unfolding committed_def by blast
next
  case (Finished out)
  with assms(1) show ?thesis by (simp add: tx_run_def)
qed

lemma tx_next_cases:
  assumes "tx_next lk rq d p s = Some s'" and "valid_draw d"
    and ok: "tx_ok rq (s_tabs s) (s_txn s p)" and k: "keys_ok (s_tabs s)"
  obtains (moved) "moved lk rq p s s'" | (ended) "ended p s s'" | (committed) "committed p s s'"
proof (cases "dr_fault d")
  case NoFault
  with assms(1) have "tx_run lk rq d p s = Some s'"
    by (simp add: tx_next_def split: stage.splits)
  from tx_run_cases [OF this assms(2) ok k] that show thesis by blast
next
  case (FailBefore e)
  with assms(1) have "s' = finish p (Inl e) s" by (simp add: tx_next_def split: stage.splits)
  then show thesis by (intro ended) (auto intro: endedI)
next
  case (FailAfter e)
  show thesis
  proof (cases "\<exists>row out. t_stage (s_txn s p) = Committing row out")
    case True
    with assms(1) FailAfter have "s' = finish p (Inl e) (commit p s)" by (auto simp: tx_next_def)
    with True show thesis by (intro committed) (auto simp: committed_def)
  next
    case False
    with assms(1) FailAfter have "s' = finish p (Inl e) s" by (auto simp: tx_next_def split: stage.splits)
    then show thesis by (intro ended) (auto intro: endedI)
  qed
qed

section \<open>The invariant\<close>

lemma tx_ok_evolves:
  assumes "keys_ok c" "keys_ok c'" and "evolves lk (held lk t) c c'" and "tx_ok rq c t"
  shows "tx_ok rq c' t"
  using stage_ok_evolves [OF assms(1,2)] assms(3,4) by (simp add: tx_ok_def held_def)

lemma conc_invD:
  assumes "conc_inv lk rq s"
  shows "keys_ok (s_tabs s)" and "locks_ok lk s" and "tx_ok (rq p) (s_tabs s) (s_txn s p)"
  using assms by (simp_all add: conc_inv_def)

text \<open>Nobody else's step disturbs a transaction, as long as the tables change under its locks only.\<close>

lemma conc_inv_tables:
  assumes "conc_inv lk rq s" and "keys_ok c'" and "\<And>p. evolves lk (held lk (s_txn s p)) (s_tabs s) c'"
  shows "conc_inv lk rq (s\<lparr>s_tabs := c'\<rparr>)"
  using assms tx_ok_evolves [OF conc_invD(1) [OF assms(1)] assms(2) assms(3) conc_invD(3) [OF assms(1)]]
  by (simp add: conc_inv_def locks_ok_def)

lemma tx_ok_finished: "tx_ok rq c (t\<lparr>t_stage := Finished out, t_writes := []\<rparr>)"
  by (simp add: tx_ok_def)

lemma moved_inv:
  assumes "conc_inv lk rq s" and "moved lk (rq p) p s s'"
  shows "conc_inv lk rq s'"
proof -
  from assms(2) obtain t' ks s1 where m: "takes p ks s = Some s1" "s' = s1\<lparr>s_txn := (s_txn s)(p := t')\<rparr>"
    "held lk t' = held lk (s_txn s p) \<union> set ks" "tx_ok (rq p) (s_tabs s) t'"
    by (auto simp: moved_def)
  with locks_ok_takes [OF conc_invD(2) [OF assms(1)] m(1,3)] takes_tabs [OF m(1)] assms(1)
  show ?thesis by (auto simp: conc_inv_def)
qed

lemma ended_inv:
  assumes "conc_inv lk rq s" and "ended p s s'"
  shows "conc_inv lk rq s'"
proof -
  from assms(2) obtain out s1 where e: "s' = finish p out s1" "same_others p s s1" "s_tabs s1 = s_tabs s"
    by (auto simp: ended_def)
  from e(2) have "s_txn s1 = s_txn s" by (simp add: same_others_def)
  with locks_ok_finish [OF conc_invD(2) [OF assms(1)] e(2), of out] e assms(1) show ?thesis
    by (auto simp: conc_inv_def finish_def tx_ok_finished)
qed

lemma same_others_commit: "same_others p s (commit p s)"
  by (simp add: commit_def same_others_def)

lemma committed_inv:
  assumes inv: "conc_inv lk rq s" and "committed p s s'"
  shows "conc_inv lk rq s'"
proof -
  note i = conc_invD [OF inv]
  from assms(2) obtain row out ans where st: "t_stage (s_txn s p) = Committing row out"
    and s': "s' = finish p ans (commit p s)" by (auto simp: committed_def)
  let ?c' = "view (s_txn s p) (s_tabs s)"
  have k: "keys_ok ?c'" by (rule commit_keys [OF i(1) i(3) st])
  have "tx_ok (rq q) ?c' (s_txn s q)" if "q \<noteq> p" for q
  proof (rule tx_ok_evolves [OF i(1) k _ i(3)])
    have "held lk (s_txn s p) \<inter> held lk (s_txn s q) = {}"
      using locks_ok_disjoint [OF i(2)] that by blast
    then show "evolves lk (held lk (s_txn s q)) (s_tabs s) ?c'" by (rule commit_foreign [OF i(1) i(3) st])
  qed
  with k locks_ok_finish [OF i(2) same_others_commit, of p ans] show ?thesis
    by (auto simp: s' conc_inv_def finish_def commit_def tx_ok_finished)
qed

lemma login_keys: "login_rows r a s \<Longrightarrow> keys_ok (s_tabs s) \<Longrightarrow> keys_ok (with_login r a (s_tabs s))"
  by (auto simp: login_rows_def keys_ok_def with_login_def)

text \<open>What a step does to the tables, under no lock at all.\<close>

lemma conc_step_inv:
  assumes inv: "conc_inv lk rq s" and "conc_step lk rq s s'"
  shows "conc_inv lk rq s' \<and> evolves lk {} (s_tabs s) (s_tabs s')"
  using assms(2)
proof cases
  case (conc_tx p d)
  from conc_tx conc_invD(3) [OF inv] conc_invD(1) [OF inv] show ?thesis
  proof (cases rule: tx_next_cases)
    case moved
    with moved_inv [OF inv moved] takes_tabs show ?thesis by (auto simp: moved_def)
  next
    case ended
    with ended_inv [OF inv ended] show ?thesis by (auto simp: ended_def finish_def)
  next
    case committed
    then obtain row out ans where st: "t_stage (s_txn s p) = Committing row out"
      "s' = finish p ans (commit p s)" by (auto simp: committed_def)
    from commit_foreign [OF conc_invD(1) [OF inv] conc_invD(3) [OF inv] st(1), of lk "{}"]
      committed_inv [OF inv committed] show ?thesis
      by (simp add: st(2) finish_def commit_def)
  qed
next
  case (conc_tick t)
  with inv show ?thesis by (simp add: conc_inv_def locks_ok_def)
next
  case (conc_login r a)
  have e: "evolves lk K (s_tabs s) (with_login r a (s_tabs s))" if "\<And>k. k \<in> K \<Longrightarrow> s_locks s k \<noteq> None" for K
    using conc_login(2) that by (rule evolves_login)
  have "conc_inv lk rq (s\<lparr>s_tabs := with_login r a (s_tabs s)\<rparr>)"
    by (rule conc_inv_tables [OF inv login_keys [OF conc_login(2) conc_invD(1) [OF inv]] e])
       (use conc_invD(2) [OF inv] in \<open>simp add: locks_ok_D\<close>)
  with conc_login(1) e [of "{}"] show ?thesis by (simp add: with_login_def)
next
  case (conc_others c')
  have "keys_ok c'" using conc_invD(1) [OF inv] conc_others(2) by (simp add: keys_ok_def others_def)
  from conc_inv_tables [OF inv this evolves_others [OF conc_others(2)]] conc_others evolves_others [OF conc_others(2)] show ?thesis by simp
qed

lemma conc_inv_init: "keys_ok c \<Longrightarrow> conc_inv lk rq (fresh_sys c t)"
  by (simp add: conc_inv_def fresh_sys_def locks_ok_def held_def tx_ok_def)

lemma conc_steps_inv:
  assumes "conc_steps lk rq s s'" and "conc_inv lk rq s"
  shows "conc_inv lk rq s'"
  using assms by (induction rule: rtranclp_induct) (auto dest: conc_step_inv)

lemma conc_reachable_inv: "conc_reachable lk rq s \<Longrightarrow> conc_inv lk rq s"
  unfolding conc_reachable_def by (auto intro: conc_steps_inv conc_inv_init)

end
