(* ===== verification/RefreshConcSpec.thy ===== *)
theory RefreshConcSpec
  imports RefreshConcInv
begin

text \<open>
  What rotation promises when requests overlap, for every schedule, every latency, every failure and
  whatever logins and other writers do in between: every commit is one whole rotation or one whole
  revocation of the current row, one token makes one session, a revoked family stays revoked, the
  honest double request does not cost the family, and nobody waits in a circle.
\<close>

section \<open>Winners\<close>

definition answered :: "sys \<Rightarrow> pid \<Rightarrow> login_session \<Rightarrow> bool" where
  "answered s p ls \<longleftrightarrow> t_stage (s_txn s p) = Finished (Inr (Some ls))"

text \<open>The row of a selector carries the start time of the transaction that used it.\<close>

definition used_by :: "string \<Rightarrow> time \<Rightarrow> tables \<Rightarrow> bool" where
  "used_by sel t0 c \<longleftrightarrow> (\<exists>r \<in> set (refresh_tokens c). rt_selector r = sel \<and> rt_used_at r = Some t0)"

lemma used_by_evolves: "evolves lk K c c' \<Longrightarrow> used_by sel t0 c \<Longrightarrow> used_by sel t0 c'"
  unfolding used_by_def
proof (elim bexE conjE)
  fix r assume e: "evolves lk K c c'" and r: "r \<in> set (refresh_tokens c)" "rt_selector r = sel" "rt_used_at r = Some t0"
  obtain r' where "r' \<in> set (refresh_tokens c')" "derives r r'" using evolves_row [OF e r(1)] by blast
  with r show "\<exists>r \<in> set (refresh_tokens c'). rt_selector r = sel \<and> rt_used_at r = Some t0"
    by (auto simp: derives_def)
qed

lemma used_by_locked:
  assumes "keys_ok c" and "used_by sel t0 c" and "locked_row sel t1 c = Some row"
  shows "rt_used_at row = Some t0"
proof -
  obtain r where r: "r \<in> set (refresh_tokens c)" "rt_selector r = sel" "rt_used_at row = rt_used_at r"
    by (rule locked_row_obtain [OF assms(1,3)])
  with assms(2) keys_unique(1) [OF assms(1)] show ?thesis unfolding used_by_def by metis
qed

lemma marked_used_by:
  assumes "keys_ok c" and "locked_row sel t1 c = Some row"
  shows "used_by sel t0 (marked (rt_id row) t0 c)"
proof -
  obtain r where r: "r \<in> set (refresh_tokens c)" "rt_selector r = sel" "rt_id row = rt_id r"
    by (rule locked_row_obtain [OF assms])
  then show ?thesis
    unfolding used_by_def marked_def mark_refresh_token_used_def
    by (intro bexI [of _ "r\<lparr>rt_used_at := Some t0\<rparr>"]) (auto simp: in_update_where)
qed

lemma rotated_used_by:
  assumes "keys_ok c" and "locked_row sel t0 c = Some row" and "rotated row now t0 c c' ls"
  shows "used_by sel t0 c'"
proof -
  from assms(3) obtain rows where "session_inserted rows (marked (rt_id row) t0 c) c'" by (auto simp: rotated_def)
  with marked_used_by [OF assms(1,2)] show ?thesis
    by (auto simp: used_by_def session_inserted_def Let_def)
qed

definition winners_ok :: "(pid \<Rightarrow> string \<times> string) \<Rightarrow> sys \<Rightarrow> bool" where
  "winners_ok rq s \<longleftrightarrow>
     (\<forall>p ls. answered s p ls \<longrightarrow> used_by (fst (rq p)) (t_start (s_txn s p)) (s_tabs s)) \<and>
     (\<forall>p q ls ls'. answered s p ls \<longrightarrow> answered s q ls' \<longrightarrow> fst (rq p) = fst (rq q) \<longrightarrow> p = q)"

text \<open>The two ways a step relates to who has been answered.\<close>

lemma winners_ok_same:
  assumes "winners_ok rq s" and "evolves lk {} (s_tabs s) (s_tabs s')"
    and "\<And>p ls. answered s' p ls \<Longrightarrow> answered s p ls \<and> s_txn s' p = s_txn s p"
  shows "winners_ok rq s'"
  unfolding winners_ok_def
proof (intro conjI allI impI)
  fix p ls assume "answered s' p ls"
  with assms(1,3) have "used_by (fst (rq p)) (t_start (s_txn s' p)) (s_tabs s)" by (auto simp: winners_ok_def)
  with assms(2) show "used_by (fst (rq p)) (t_start (s_txn s' p)) (s_tabs s')" by (rule used_by_evolves)
qed (use assms(1,3) in \<open>metis winners_ok_def\<close>)

lemma winners_ok_step:
  assumes inv: "conc_inv lk rq s" and w: "winners_ok rq s" and step: "conc_step lk rq s s'"
  shows "winners_ok rq s'"
proof -
  note e = conjunct2 [OF conc_step_inv [OF inv step]]
  note i = conc_invD [OF inv]
  from step show ?thesis
  proof cases
    case (conc_tx p d)
    have nf: "\<not> answered s p ls" for ls
      using conc_tx(1) by (auto simp: answered_def tx_next_def)
    from conc_tx i(3) i(1) show ?thesis
    proof (cases rule: tx_next_cases)
      case moved
      show ?thesis
        by (rule winners_ok_same [OF w e]) (use moved takes_tabs in \<open>auto simp: moved_def answered_def split: if_splits\<close>)
    next
      case ended
      show ?thesis
        by (rule winners_ok_same [OF w e])
           (use ended in \<open>auto simp: ended_def answered_def finish_def same_others_def split: if_splits\<close>)
    next
      case committed
      then obtain row out ans where st: "t_stage (s_txn s p) = Committing row out"
        and s': "s' = finish p ans (commit p s)" and ans: "ans = Inr out \<or> (\<exists>e. ans = Inl e)"
        by (auto simp: committed_def)
      have old: "answered s' q ls \<Longrightarrow> q \<noteq> p \<Longrightarrow> answered s q ls \<and> s_txn s' q = s_txn s q" for q ls
        by (auto simp: s' answered_def finish_def commit_def)
      show ?thesis
      proof (cases "\<exists>ls. ans = Inr (Some ls)")
        case False
        then have "\<not> answered s' p ls" for ls by (auto simp: s' answered_def finish_def)
        with old show ?thesis by (intro winners_ok_same [OF w e]) metis
      next
        case True
        with ans obtain ls where out: "out = Some ls" by auto
        from commit_rotates [OF i(1) i(3) st [unfolded out]] obtain now where
          row: "locked_row (fst (rq p)) (t_start (s_txn s p)) (s_tabs s) = Some row" "usable row (snd (rq p)) now"
          and rot: "rotated row now (t_start (s_txn s p)) (s_tabs s) (view (s_txn s p) (s_tabs s)) ls" by blast
        have tabs: "s_tabs s' = view (s_txn s p) (s_tabs s)" and start: "t_start (s_txn s' p) = t_start (s_txn s p)"
          by (simp_all add: s' finish_def commit_def)
        have no: "fst (rq q) \<noteq> fst (rq p)" if "answered s q ls'" for q ls'
        proof
          assume "fst (rq q) = fst (rq p)"
          with that w have "used_by (fst (rq p)) (t_start (s_txn s q)) (s_tabs s)" by (metis winners_ok_def)
          from used_by_locked [OF i(1) this row(1)] row(2) show False by (simp add: usable_def)
        qed
        show ?thesis
          unfolding winners_ok_def
        proof (intro conjI allI impI)
          fix q lq assume a: "answered s' q lq"
          show "used_by (fst (rq q)) (t_start (s_txn s' q)) (s_tabs s')"
          proof (cases "q = p")
            case True
            with rotated_used_by [OF i(1) row(1) rot] start tabs show ?thesis by simp
          next
            case False
            with old [OF a] w used_by_evolves [OF e] show ?thesis by (auto simp: winners_ok_def)
          qed
        next
          fix q q' lq lq' assume a: "answered s' q lq" "answered s' q' lq'" "fst (rq q) = fst (rq q')"
          with old no w show "q = q'" unfolding winners_ok_def by metis
        qed
      qed
    qed
  next
    case (conc_tick t)
    show ?thesis by (rule winners_ok_same [OF w e]) (simp add: conc_tick answered_def)
  next
    case (conc_login r a)
    show ?thesis by (rule winners_ok_same [OF w e]) (simp add: conc_login answered_def)
  next
    case (conc_others c')
    show ?thesis by (rule winners_ok_same [OF w e]) (simp add: conc_others answered_def)
  qed
qed

lemma conc_reachable_winners:
  assumes "conc_reachable lk rq s"
  shows "winners_ok rq s"
proof -
  from assms obtain c t where k: "keys_ok c" and r: "conc_steps lk rq (fresh_sys c t) s"
    by (auto simp: conc_reachable_def)
  from r have "conc_inv lk rq s \<and> winners_ok rq s"
  proof (induction rule: rtranclp_induct)
    case base
    show ?case using conc_inv_init [OF k] by (simp add: winners_ok_def answered_def fresh_sys_def)
  next
    case (step s s')
    with conc_step_inv winners_ok_step show ?case by blast
  qed
  then show ?thesis ..
qed

section \<open>A revoked family\<close>

definition closed :: "uuid \<Rightarrow> tables \<Rightarrow> bool" where
  "closed f c \<longleftrightarrow> f \<in> families c \<and>
     (\<forall>r \<in> set (refresh_tokens c). rt_token_family r = f \<longrightarrow> rt_revoked_at r \<noteq> None)"

lemma closed_evolves:
  assumes "evolves lk K c c'" and "closed f c"
  shows "closed f c'"
  unfolding closed_def
proof (intro conjI ballI impI)
  show "f \<in> families c'" using families_evolve [OF assms(1)] assms(2) by (auto simp: closed_def)
  fix r' assume r': "r' \<in> set (refresh_tokens c')" "rt_token_family r' = f"
  from assms(1) r'(1) show "rt_revoked_at r' \<noteq> None"
  proof (cases rule: evolves_back)
    case (old r)
    with assms(2) r'(2) show ?thesis by (auto simp: closed_def derives_def)
  next
    case added
    with assms(2) r'(2) show ?thesis unfolding addable_def closed_def by blast
  qed
qed

lemma closed_steps:
  assumes "conc_steps lk rq s s'" and "conc_inv lk rq s" and "closed f (s_tabs s)"
  shows "closed f (s_tabs s')"
proof -
  from assms(1) have "conc_inv lk rq s' \<and> closed f (s_tabs s')"
  proof (induction rule: rtranclp_induct)
    case (step s s')
    with conc_step_inv closed_evolves show ?case by blast
  qed (use assms(2,3) in simp)
  then show ?thesis ..
qed

lemma revoked_closed: "f \<in> families c \<Longrightarrow> closed f (revoked f t0 c)"
  unfolding closed_def families_def
proof (intro conjI ballI impI)
  assume f: "f \<in> rt_token_family ` set (refresh_tokens c)"
  have "map rt_token_family (refresh_tokens (revoked f t0 c)) = map rt_token_family (refresh_tokens c)"
    by (simp add: revoked_def revoke_token_family_def map_update_where)
  from arg_cong [OF this, of set] f show "f \<in> rt_token_family ` set (refresh_tokens (revoked f t0 c))" by simp
qed (rule revoked_all)

section \<open>Waiting\<close>

text \<open>The locks the next statement of a request needs.\<close>

definition wants :: "(uuid \<Rightarrow> int) \<Rightarrow> string \<times> string \<Rightarrow> draw \<Rightarrow> pid \<Rightarrow> sys \<Rightarrow> lock list" where
  "wants lk rq d p s =
     (case t_stage (s_txn s p) of
        Preread pre \<Rightarrow> [FamilyLock (lk (rt_token_family pre))]
      | FamilyHeld pre \<Rightarrow>
          (case locked_row (fst rq) (t_start (s_txn s p)) (view (s_txn s p) (s_tabs s)) of
             None \<Rightarrow> [] | Some row \<Rightarrow> [RowLock (rt_id row)])
      | Replaying row \<Rightarrow> map RowLock (live_ids (rt_token_family row) (view (s_txn s p) (s_tabs s)))
      | Marking row now \<Rightarrow> [RowLock (rt_id row)]
      | InsertingRefresh row a r now \<Rightarrow>
          [TokenIdClaim (dr_id d), SelectorClaim (ir_selector (sr_refresh (rotation_rows row a r now)))]
      | InsertingAccess row a r now \<Rightarrow>
          [AccessIdClaim (dr_id d), HashClaim (ia_token_hash (sr_access (rotation_rows row a r now)))]
      | _ \<Rightarrow> [])"

definition waits_for ::
  "(uuid \<Rightarrow> int) \<Rightarrow> (pid \<Rightarrow> string \<times> string) \<Rightarrow> (pid \<Rightarrow> draw) \<Rightarrow> sys \<Rightarrow> pid \<Rightarrow> pid \<Rightarrow> bool" where
  "waits_for lk rq D s p q \<longleftrightarrow> p \<noteq> q \<and> (\<exists>k \<in> set (wants lk (rq p) (D p) p s). s_locks s k = Some q)"

lemma takes_None: "takes p ks s = None \<longleftrightarrow> (\<exists>k \<in> set ks. \<exists>q. q \<noteq> p \<and> s_locks s k = Some q)"
  by (auto simp: takes_def list_all_iff)

text \<open>A request that cannot take its next step waits for somebody.\<close>

lemma stuck_waits:
  assumes "tx_next lk (rq p) (D p) p s = None" and "dr_fault (D p) = NoFault"
    and "\<And>out. t_stage (s_txn s p) \<noteq> Finished out"
  shows "\<exists>q. waits_for lk rq D s p q"
proof -
  have "tx_run lk (rq p) (D p) p s = None"
    using assms by (auto simp: tx_next_def split: stage.splits)
  then have "takes p (wants lk (rq p) (D p) p s) s = None"
    using assms(3)
    by (auto simp: tx_run_def wants_def step_begin_def step_preread_def step_family_def step_row_def step_decide_def
        step_user_def step_mark_def step_insert_refresh_def step_insert_access_def step_revoke_def Let_def
        select_Inr split: stage.splits sum.splits option.splits if_splits)
  then show ?thesis by (auto simp: takes_None waits_for_def)
qed

fun rank :: "stage \<Rightarrow> nat" where
  "rank (Preread pre) = 1"
| "rank (FamilyHeld pre) = 2"
| "rank (RowHeld row) = 2"
| "rank (Replaying row) = 2"
| "rank (Looking row now) = 2"
| "rank (Marking row now) = 2"
| "rank (InsertingRefresh row a r now) = 2"
| "rank (InsertingAccess row a r now) = 3"
| "rank (Committing row out) = 4"
| "rank _ = 0"

lemma rank_le: "rank st \<le> 4"
  by (cases st) simp_all

text \<open>Which locks are held at which rank.\<close>

lemma held_rank:
  assumes "tx_ok rq c t" and "k \<in> held lk t"
  shows "case k of FamilyLock _ \<Rightarrow> 2 \<le> rank (t_stage t) | RowLock _ \<Rightarrow> 2 \<le> rank (t_stage t)
    | TokenIdClaim _ \<Rightarrow> 3 \<le> rank (t_stage t) | SelectorClaim _ \<Rightarrow> 3 \<le> rank (t_stage t)
    | AccessIdClaim _ \<Rightarrow> 4 \<le> rank (t_stage t) | HashClaim _ \<Rightarrow> 4 \<le> rank (t_stage t)"
proof (cases "t_stage t")
  case (Committing row out)
  then show ?thesis by (simp split: lock.splits)
qed (use assms in \<open>auto simp: tx_ok_def held_def\<close>)

text \<open>Whoever holds a row holds its family.\<close>

lemma row_lock_family:
  assumes "keys_ok c" and "tx_ok rq c t" and "RowLock i \<in> held lk t"
  shows "\<exists>r \<in> set (refresh_tokens c). rt_id r = i \<and> FamilyLock (lk (rt_token_family r)) \<in> held lk t"
proof -
  have row: "\<exists>r \<in> set (refresh_tokens c). rt_id r = rt_id row \<and> FamilyLock (lk (rt_token_family r)) \<in> held lk t"
    if l: "locked_row (fst rq) (t_start t) c = Some row" and st: "stage_row (t_stage t) = Some row" for row
  proof -
    obtain r where "r \<in> set (refresh_tokens c)" "rt_id row = rt_id r" "rt_token_family row = rt_token_family r"
      by (rule locked_row_obtain [OF assms(1) l])
    with st show ?thesis by (intro bexI [of _ r]) (auto simp: held_def)
  qed
  show ?thesis
  proof (cases "t_stage t")
    case (Committing row out)
    show ?thesis
    proof (cases out)
      case None
      with Committing assms(2) have l: "locked_row (fst rq) (t_start t) c = Some row"
        "t_writes t = [PutRevoked (live_ids (rt_token_family row) c) (t_start t)]" by (simp_all add: tx_ok_def)
      with assms(3) Committing have "i = rt_id row \<or> i \<in> set (live_ids (rt_token_family row) c)"
        by (auto simp: held_def)
      then show ?thesis
        using row [OF l(1)] Committing by (auto simp: live_ids_iff held_def)
    next
      case (Some ls)
      with Committing assms(2,3) have "i = rt_id row" "locked_row (fst rq) (t_start t) c = Some row"
        by (auto simp: tx_ok_def held_def)
      with row Committing show ?thesis by simp
    qed
  next
    case (InsertingAccess row' a r now)
    with assms(2,3) have "i = rt_id row'" "locked_row (fst rq) (t_start t) c = Some row'"
      by (auto simp: tx_ok_def held_def)
    with row InsertingAccess show ?thesis by simp
  qed (use assms(2,3) row in \<open>auto simp: tx_ok_def held_def\<close>)
qed

text \<open>So nobody ever waits for a row: the family lock has already decided.\<close>

lemma no_row_wait:
  assumes inv: "conc_inv lk rq s" and "FamilyLock (lk f) \<in> held lk (s_txn s p)"
    and r: "r \<in> set (refresh_tokens (s_tabs s))" "rt_token_family r = f" and "p \<noteq> q"
  shows "s_locks s (RowLock (rt_id r)) \<noteq> Some q"
proof
  note i = conc_invD [OF inv]
  assume "s_locks s (RowLock (rt_id r)) = Some q"
  with i(2) have "RowLock (rt_id r) \<in> held lk (s_txn s q)" by (simp add: locks_ok_def)
  from row_lock_family [OF i(1) i(3) this] obtain r' where "r' \<in> set (refresh_tokens (s_tabs s))" "rt_id r' = rt_id r"
    "FamilyLock (lk (rt_token_family r')) \<in> held lk (s_txn s q)" by blast
  with keys_unique(2) [OF i(1)] r have "FamilyLock (lk f) \<in> held lk (s_txn s q)" by metis
  with locks_ok_disjoint [OF i(2) assms(2,5)] show False by blast
qed

lemma waits_rank:
  assumes inv: "conc_inv lk rq s" and w: "waits_for lk rq D s p q"
  shows "rank (t_stage (s_txn s p)) < rank (t_stage (s_txn s q))"
proof -
  note i = conc_invD [OF inv]
  from w obtain k where k: "k \<in> set (wants lk (rq p) (D p) p s)" "s_locks s k = Some q" "p \<noteq> q"
    by (auto simp: waits_for_def)
  from k(2) i(2) have "k \<in> held lk (s_txn s q)" by (simp add: locks_ok_def)
  note h = held_rank [OF i(3) this]
  note ok = i(3) [of p]
  have norow: False if "k = RowLock (rt_id r)" "r \<in> set (refresh_tokens (s_tabs s))"
      "FamilyLock (lk (rt_token_family r)) \<in> held lk (s_txn s p)" for r
    using no_row_wait [OF inv that(3,2) refl k(3)] that(1) k(2) by simp
  have row: False if "k = RowLock (rt_id row)" "locked_row (fst (rq p)) (t_start (s_txn s p)) (s_tabs s) = Some row"
      "FamilyLock (lk (rt_token_family row)) \<in> held lk (s_txn s p)" for row
    using locked_row_obtain [OF i(1) that(2)] norow that(1,3) by metis
  show ?thesis
  proof (cases "t_stage (s_txn s p)")
    case (FamilyHeld pre)
    with ok have fam: "knows_family (fst (rq p)) pre (s_tabs s)" and v: "t_writes (s_txn s p) = []"
      by (simp_all add: tx_ok_def)
    from k(1) obtain row where r: "locked_row (fst (rq p)) (t_start (s_txn s p)) (s_tabs s) = Some row"
      "k = RowLock (rt_id row)"
      by (cases "locked_row (fst (rq p)) (t_start (s_txn s p)) (s_tabs s)")
         (auto simp: wants_def FamilyHeld view_nothing [OF v])
    obtain q' where q': "q' \<in> set (refresh_tokens (s_tabs s))" "rt_selector q' = fst (rq p)" "rt_id row = rt_id q'"
      "rt_token_family row = rt_token_family q'" by (rule locked_row_obtain [OF i(1) r(1)])
    with fam keys_unique(1) [OF i(1)] have "rt_token_family row = rt_token_family pre" by (metis knows_family_def)
    with row [OF r(2,1)] FamilyHeld show ?thesis by (simp add: held_def)
  next
    case (Replaying row)
    with ok have v: "t_writes (s_txn s p) = []" by (simp add: tx_ok_def)
    from k(1) obtain r where "r \<in> set (refresh_tokens (s_tabs s))" "rt_token_family r = rt_token_family row"
      "k = RowLock (rt_id r)"
      by (auto simp: wants_def Replaying view_nothing [OF v] live_ids_iff)
    with norow [of r] Replaying show ?thesis by (simp add: held_def)
  next
    case (Marking row now)
    with k(1) ok row [of row] show ?thesis by (simp add: wants_def held_def tx_ok_def)
  qed (use k(1) h in \<open>auto simp: wants_def\<close>)
qed

lemma waits_progress:
  assumes inv: "conc_inv lk rq s" and D: "\<And>p. dr_fault (D p) = NoFault"
    and "\<And>out. t_stage (s_txn s p) \<noteq> Finished out"
  shows "\<exists>q s'. (waits_for lk rq D s)\<^sup>*\<^sup>* p q \<and> tx_next lk (rq q) (D q) q s = Some s'"
  using assms(3)
proof (induction "4 - rank (t_stage (s_txn s p))" arbitrary: p rule: less_induct)
  case less
  show ?case
  proof (cases "tx_next lk (rq p) (D p) p s")
    case None
    from stuck_waits [of lk rq p D s, OF None D less.prems] obtain q where q: "waits_for lk rq D s p q" by blast
    have r: "rank (t_stage (s_txn s p)) < rank (t_stage (s_txn s q))" by (rule waits_rank [OF inv q])
    with rank_le [of "t_stage (s_txn s q)"] have "4 - rank (t_stage (s_txn s q)) < 4 - rank (t_stage (s_txn s p))"
      by linarith
    moreover from r have "t_stage (s_txn s q) \<noteq> Finished out" for out by auto
    ultimately obtain q' s' where "(waits_for lk rq D s)\<^sup>*\<^sup>* q q'" "tx_next lk (rq q') (D q') q' s = Some s'"
      using less.hyps by blast
    with q show ?thesis by (blast intro: converse_rtranclp_into_rtranclp)
  qed blast
qed

lemma waits_acyclic:
  assumes "conc_inv lk rq s"
  shows "\<not> (waits_for lk rq D s)\<^sup>+\<^sup>+ p p"
proof -
  have "rank (t_stage (s_txn s p)) < rank (t_stage (s_txn s q))" if "(waits_for lk rq D s)\<^sup>+\<^sup>+ p q" for p q
    using that by (induction rule: tranclp_induct) (auto dest: waits_rank [OF assms])
  then show ?thesis by blast
qed

section \<open>A race, executed\<close>

text \<open>Two requests with Alice's token.  The first begins and reads; \<open>d\<close> later the second begins and reads
  while the first is still under way, and comes to the family lock when the first has committed.\<close>

definition toy_draw :: draw where
  "toy_draw = \<lparr>dr_fault = NoFault, dr_now = 0, dr_id = replicate 16 (CHR ''i''),
     dr_raw = replicate 32 (CHR ''r''), dr_sel = replicate 16 (CHR ''S''), dr_ver = replicate 16 (CHR ''V'')\<rparr>"

definition toy_request :: "pid \<Rightarrow> string \<times> string" where
  "toy_request p = (toy_selector, toy_verifier)"

definition toy_race_tables :: tables where
  "toy_race_tables = toy_tables\<lparr>refresh_tokens := [toy_refresh_row None]\<rparr>"

definition toy_race :: "duration \<Rightarrow> nat \<Rightarrow> nat \<Rightarrow> sys option" where
  "toy_race d m n = run_moves (\<lambda>_. 0) toy_request
     (replicate 2 (Move 0 toy_draw) @ [Wait d] @ replicate 2 (Move 1 toy_draw) @
      replicate m (Move 0 toy_draw) @ replicate n (Move 1 toy_draw)) (fresh_sys toy_race_tables 0)"

lemma toy_race_reachable: "toy_race d m n = Some s \<Longrightarrow> conc_reachable (\<lambda>_. 0) toy_request s"
  unfolding conc_reachable_def toy_race_def
  by (intro exI [of _ toy_race_tables] exI [of _ 0])
     (auto simp: keys_ok_def toy_race_tables_def intro: run_moves_steps)

lemma tx_next_quiet: "dr_fault d = NoFault \<Longrightarrow> tx_next lk rq d p s = tx_run lk rq d p s"
  by (simp add: tx_next_def tx_run_def split: stage.splits)

lemma toy_draw_simps: "dr_fault toy_draw = NoFault" "valid_draw toy_draw" "dr_now toy_draw = 0"
  "dr_id toy_draw = replicate 16 (CHR ''i'')" "dr_raw toy_draw = replicate 32 (CHR ''r'')"
  "dr_sel toy_draw = replicate 16 (CHR ''S'')" "dr_ver toy_draw = replicate 16 (CHR ''V'')"
  by (simp_all add: toy_draw_def valid_draw_def)

lemmas run_simps = tx_next_quiet toy_draw_simps tx_run_def fresh_sys_def step_begin_def step_preread_def
  step_family_def step_row_def takes_def goto_def writes_def finish_def commit_def view_def
  get_refresh_token_by_selector_def get_refresh_token_by_selector_for_update_def one_row_def
  step_decide_def step_user_def step_mark_def step_insert_refresh_def step_insert_access_def step_revoke_def
  get_user_by_id_def insert_refresh_token_def insert_access_token_def marked_def mark_refresh_token_used_def
  update_where_def rotation_rows_def rows_for_def access_of_def refresh_of_def used_recently_def expired_def
  live_ids_def refresh_row.defs Let_def

lemmas toy_race_simps = toy_race_tables_def toy_refresh_row_def toy_tables_def fixture_users user_status_active_def
  toy_request_def toy_verifier_decodes toy_selector_fresh toy_selector_fresh [symmetric] replicate_eq_replicate

lemma replicate_moves: "replicate 0 m = []" "replicate 1 m = [m]" "replicate 2 m = [m, m]" "replicate 3 m = [m, m, m]"
  "replicate 4 m = [m, m, m, m]"
  "replicate 5 m = [m, m, m, m, m]" "replicate 8 m = [m, m, m, m, m, m, m, m]"
  by (simp_all add: eval_nat_numeral)

abbreviation toy_session :: login_session where
  "toy_session \<equiv> session_of alice_id (access_of (replicate 32 (CHR ''r'')))
     (refresh_of (replicate 16 (CHR ''S'')) (replicate 16 (CHR ''V''))) 0"

text \<open>Halfway: the first holds the family, the second is about to ask for it.\<close>

lemma toy_race_half:
  "\<exists>s. toy_race 0 1 0 = Some s \<and> t_stage (s_txn s 1) = Preread (toy_refresh_row None)"
  unfolding toy_race_def replicate_moves
  by (simp add: run_simps toy_race_simps)

text \<open>To the end, the second within the leeway.\<close>

lemma toy_race_quick:
  assumes "0 \<le> d" and "d \<le> 30 * second"
  shows "\<exists>s. toy_race d 8 3 = Some s \<and> answered s 0 toy_session \<and>
    t_stage (s_txn s 1) = Finished (Inr None) \<and> t_start (s_txn s 0) = 0 \<and> t_start (s_txn s 1) = d"
proof -
  have "time_sub d 0 \<le> refresh_reuse_leeway"
    using assms by (simp add: time_sub_def refresh_reuse_leeway_def duration_defs)
  with assms(1) show ?thesis
    unfolding toy_race_def replicate_moves
    by (simp add: run_simps toy_race_simps answered_def)
qed

text \<open>The second just outside the leeway, before and after its commit: it is taken for a replay.\<close>

abbreviation slow :: duration where "slow \<equiv> 30 * second + 1000"

lemma toy_race_slow:
  "\<exists>s row. toy_race slow 8 4 = Some s \<and> answered s 0 toy_session \<and> t_stage (s_txn s 1) = Committing row None \<and>
    rt_token_family row = replicate 16 (CHR ''f'') \<and> length (refresh_tokens (s_tabs s)) = 2 \<and>
    t_start (s_txn s 1) = slow"
proof -
  have "\<not> time_sub slow 0 \<le> refresh_reuse_leeway"
    by (simp add: time_sub_def refresh_reuse_leeway_def duration_defs)
  moreover have "0 \<le> slow" by (simp add: duration_defs)
  ultimately show ?thesis
    unfolding toy_race_def replicate_moves
    by (simp add: run_simps toy_race_simps answered_def)
qed

lemma commit_quiet:
  "t_stage (s_txn s p) = Committing row out \<Longrightarrow>
     tx_next lk rq toy_draw p s = Some (finish p (Inr out) (commit p s))"
  by (simp add: tx_next_quiet toy_draw_simps tx_run_def)

section \<open>The properties\<close>

text \<open>C2: however requests interleave, each step of a request leaves the tables alone, or revokes the family
  of the token it presented, which at that moment is current, verified, unrevoked and used longer ago than
  the leeway, or rotates a token that at that moment is current, verified, unrevoked, unused and unexpired.
  A session is answered in the last case only, and the last case answers that session or a server
  error.  So the interleaved system does exactly what whole rotations and revocations, one after the
  other, would do.\<close>

theorem conc_commit_atomic:
  assumes "conc_reachable lk rq s" and "tx_next lk (rq p) d p s = Some s'" and "valid_draw d"
  shows "(s_tabs s' = s_tabs s \<and> (\<forall>ls. \<not> answered s' p ls)) \<or>
    (\<exists>row. locked_row (fst (rq p)) (t_start (s_txn s p)) (s_tabs s) = Some row \<and>
       ((is_replay row (snd (rq p)) \<and> (\<forall>ls. \<not> answered s' p ls) \<and>
         s_tabs s' = revoked (rt_token_family row) (t_start (s_txn s p)) (s_tabs s)) \<or>
        (\<exists>now ls. usable row (snd (rq p)) now \<and>
           rotated row now (t_start (s_txn s p)) (s_tabs s) (s_tabs s') ls \<and>
           (answered s' p ls \<or> (\<exists>e. t_stage (s_txn s' p) = Finished (Inl e))))))"
proof -
  note i = conc_invD [OF conc_reachable_inv [OF assms(1)]]
  from assms(2,3) i(3) i(1) show ?thesis
  proof (cases rule: tx_next_cases)
    case moved
    then show ?thesis using takes_tabs by (auto simp: moved_def answered_def)
  next
    case ended
    then show ?thesis by (auto simp: ended_def answered_def finish_def)
  next
    case committed
    then obtain row out ans where st: "t_stage (s_txn s p) = Committing row out"
      and s': "s' = finish p ans (commit p s)" and ans: "ans = Inr out \<or> (\<exists>e. ans = Inl e)"
      by (auto simp: committed_def)
    have tabs: "s_tabs s' = view (s_txn s p) (s_tabs s)" "t_stage (s_txn s' p) = Finished ans"
      by (simp_all add: s' finish_def commit_def)
    show ?thesis
    proof (cases out)
      case None
      with commit_revokes [OF i(1) i(3) st [unfolded None]] tabs ans show ?thesis by (auto simp: answered_def)
    next
      case (Some ls)
      with commit_rotates [OF i(1) i(3) st [unfolded Some]] tabs ans show ?thesis
        unfolding answered_def by (metis (no_types, lifting))
    qed
  qed
qed

corollary conc_commit_atomic_witness:
  "\<exists>s s'. toy_race slow 8 4 = Some s \<and> tx_next (\<lambda>_. 0) (toy_request 1) toy_draw 1 s = Some s' \<and>
     (s_tabs s' = s_tabs s \<or>
      (\<exists>f t0. s_tabs s' = revoked f t0 (s_tabs s)) \<or>
      (\<exists>row now t0 ls. rotated row now t0 (s_tabs s) (s_tabs s') ls))"
proof -
  obtain s row where s: "toy_race slow 8 4 = Some s" "t_stage (s_txn s 1) = Committing row None"
    using toy_race_slow by blast
  note n = commit_quiet [OF s(2), of "\<lambda>_. 0" "toy_request 1"]
  from conc_commit_atomic [OF toy_race_reachable [OF s(1)] n toy_draw_simps(2)] s(1) n show ?thesis by blast
qed

text \<open>C7: one token, one session.  Of all the requests that present the same token, whenever they run and
  however they interleave, at most one is answered with a session.\<close>

theorem conc_one_winner:
  assumes "conc_reachable lk rq s" and "fst (rq p) = fst (rq q)"
    and "answered s p ls" and "answered s q ls'"
  shows "p = q"
  using conc_reachable_winners [OF assms(1)] assms(2-4) unfolding winners_ok_def by blast

corollary conc_one_winner_witness:
  "\<exists>s. toy_race 0 8 3 = Some s \<and> answered s 0 toy_session \<and> (\<forall>ls. \<not> answered s 1 ls)"
proof -
  have "0 \<le> (0::int)" "(0::int) \<le> 30 * second" by (simp_all add: duration_defs)
  from toy_race_quick [OF this] obtain s where s: "toy_race 0 8 3 = Some s" "answered s 0 toy_session" by blast
  with conc_one_winner [OF toy_race_reachable [OF s(1)], of 0 1] show ?thesis
    by (auto simp: toy_request_def)
qed

text \<open>C5: a revoked family stays revoked.  Once a request has revoked the family of a replayed token, every
  refresh token of that family is revoked in every later state, also those that requests under way at
  that moment would have added: none of them escapes.\<close>

theorem conc_replay_final:
  assumes "conc_reachable lk rq s" and "t_stage (s_txn s p) = Committing row None"
    and "tx_next lk (rq p) d p s = Some s'" and "t_stage (s_txn s' p) = Finished (Inr None)"
    and "conc_steps lk rq s' s''"
    and "r \<in> set (refresh_tokens (s_tabs s''))" and "rt_token_family r = rt_token_family row"
  shows "rt_revoked_at r \<noteq> None"
proof -
  note inv = conc_reachable_inv [OF assms(1)]
  note i = conc_invD [OF inv]
  have s': "s' = finish p (Inr None) (commit p s)"
    using assms(2-4) by (auto simp: tx_next_def tx_run_def finish_def split: fault.splits)
  then have "committed p s s'" unfolding committed_def using assms(2) by blast
  with inv have inv': "conc_inv lk rq s'" by (rule committed_inv)
  note c = commit_revokes [OF i(1) i(3) assms(2)]
  have "rt_token_family row \<in> families (s_tabs s)" using c locked_row_family [OF i(1)] by blast
  with c have "closed (rt_token_family row) (s_tabs s')"
    by (simp add: s' finish_def commit_def revoked_closed)
  from closed_steps [OF assms(5) inv' this] assms(6,7) show ?thesis by (simp add: closed_def)
qed

corollary conc_replay_final_witness:
  "\<exists>s'. conc_reachable (\<lambda>_. 0) toy_request s' \<and> length (refresh_tokens (s_tabs s')) = 2 \<and>
     (\<forall>r \<in> set (refresh_tokens (s_tabs s')). rt_token_family r = replicate 16 (CHR ''f'') \<longrightarrow> rt_revoked_at r \<noteq> None)"
proof -
  obtain s row where s: "toy_race slow 8 4 = Some s" "t_stage (s_txn s 1) = Committing row None"
    "rt_token_family row = replicate 16 (CHR ''f'')" "length (refresh_tokens (s_tabs s)) = 2"
    using toy_race_slow by blast
  note re = toy_race_reachable [OF s(1)]
  note n = commit_quiet [OF s(2), of "\<lambda>_. 0" "toy_request 1"]
  let ?s = "finish 1 (Inr None) (commit 1 s)"
  have st: "t_stage (s_txn ?s 1) = Finished (Inr None)" by (simp add: finish_def)
  have "conc_step (\<lambda>_. 0) toy_request s ?s" using n toy_draw_simps(2) by (rule conc_tx)
  with re have re': "conc_reachable (\<lambda>_. 0) toy_request ?s"
    unfolding conc_reachable_def by (meson rtranclp.rtrancl_into_rtrancl)
  have "length (refresh_tokens (s_tabs ?s)) = 2"
    using commit_revokes [OF conc_invD(1) conc_invD(3) s(2), OF conc_reachable_inv [OF re] conc_reachable_inv [OF re]]
      s(4) revoked_rest(2) by (simp add: finish_def commit_def)
  with re' conc_replay_final [OF re s(2) n st rtranclp.rtrancl_refl] s(3) show ?thesis by metis
qed

text \<open>C15: the honest double request.  Once a request has been answered with a session, another one that
  presented the same token and whose transaction began at most the leeway after that of the first is
  never on its way to revoke the family.\<close>

theorem conc_loser_keeps_family:
  assumes "conc_reachable lk rq s" and "answered s p ls" and "fst (rq q) = fst (rq p)"
    and "t_start (s_txn s q) - t_start (s_txn s p) \<le> 30 * second"
  shows "t_stage (s_txn s q) \<noteq> Replaying row \<and> t_stage (s_txn s q) \<noteq> Committing row None"
proof -
  note i = conc_invD [OF conc_reachable_inv [OF assms(1)]]
  have u: "used_by (fst (rq q)) (t_start (s_txn s p)) (s_tabs s)"
    using conc_reachable_winners [OF assms(1)] assms(2,3) unfolding winners_ok_def by metis
  have "\<not> is_replay row (snd (rq q))"
    if l: "locked_row (fst (rq q)) (t_start (s_txn s q)) (s_tabs s) = Some row"
  proof -
    have "rt_db_now row = t_start (s_txn s q)" using locked_row_fields [OF l] by blast
    with used_by_locked [OF i(1) u l] assms(4) time_sub_le_iff [of "30 * second"] show ?thesis
      by (auto simp: is_replay_def used_recently_def refresh_reuse_leeway_def duration_defs)
  qed
  with i(3) [of q] show ?thesis by (auto simp: tx_ok_def)
qed

corollary conc_loser_keeps_family_witness:
  "\<exists>s. toy_race (30 * second) 8 3 = Some s \<and> answered s 0 toy_session \<and>
     (\<forall>row. t_stage (s_txn s 1) \<noteq> Replaying row \<and> t_stage (s_txn s 1) \<noteq> Committing row None)"
proof -
  have "0 \<le> 30 * second" "30 * second \<le> 30 * second" by (simp_all add: duration_defs)
  from toy_race_quick [OF this] obtain s where s: "toy_race (30 * second) 8 3 = Some s" "answered s 0 toy_session"
    "t_start (s_txn s 0) = 0" "t_start (s_txn s 1) = 30 * second" by blast
  with conc_loser_keeps_family [OF toy_race_reachable [OF s(1)] s(2), of 1] show ?thesis
    by (auto simp: toy_request_def)
qed

text \<open>C16: no deadlock.  Requests never wait for each other in a circle, and whenever a request is not
  finished, it or one of those it waits for can take its next step.\<close>

theorem conc_no_deadlock:
  assumes "conc_reachable lk rq s" and "\<And>p. dr_fault (D p) = NoFault"
    and "\<And>out. t_stage (s_txn s p) \<noteq> Finished out"
  shows "(\<exists>q s'. (waits_for lk rq D s)\<^sup>*\<^sup>* p q \<and> tx_next lk (rq q) (D q) q s = Some s') \<and>
    \<not> (waits_for lk rq D s)\<^sup>+\<^sup>+ p p"
  using waits_progress [of lk rq s D, OF conc_reachable_inv [OF assms(1)] assms(2,3)]
    waits_acyclic [OF conc_reachable_inv [OF assms(1)]] by blast

corollary conc_no_deadlock_witness:
  "\<exists>s q s'. toy_race 0 1 0 = Some s \<and> t_stage (s_txn s 1) = Preread (toy_refresh_row None) \<and>
     (waits_for (\<lambda>_. 0) toy_request (\<lambda>_. toy_draw) s)\<^sup>*\<^sup>* 1 q \<and>
     tx_next (\<lambda>_. 0) (toy_request q) toy_draw q s = Some s'"
proof -
  obtain s where s: "toy_race 0 1 0 = Some s" "t_stage (s_txn s 1) = Preread (toy_refresh_row None)"
    using toy_race_half by blast
  with conc_no_deadlock [OF toy_race_reachable [OF s(1)], of "\<lambda>_. toy_draw" 1] toy_draw_simps(1)
  show ?thesis by auto
qed

section \<open>What the leeway does not cover\<close>

text \<open>
  The age of a use is the distance between the starts of two transactions.  When the first request is
  slow, the second may begin later than the leeway after it and still overlap it: here it reads while
  the first is under way, then waits for the family lock, and is taken for a replay.  It revokes the
  family, with the token the first client has just been given.
\<close>

lemma slow_winner_loses_family:
  "\<exists>s s'. toy_race slow 8 4 = Some s \<and> answered s 0 toy_session \<and>
     tx_next (\<lambda>_. 0) (toy_request 1) toy_draw 1 s = Some s' \<and>
     s_tabs s' = revoked (replicate 16 (CHR ''f'')) slow (s_tabs s) \<and>
     (\<forall>r \<in> set (refresh_tokens (s_tabs s')). rt_token_family r = replicate 16 (CHR ''f'') \<longrightarrow> rt_revoked_at r \<noteq> None)"
proof -
  obtain s row where s: "toy_race slow 8 4 = Some s" "answered s 0 toy_session" "t_stage (s_txn s 1) = Committing row None"
    "rt_token_family row = replicate 16 (CHR ''f'')" "t_start (s_txn s 1) = slow"
    using toy_race_slow by blast
  note inv = conc_reachable_inv [OF toy_race_reachable [OF s(1)]]
  from commit_revokes [OF conc_invD(1) [OF inv] conc_invD(3) [OF inv] s(3)] s(4,5)
  have "s_tabs (finish 1 (Inr None) (commit 1 s)) = revoked (replicate 16 (CHR ''f'')) slow (s_tabs s)"
    by (simp add: finish_def commit_def)
  with s(1,2) commit_quiet [OF s(3)] revoked_all show ?thesis by metis
qed

end
