(* ===== verification/RefreshAlone.thy ===== *)
theory RefreshAlone
  imports RefreshConcSpec
begin

text \<open>
  The two models of \<^verbatim>\<open>rotateRefresh\<close> agree: the statement-by-statement transaction of theory RefreshConc,
  run without interruption, answers what \<^const>\<open>rotate_refresh\<close> of theory Refresh answers and leaves
  the tables as it leaves them.
\<close>

fun tx_alone :: "(uuid \<Rightarrow> int) \<Rightarrow> string \<times> string \<Rightarrow> draw list \<Rightarrow> pid \<Rightarrow> sys \<Rightarrow> sys" where
  "tx_alone lk rq [] p s = s"
| "tx_alone lk rq (d # ds) p s =
     (case tx_next lk rq d p s of None \<Rightarrow> s | Some s' \<Rightarrow> tx_alone lk rq ds p s')"

text \<open>The draws of a world in which nothing fails: its random bytes, and one id per insertion.\<close>

definition draw_of :: "time \<Rightarrow> bytes \<Rightarrow> bytes \<Rightarrow> bytes \<Rightarrow> uuid \<Rightarrow> draw" where
  "draw_of now raw sel ver i =
     \<lparr>dr_fault = NoFault, dr_now = now, dr_id = i, dr_raw = raw, dr_sel = sel, dr_ver = ver\<rparr>"

definition alone_draws :: "time \<Rightarrow> bytes \<Rightarrow> bytes \<Rightarrow> bytes \<Rightarrow> uuid \<Rightarrow> uuid \<Rightarrow> draw list" where
  "alone_draws now raw sel ver j i =
     (let d = draw_of now raw sel ver in [d j, d j, d j, d j, d j, d j, d j, d j, d i, d i])"

lemma draw_of_simps [simp]:
  "dr_fault (draw_of now raw sel ver i) = NoFault" "dr_now (draw_of now raw sel ver i) = now"
  "dr_id (draw_of now raw sel ver i) = i" "dr_raw (draw_of now raw sel ver i) = raw"
  "dr_sel (draw_of now raw sel ver i) = sel" "dr_ver (draw_of now raw sel ver i) = ver"
  by (simp_all add: draw_of_def)

text \<open>Where a transaction is that runs alone.\<close>

definition at_stage :: "(uuid \<Rightarrow> int) \<Rightarrow> pid \<Rightarrow> time \<Rightarrow> tables \<Rightarrow> stage \<Rightarrow> change list \<Rightarrow> sys \<Rightarrow> bool" where
  "at_stage lk p t0 c st ws s \<longleftrightarrow>
     s_tabs s = c \<and> (\<forall>k q. s_locks s k = Some q \<longrightarrow> q = p) \<and>
     t_stage (s_txn s p) = st \<and> t_start (s_txn s p) = t0 \<and> t_writes (s_txn s p) = ws"

lemma alone_takes:
  assumes "at_stage lk p t0 c st ws s"
  obtains s1 where "takes p ks s = Some s1" "at_stage lk p t0 c st ws s1" "s_txn s1 = s_txn s"
proof -
  have f: "s_locks s k = None \<or> s_locks s k = Some p" for k
    using assms by (cases "s_locks s k") (auto simp: at_stage_def)
  then have "takes p ks s = Some (s\<lparr>s_locks := (\<lambda>k. if k \<in> set ks then Some p else s_locks s k)\<rparr>)"
    by (simp add: takes_Some)
  then show thesis by (rule that) (use assms in \<open>auto simp: at_stage_def split: if_splits\<close>)
qed

lemma alone_goto [simp]: "at_stage lk p t0 c st ws s \<Longrightarrow> at_stage lk p t0 c st' ws (goto p st' s)"
  by (simp add: at_stage_def goto_def)

lemma alone_writes [simp]: "at_stage lk p t0 c st ws s \<Longrightarrow> at_stage lk p t0 c st (ws @ [x]) (writes p x s)"
  by (simp add: at_stage_def writes_def)

text \<open>The end: what was answered, and the tables.\<close>

definition over :: "pid \<Rightarrow> gerr + login_session option \<Rightarrow> tables \<Rightarrow> sys \<Rightarrow> bool" where
  "over p out c s \<longleftrightarrow> t_stage (s_txn s p) = Finished out \<and> s_tabs s = c"

lemma over_finish: "at_stage lk p t0 c st ws s \<Longrightarrow> over p out c (finish p out s)"
  by (simp add: at_stage_def over_def finish_def)

lemma over_stays: "over p out c s \<Longrightarrow> over p out c (tx_alone lk rq ds p s)"
  by (cases ds) (auto simp: over_def tx_next_def)

lemma alone_step:
  "dr_fault d = NoFault \<Longrightarrow> tx_run lk rq d p s = Some s' \<Longrightarrow> tx_alone lk rq (d # ds) p s = tx_alone lk rq ds p s'"
  by (simp add: tx_next_quiet)

lemma alone_over:
  assumes "at_stage lk p t0 c st ws s1" and "dr_fault d = NoFault" and "tx_run lk rq d p s = Some (finish p out s1)"
  shows "over p out c (tx_alone lk rq (d # ds) p s)"
  unfolding alone_step [OF assms(2,3)] by (rule over_stays [OF over_finish [OF assms(1)]])

declare tx_alone.simps(2) [simp del]

section \<open>The steps, from the back\<close>

lemma alone_commit:
  assumes "at_stage lk p t0 c (Committing row out) ws s" and "dr_fault d = NoFault"
  shows "over p (Inr out) (fold apply_change ws c) (tx_alone lk rq (d # ds) p s)"
proof -
  have "tx_run lk rq d p s = Some (finish p (Inr out) (commit p s))" using assms(1) by (simp add: tx_run_def at_stage_def)
  moreover have "over p (Inr out) (fold apply_change ws c) (finish p (Inr out) (commit p s))"
    using assms(1) by (simp add: over_def finish_def commit_def view_def at_stage_def)
  ultimately show ?thesis using alone_step [OF assms(2)] over_stays by metis
qed

lemma alone_insert_access:
  assumes s: "at_stage lk p t0 c (InsertingAccess row a r now) ws s" and d: "dr_fault d = NoFault" "dr_fault d' = NoFault"
    and o: "insert_access_token (dr_id d) (sr_access (rotation_rows row a r now)) t0 (fold apply_change ws c) = (out, c2)"
  shows "case out of Inl e \<Rightarrow> over p (Inl e) c (tx_alone lk rq (d # d' # ds) p s)
    | Inr _ \<Rightarrow> over p (Inr (Some (session_of (rt_user_id row) a r now))) c2 (tx_alone lk rq (d # d' # ds) p s)"
proof -
  let ?arg = "sr_access (rotation_rows row a r now)"
  obtain s1 where s1: "takes p [AccessIdClaim (dr_id d), HashClaim (ia_token_hash ?arg)] s = Some s1"
    "at_stage lk p t0 c (InsertingAccess row a r now) ws s1" by (rule alone_takes [OF s])
  have v: "t_stage (s_txn s p) = InsertingAccess row a r now" "t_start (s_txn s p) = t0"
    "view (s_txn s p) (s_tabs s) = fold apply_change ws c"
    using s by (simp_all add: at_stage_def view_def)
  show ?thesis
  proof (cases out)
    case (Inl e)
    have "tx_run lk rq d p s = Some (finish p (Inl e) s1)"
      using v s1(1) o Inl by (simp add: tx_run_def step_insert_access_def Let_def)
    with alone_over [OF s1(2) d(1)] Inl show ?thesis by simp
  next
    case (Inr y)
    let ?st = "Committing row (Some (session_of (rt_user_id row) a r now))"
    have "tx_run lk rq d p s = Some (goto p ?st (writes p (PutAccess y) s1))"
      using v s1(1) o Inr by (simp add: tx_run_def step_insert_access_def Let_def)
    note run = alone_step [OF d(1) this]
    have "at_stage lk p t0 c ?st (ws @ [PutAccess y]) (goto p ?st (writes p (PutAccess y) s1))"
      using s1(2) by (intro alone_goto alone_writes)
    from alone_commit [OF this d(2)] insert_access_Inr [OF o [unfolded Inr]] Inr run show ?thesis by simp
  qed
qed

lemma alone_insert_refresh:
  assumes s: "at_stage lk p t0 c (InsertingRefresh row a r now) ws s"
    and d: "dr_fault d = NoFault" "dr_fault d' = NoFault" "dr_fault d'' = NoFault"
    and o: "insert_refresh_token (dr_id d) (sr_refresh (rotation_rows row a r now)) t0 (fold apply_change ws c) = (out, c2)"
    and o': "insert_access_token (dr_id d') (sr_access (rotation_rows row a r now)) t0 c2 = (out', c3)"
  shows "case out of Inl e \<Rightarrow> over p (Inl e) c (tx_alone lk rq (d # d' # d'' # ds) p s)
    | Inr _ \<Rightarrow> (case out' of Inl e \<Rightarrow> over p (Inl e) c (tx_alone lk rq (d # d' # d'' # ds) p s)
        | Inr _ \<Rightarrow> over p (Inr (Some (session_of (rt_user_id row) a r now))) c3 (tx_alone lk rq (d # d' # d'' # ds) p s))"
proof -
  let ?arg = "sr_refresh (rotation_rows row a r now)"
  obtain s1 where s1: "takes p [TokenIdClaim (dr_id d), SelectorClaim (ir_selector ?arg)] s = Some s1"
    "at_stage lk p t0 c (InsertingRefresh row a r now) ws s1" by (rule alone_takes [OF s])
  have v: "t_stage (s_txn s p) = InsertingRefresh row a r now" "t_start (s_txn s p) = t0"
    "view (s_txn s p) (s_tabs s) = fold apply_change ws c"
    using s by (simp_all add: at_stage_def view_def)
  show ?thesis
  proof (cases out)
    case (Inl e)
    have "tx_run lk rq d p s = Some (finish p (Inl e) s1)"
      using v s1(1) o Inl by (simp add: tx_run_def step_insert_refresh_def Let_def)
    with alone_over [OF s1(2) d(1)] Inl show ?thesis by simp
  next
    case (Inr x)
    let ?st = "InsertingAccess row a r now"
    have "tx_run lk rq d p s = Some (goto p ?st (writes p (PutRefresh x) s1))"
      using v s1(1) o Inr by (simp add: tx_run_def step_insert_refresh_def Let_def)
    note run = alone_step [OF d(1) this]
    have st: "at_stage lk p t0 c ?st (ws @ [PutRefresh x]) (goto p ?st (writes p (PutRefresh x) s1))"
      using s1(2) by (intro alone_goto alone_writes)
    have "insert_access_token (dr_id d') (sr_access (rotation_rows row a r now)) t0
        (fold apply_change (ws @ [PutRefresh x]) c) = (out', c3)"
      using insert_refresh_Inr [OF o [unfolded Inr]] o' by simp
    from alone_insert_access [OF st d(2,3) this] Inr run show ?thesis by (cases out') simp_all
  qed
qed

text \<open>What \<^const>\<open>rotate_mint\<close> and the transaction make of the three writes.\<close>

definition mint_outcome ::
  "refresh_now_row \<Rightarrow> access_token \<Rightarrow> refresh_token \<Rightarrow> time \<Rightarrow> time \<Rightarrow> uuid \<Rightarrow> uuid \<Rightarrow> tables \<Rightarrow>
     (gerr + login_session option) \<times> tables" where
  "mint_outcome row a r now t0 j i c =
     (case insert_refresh_token j (sr_refresh (rotation_rows row a r now)) t0 (marked (rt_id row) t0 c) of
        (Inl e, _) \<Rightarrow> (Inl e, c)
      | (Inr _, c2) \<Rightarrow>
          (case insert_access_token i (sr_access (rotation_rows row a r now)) t0 c2 of
             (Inl e, _) \<Rightarrow> (Inl e, c)
           | (Inr _, c3) \<Rightarrow> (Inr (Some (session_of (rt_user_id row) a r now)), c3)))"

lemma alone_mark:
  assumes s: "at_stage lk p t0 c (Marking row now) [] s"
    and d: "dr_fault d = NoFault" "dr_fault d1 = NoFault" "dr_fault d2 = NoFault" "dr_fault d3 = NoFault"
    and o: "mint_outcome row (access_of (dr_raw d)) (refresh_of (dr_sel d) (dr_ver d)) now t0 (dr_id d1) (dr_id d2) c = (out, c')"
  shows "over p out c' (tx_alone lk rq (d # d1 # d2 # d3 # ds) p s)"
proof -
  let ?st = "InsertingRefresh row (access_of (dr_raw d)) (refresh_of (dr_sel d) (dr_ver d)) now"
  obtain s1 where s1: "takes p [RowLock (rt_id row)] s = Some s1" "at_stage lk p t0 c (Marking row now) [] s1"
    by (rule alone_takes [OF s])
  have "tx_run lk rq d p s = Some (goto p ?st (writes p (PutUsed (rt_id row) t0) s1))"
    using s s1 by (simp add: tx_run_def step_mark_def at_stage_def)
  note run = alone_step [OF d(1) this]
  have a: "at_stage lk p t0 c ?st ([] @ [PutUsed (rt_id row) t0]) (goto p ?st (writes p (PutUsed (rt_id row) t0) s1))"
    using s1(2) by (intro alone_goto alone_writes)
  obtain o1 c2 where o1: "insert_refresh_token (dr_id d1) (sr_refresh (rotation_rows row (access_of (dr_raw d))
      (refresh_of (dr_sel d) (dr_ver d)) now)) t0 (marked (rt_id row) t0 c) = (o1, c2)" by (metis prod.exhaust)
  obtain o2 c3 where o2: "insert_access_token (dr_id d2) (sr_access (rotation_rows row (access_of (dr_raw d))
      (refresh_of (dr_sel d) (dr_ver d)) now)) t0 c2 = (o2, c3)" by (metis prod.exhaust)
  have "fold apply_change ([] @ [PutUsed (rt_id row) t0]) c = marked (rt_id row) t0 c" by simp
  with alone_insert_refresh [OF a d(2-4), of o1 c2 o2 c3 rq ds] o1 o2 o run show ?thesis
    by (auto simp: mint_outcome_def split: sum.splits)
qed

text \<open>The user, then the writes.\<close>

definition user_outcome ::
  "refresh_now_row \<Rightarrow> access_token \<Rightarrow> refresh_token \<Rightarrow> time \<Rightarrow> time \<Rightarrow> uuid \<Rightarrow> uuid \<Rightarrow> tables \<Rightarrow>
     (gerr + login_session option) \<times> tables" where
  "user_outcome row a r now t0 j i c =
     (case find (\<lambda>u. u_id u = rt_user_id row) (users c) of
        None \<Rightarrow> (Inr None, c)
      | Some u \<Rightarrow> if u_status u \<noteq> user_status_active then (Inr None, c) else mint_outcome row a r now t0 j i c)"

lemma alone_user:
  assumes s: "at_stage lk p t0 c (Looking row now) [] s"
    and d: "dr_fault d0 = NoFault" "dr_fault d = NoFault" "dr_fault d1 = NoFault" "dr_fault d2 = NoFault" "dr_fault d3 = NoFault"
    and o: "user_outcome row (access_of (dr_raw d)) (refresh_of (dr_sel d) (dr_ver d)) now t0 (dr_id d1) (dr_id d2) c = (out, c')"
  shows "over p out c' (tx_alone lk rq (d0 # d # d1 # d2 # d3 # ds) p s)"
proof -
  have v: "t_stage (s_txn s p) = Looking row now" "view (s_txn s p) (s_tabs s) = c"
    using s by (simp_all add: at_stage_def view_def)
  have rej: "over p (Inr None) c (tx_alone lk rq (d0 # d # d1 # d2 # d3 # ds) p s)"
    if "tx_run lk rq d0 p s = Some (finish p (Inr None) s)"
    using s d(1) that by (rule alone_over)
  show ?thesis
  proof (cases "find (\<lambda>u. u_id u = rt_user_id row) (users c)")
    case None
    with v o rej show ?thesis by (simp add: user_outcome_def tx_run_def step_user_def get_user_by_id_def one_row_def)
  next
    case (Some u)
    show ?thesis
    proof (cases "u_status u = user_status_active")
      case False
      with Some v o rej show ?thesis by (simp add: user_outcome_def tx_run_def step_user_def get_user_by_id_def one_row_def)
    next
      case True
      with Some v have "tx_run lk rq d0 p s = Some (goto p (Marking row now) s)"
        by (simp add: tx_run_def step_user_def get_user_by_id_def one_row_def)
      from alone_step [OF d(1) this] alone_mark [OF alone_goto [OF s] d(2-5)] True Some o show ?thesis
        by (simp add: user_outcome_def)
    qed
  qed
qed

lemma alone_revoke:
  assumes k: "keys_ok c" and s: "at_stage lk p t0 c (Replaying row) [] s" and d: "dr_fault d = NoFault" "dr_fault d' = NoFault"
  shows "over p (Inr None) (revoked (rt_token_family row) t0 c) (tx_alone lk rq (d # d' # ds) p s)"
proof -
  let ?ids = "live_ids (rt_token_family row) c"
  obtain s1 where s1: "takes p (map RowLock ?ids) s = Some s1" "at_stage lk p t0 c (Replaying row) [] s1"
    by (rule alone_takes [OF s])
  have "tx_run lk rq d p s = Some (goto p (Committing row None) (writes p (PutRevoked ?ids t0) s1))"
    using s s1 by (simp add: tx_run_def step_revoke_def at_stage_def view_def Let_def)
  note run = alone_step [OF d(1) this]
  have "at_stage lk p t0 c (Committing row None) ([] @ [PutRevoked ?ids t0])
      (goto p (Committing row None) (writes p (PutRevoked ?ids t0) s1))"
    using s1(2) by (intro alone_goto alone_writes)
  from alone_commit [OF this d(2)] run revoke_by_ids [OF k] show ?thesis by (simp del: apply_change.simps)
qed

text \<open>The decision on the locked row.\<close>

definition row_outcome ::
  "string \<Rightarrow> refresh_now_row \<Rightarrow> access_token \<Rightarrow> refresh_token \<Rightarrow> time \<Rightarrow> time \<Rightarrow> uuid \<Rightarrow> uuid \<Rightarrow> tables \<Rightarrow>
     (gerr + login_session option) \<times> tables" where
  "row_outcome ver row a r now t0 j i c =
     (case raw_url_dec ver of
        None \<Rightarrow> (Inr None, c)
      | Some raw \<Rightarrow>
          if \<not> constant_time_eq (sha256 raw) (rt_verifier_hash row) then (Inr None, c)
          else if rt_revoked_at row \<noteq> None then (Inr None, c)
          else (case rt_used_at row of
              Some t \<Rightarrow> if used_recently row t then (Inr None, c) else (Inr None, revoked (rt_token_family row) t0 c)
            | None \<Rightarrow>
                if expired (rt_expires_at row) now then (Inr None, c) else user_outcome row a r now t0 j i c))"

lemma alone_decide:
  assumes k: "keys_ok c" and s: "at_stage lk p t0 c (RowHeld row) [] s" and d: "dr_fault dd = NoFault" "dr_now dd = now"
    "dr_fault d0 = NoFault" "dr_fault d = NoFault" "dr_fault d1 = NoFault" "dr_fault d2 = NoFault" "dr_fault d3 = NoFault"
    and o: "row_outcome (snd rq) row (access_of (dr_raw d)) (refresh_of (dr_sel d) (dr_ver d)) now t0 (dr_id d1) (dr_id d2) c = (out, c')"
  shows "over p out c' (tx_alone lk rq (dd # d0 # d # d1 # d2 # d3 # ds) p s)"
proof -
  have "tx_run lk rq dd p s = step_decide (snd rq) now row p s" using s d(2) by (simp add: tx_run_def at_stage_def)
  note run = this [unfolded step_decide_def]
  have rej: ?thesis if "tx_run lk rq dd p s = Some (finish p (Inr None) s)" "(out, c') = (Inr None, c)"
    using alone_over [OF s d(1) that(1)] that(2) by simp
  have rep: ?thesis if "tx_run lk rq dd p s = Some (goto p (Replaying row) s)" "(out, c') = (Inr None, revoked (rt_token_family row) t0 c)"
    using alone_step [OF d(1) that(1)] alone_revoke [OF k alone_goto [OF s] d(3,4)] that(2) by simp
  have look: ?thesis if "tx_run lk rq dd p s = Some (goto p (Looking row now) s)"
      "user_outcome row (access_of (dr_raw d)) (refresh_of (dr_sel d) (dr_ver d)) now t0 (dr_id d1) (dr_id d2) c = (out, c')"
    using alone_step [OF d(1) that(1)] alone_user [OF alone_goto [OF s] d(3-7) that(2)] by simp
  note o = o [unfolded row_outcome_def]
  show ?thesis
  proof (cases "raw_url_dec (snd rq)")
    case None
    with run o show ?thesis by (intro rej) simp_all
  next
    case (Some raw)
    note run = run [unfolded Some option.case] and o = o [unfolded Some option.case]
    show ?thesis
    proof (cases "constant_time_eq (sha256 raw) (rt_verifier_hash row) \<and> rt_revoked_at row = None")
      case False
      with run o show ?thesis by (cases "constant_time_eq (sha256 raw) (rt_verifier_hash row)") (intro rej; simp)+
    next
      case True
      note run = run [simplified True simp_thms if_False option.simps] and o = o [simplified True simp_thms if_False option.simps]
      show ?thesis
      proof (cases "rt_used_at row")
        case None
        with run o True show ?thesis
          by (cases "expired (rt_expires_at row) now") (rule rej, simp, simp, rule look, simp, simp)
      next
        case (Some t)
        with run o True show ?thesis by (cases "used_recently row t") (rule rej, simp, simp, rule rep, simp, simp)
      qed
    qed
  qed
qed

text \<open>The whole transaction, as a function of the tables.\<close>

definition rotation_outcome ::
  "string \<Rightarrow> string \<Rightarrow> access_token \<Rightarrow> refresh_token \<Rightarrow> time \<Rightarrow> time \<Rightarrow> uuid \<Rightarrow> uuid \<Rightarrow> tables \<Rightarrow>
     (gerr + login_session option) \<times> tables" where
  "rotation_outcome sel ver a r now t0 j i c =
     (case locked_row sel t0 c of None \<Rightarrow> (Inr None, c) | Some row \<Rightarrow> row_outcome ver row a r now t0 j i c)"

lemma alone_rotation:
  assumes k: "keys_ok c" and s: "at_stage lk p t0 c Begun [] s"
    and o: "rotation_outcome (fst rq) (snd rq) (access_of raw) (refresh_of sel ver) now t0 j i c = (out, c')"
  shows "over p out c' (tx_alone lk rq (tl (alone_draws now raw sel ver j i)) p s)"
proof -
  let ?d = "draw_of now raw sel ver"
  have v: "t_stage (s_txn s p) = Begun" "view (s_txn s p) (s_tabs s) = c" using s by (simp_all add: at_stage_def view_def)
  have ds: "tl (alone_draws now raw sel ver j i) = [?d j, ?d j, ?d j, ?d j, ?d j, ?d j, ?d j, ?d i, ?d i]"
    by (simp add: alone_draws_def Let_def)
  show ?thesis
  proof (cases "find (\<lambda>r. rt_selector r = fst rq) (refresh_tokens c)")
    case None
    then have "tx_run lk rq (?d j) p s = Some (finish p (Inr None) s)"
      using v by (simp add: tx_run_def step_preread_def get_refresh_token_by_selector_def one_row_def)
    from alone_over [OF s _ this] o None show ?thesis
      unfolding ds by (simp add: rotation_outcome_def locked_row_def)
  next
    case (Some r)
    let ?row = "refresh_row.extend r \<lparr>rt_db_now = t0\<rparr>"
    have row: "locked_row (fst rq) t0 c = Some ?row" using Some by (simp add: locked_row_def)
    have "tx_run lk rq (?d j) p s = Some (goto p (Preread r) s)"
      using v Some by (simp add: tx_run_def step_preread_def get_refresh_token_by_selector_def one_row_def)
    note 1 = alone_step [OF draw_of_simps(1) this] and s1 = alone_goto [OF s, of "Preread r"]
    obtain s2 where s2: "takes p [FamilyLock (lk (rt_token_family r))] (goto p (Preread r) s) = Some s2"
      "at_stage lk p t0 c (Preread r) [] s2" by (rule alone_takes [OF s1])
    have "tx_run lk rq (?d j) p (goto p (Preread r) s) = Some (goto p (FamilyHeld r) s2)"
      using s2(1) by (simp add: tx_run_def step_family_def goto_def [of p "Preread r"])
    note 2 = alone_step [OF draw_of_simps(1) this] and s3 = alone_goto [OF s2(2), of "FamilyHeld r"]
    obtain s4 where s4: "takes p [RowLock (rt_id ?row)] (goto p (FamilyHeld r) s2) = Some s4"
      "at_stage lk p t0 c (FamilyHeld r) [] s4" by (rule alone_takes [OF s3])
    have "view (s_txn (goto p (FamilyHeld r) s2) p) (s_tabs (goto p (FamilyHeld r) s2)) = c"
      "t_start (s_txn (goto p (FamilyHeld r) s2) p) = t0" "t_stage (s_txn (goto p (FamilyHeld r) s2) p) = FamilyHeld r"
      using s3 by (simp_all add: at_stage_def view_def)
    with Some s4(1) have "tx_run lk rq (?d j) p (goto p (FamilyHeld r) s2) = Some (goto p (RowHeld ?row) s4)"
      by (simp add: tx_run_def step_row_def get_refresh_token_by_selector_for_update_def one_row_def)
    note 3 = alone_step [OF draw_of_simps(1) this] and s5 = alone_goto [OF s4(2), of "RowHeld ?row"]
    have "row_outcome (snd rq) ?row (access_of (dr_raw (?d j))) (refresh_of (dr_sel (?d j)) (dr_ver (?d j))) now t0
        (dr_id (?d j)) (dr_id (?d i)) c = (out, c')"
      using o row by (simp add: rotation_outcome_def)
    from alone_decide [OF k s5 draw_of_simps(1) draw_of_simps(2) draw_of_simps(1) draw_of_simps(1) draw_of_simps(1)
        draw_of_simps(1) draw_of_simps(1) this]
    show ?thesis unfolding ds 1 2 3 .
  qed
qed

section \<open>The sequential model has the same outcome\<close>

lemma quiet_rotate_mint:
  assumes "w_script v = []" and "w_ids v = j # i # ids" and "w_rand v = Some raw # Some sel # Some ver # rs"
    and "length raw = 32" "length sel = 16" "length ver = 16"
    and "rotate_mint row now \<lparr>tx_now = t0, tx_tabs = w_tabs v, tx_failed = False\<rparr> v = (out, w')"
  shows "mint_outcome row (access_of raw) (refresh_of sel ver) now t0 j i (w_tabs v) = (out, w_tabs w')"
proof -
  let ?x = "\<lparr>tx_now = t0, tx_tabs = w_tabs v, tx_failed = False\<rparr>"
  let ?m = "marked (rt_id row) t0 (w_tabs v)"
  have m: "tx_exec (WUpdate ''MarkRefreshTokenUsed'') (mark_refresh_token_used (rt_id row)) ?x v =
      (Inr (), ?x\<lparr>tx_tabs := ?m\<rparr>, emit (WUpdate ''MarkRefreshTokenUsed'') v)"
    by (rule tx_exec_quiet) (simp_all add: assms marked_def mark_refresh_token_used_def)
  obtain o1 c2 where o1: "insert_refresh_token j (sr_refresh (rotation_rows row (access_of raw) (refresh_of sel ver) now)) t0 ?m = (o1, c2)"
    by (metis prod.exhaust)
  obtain o2 c3 where o2: "insert_access_token i (sr_access (rotation_rows row (access_of raw) (refresh_of sel ver) now)) t0 c2 = (o2, c3)"
    by (metis prod.exhaust)
  show ?thesis
    using assms m o1 o2
    by (cases o1; cases o2)
       (auto simp: rotate_mint_def mint_quiet q_insert_refresh_token_def q_insert_access_token_def next_id_def
         tx_exec_def next_fault_quiet Let_def tx_commit_def mint_outcome_def)
qed

lemma rotate_refresh_outcome_quiet:
  assumes "w_script w = []" and "w_ids w = j # i # ids" and "w_rand w = Some raw # Some sel # Some ver # rs"
    and "length raw = 32" "length sel = 16" "length ver = 16"
    and r: "rotate_refresh selector verifier w = (out, w')"
  shows "rotation_outcome selector verifier (access_of raw) (refresh_of sel ver) (w_app w) (w_db w) j i (w_tabs w) =
    (out, w_tabs w')"
proof (cases "locked_row selector (w_db w) (w_tabs w)")
  case None
  then have "find (\<lambda>r. rt_selector r = selector) (refresh_tokens (w_tabs w)) = None" by (simp add: locked_row_def)
  with r assms(1) have "out = Inr None" "w_tabs w' = w_tabs w"
    by (auto simp: rotate_refresh_def quiet_begin tx_exec_def next_fault_quiet get_refresh_token_by_selector_def
        one_row_def Let_def)
  with None show ?thesis by (simp add: rotation_outcome_def)
next
  case (Some row)
  obtain x v where rr: "rotate_refresh selector verifier w = rotate_row row verifier x v"
    and x: "x = \<lparr>tx_now = w_db w, tx_tabs = w_tabs w, tx_failed = False\<rparr>"
    and v: "w_tabs v = w_tabs w" "w_script v = []" "w_rand v = w_rand w" "w_ids v = w_ids w" "w_app v = w_app w"
    by (rule quiet_rotate [OF assms(1) Some, of verifier])
  note row = r [unfolded rr rotate_row_def v(5)]
  have fam: "revoke_family row x v = (Inr None, (emit WCommit (emit (WUpdate ''RevokeTokenFamily'') v))
      \<lparr>w_tabs := revoked (rt_token_family row) (w_db w) (w_tabs w)\<rparr>)"
    using x v by (simp add: revoke_family_def tx_exec_def next_fault_quiet revoke_token_family_def
        tx_commit_def revoked_def)
  have user: "user_outcome row (access_of raw) (refresh_of sel ver) (w_app w) (w_db w) j i (w_tabs w) = (out, w_tabs w')"
    if u: "rotate_unused row (w_app w) x v = (out, w')" "\<not> expired (rt_expires_at row) (w_app w)"
  proof (cases "find (\<lambda>u. u_id u = rt_user_id row) (users (w_tabs w))")
    case None
    with u x v show ?thesis
      by (auto simp: rotate_unused_def tx_exec_def next_fault_quiet get_user_by_id_def one_row_def user_outcome_def Let_def)
  next
    case (Some a)
    have g: "tx_exec (WSelect ''GetUserByID'') (get_user_by_id (rt_user_id row)) x v = (Inr a, x, emit (WSelect ''GetUserByID'') v)"
      by (rule quiet_read) (simp_all add: v x get_user_by_id_def one_row_def Some)
    show ?thesis
    proof (cases "u_status a = user_status_active")
      case False
      with u g v Some show ?thesis by (auto simp: rotate_unused_def user_outcome_def)
    next
      case True
      with u g have "rotate_mint row (w_app w) x (emit (WSelect ''GetUserByID'') v) = (out, w')"
        by (simp add: rotate_unused_def)
      then have "mint_outcome row (access_of raw) (refresh_of sel ver) (w_app w) (w_db w) j i
          (w_tabs (emit (WSelect ''GetUserByID'') v)) = (out, w_tabs w')"
        by (intro quiet_rotate_mint) (simp_all add: v x assms)
      with True Some v show ?thesis by (simp add: user_outcome_def)
    qed
  qed
  have rej: "reject x v = (out, w') \<Longrightarrow> (Inr None, w_tabs w) = (out, w_tabs w')" using v by auto
  have "row_outcome verifier row (access_of raw) (refresh_of sel ver) (w_app w) (w_db w) j i (w_tabs w) = (out, w_tabs w')"
  proof (cases "raw_url_dec verifier")
    case None
    with row rej show ?thesis by (simp add: row_outcome_def)
  next
    case (Some rv)
    show ?thesis
    proof (cases "constant_time_eq (sha256 rv) (rt_verifier_hash row) \<and> rt_revoked_at row = None")
      case False
      with Some row rej show ?thesis by (auto simp: row_outcome_def split: if_splits)
    next
      case c: True
      show ?thesis
      proof (cases "rt_used_at row")
        case None
        show ?thesis
        proof (cases "expired (rt_expires_at row) (w_app w)")
          case True
          with None c Some row rej show ?thesis by (simp add: row_outcome_def rotate_unused_def)
        next
          case False
          with None c Some row user show ?thesis by (simp add: row_outcome_def)
        qed
      next
        case (Some t)
        with c \<open>raw_url_dec verifier = Some rv\<close> row rej fam show ?thesis
          by (cases "used_recently row t") (auto simp: row_outcome_def)
      qed
    qed
  qed
  with Some show ?thesis by (simp add: rotation_outcome_def)
qed

section \<open>The agreement\<close>

text \<open>C19: a rotation that nobody interrupts is the sequential one.  On tables with unique keys, with no
  failure and the same random bytes and ids, the statement-by-statement transaction that runs alone
  ends with the answer of \<^const>\<open>rotate_refresh\<close> and leaves the committed tables as that leaves them.\<close>

theorem refresh_uninterrupted:
  assumes "keys_ok (w_tabs w)" and "w_script w = []" and "w_ids w = j # i # ids"
    and "w_rand w = Some raw # Some sel # Some ver # rs"
    and "length raw = 32" "length sel = 16" "length ver = 16"
    and "tx_alone lk (selector, verifier) (alone_draws (w_app w) raw sel ver j i) p (fresh_sys (w_tabs w) (w_db w)) = s"
  shows "t_stage (s_txn s p) = Finished (fst (rotate_refresh selector verifier w)) \<and>
    s_tabs s = w_tabs (snd (rotate_refresh selector verifier w))"
proof -
  obtain out w' where r: "rotate_refresh selector verifier w = (out, w')" by (metis prod.exhaust)
  let ?s0 = "fresh_sys (w_tabs w) (w_db w)"
  let ?s1 = "?s0\<lparr>s_txn := (s_txn ?s0)(p := \<lparr>t_stage = Begun, t_start = w_db w, t_writes = []\<rparr>)\<rparr>"
  let ?ds = "alone_draws (w_app w) raw sel ver j i"
  have "?ds = draw_of (w_app w) raw sel ver j # tl ?ds" by (simp add: alone_draws_def Let_def)
  moreover have "tx_run lk (selector, verifier) (draw_of (w_app w) raw sel ver j) p ?s0 = Some ?s1"
    by (simp add: tx_run_def step_begin_def fresh_sys_def)
  ultimately have "s = tx_alone lk (selector, verifier) (tl ?ds) p ?s1"
    using assms(8) alone_step [OF draw_of_simps(1)] by metis
  moreover have "at_stage lk p (w_db w) (w_tabs w) Begun [] ?s1" by (simp add: at_stage_def fresh_sys_def)
  ultimately have "over p out (w_tabs w') s"
    using alone_rotation [OF assms(1), of lk p "w_db w" ?s1 "(selector, verifier)"]
      rotate_refresh_outcome_quiet [OF assms(2-7) r] by simp
  with r show ?thesis by (simp add: over_def)
qed

corollary refresh_uninterrupted_witness:
  "\<exists>ls. t_stage (s_txn (tx_alone (\<lambda>_. 0) (toy_selector, toy_verifier)
      (alone_draws 10 (replicate 32 (CHR ''r'')) (replicate 16 (CHR ''S'')) (replicate 16 (CHR ''V''))
         (replicate 16 (CHR ''i'')) (replicate 16 (CHR ''j''))) 0
      (fresh_sys (toy_tables\<lparr>refresh_tokens := [toy_refresh_row None]\<rparr>) 10)) 0) = Finished (Inr (Some ls))"
proof -
  let ?w = "toy_refresh_world None 10"
  have "keys_ok (w_tabs ?w)" by (simp add: keys_ok_def)
  from refresh_uninterrupted [OF this toy_refresh_world_simps(4-6), of "\<lambda>_. 0" toy_selector toy_verifier 0, OF _ _ _ refl]
  have "t_stage (s_txn (tx_alone (\<lambda>_. 0) (toy_selector, toy_verifier)
      (alone_draws 10 (replicate 32 (CHR ''r'')) (replicate 16 (CHR ''S'')) (replicate 16 (CHR ''V''))
         (replicate 16 (CHR ''i'')) (replicate 16 (CHR ''j''))) 0
      (fresh_sys (toy_tables\<lparr>refresh_tokens := [toy_refresh_row None]\<rparr>) 10)) 0) =
      Finished (fst (rotate_refresh toy_selector toy_verifier ?w))"
    by simp
  moreover have "\<exists>ls. fst (rotate_refresh toy_selector toy_verifier ?w) = Inr (Some ls)"
  proof -
    obtain rsp w' where r: "refresh ''r'' toy_refresh_body ?w = (rsp, w')" by (metis prod.exhaust)
    then have "rsp_status rsp = 200" using toy_refresh [of "''r''"] by simp
    with r toy_cut show ?thesis
      by (cases rule: refresh_cases) (auto simp: toy_refresh_decodes)
  qed
  ultimately show ?thesis by simp
qed

end
