(* ===== verification/LoginConc.thy ===== *)
theory LoginConc
  imports Lockout
begin

text \<open>
  Concurrent requests of \<^verbatim>\<open>login\<close> (\<^verbatim>\<open>internal/modules/auth/login.go\<close>): any number of them, interleaved
  between their round trips to the database.  A login is not one transaction: it reads the user's
  row, spends its argon2 run on what it read, and then writes, so that what it read may be out of
  date when it writes.  Each step is one round trip with the local work that follows it, on one shared
  world; a request run without interruption is the handler of theory Login.
\<close>

section \<open>Steps\<close>

datatype lstage =
    LArrived
  | LTouching uuid
  | LCounting uuid
  | LResetting user_now_row
  | LIssuing user_now_row
  | LDone response

text \<open>A server error, logged under the name of the operation.\<close>

definition l_error :: "string \<Rightarrow> string \<Rightarrow> gerr \<Rightarrow> world \<Rightarrow> lstage \<times> world" where
  "l_error rid op e w = (LDone (internal_error rid), log_internal_error op rid e w)"

text \<open>The lock gate, the password and the status gate, on the row that was read.\<close>

definition l_check :: "handler \<Rightarrow> string \<Rightarrow> user_now_row \<Rightarrow> string \<Rightarrow> world \<Rightarrow> lstage \<times> world" where
  "l_check h rid u pw w =
     (if still_locked (u_locked_until u) (u_db_now u)
      then (LTouching (u_id u), snd (dummy_verify (h_kdf h) (h_dummy_hash h) pw w))
      else (case verify_run (h_kdf h) pw (u_password_hash u) w of
          (Inl _, w1) \<Rightarrow> (LDone (unauthorized rid), snd (dummy_verify (h_kdf h) (h_dummy_hash h) pw w1))
        | (Inr match, w1) \<Rightarrow>
            if u_status u \<noteq> user_status_active then (LTouching (u_id u), w1)
            else if \<not> match then (LCounting (u_id u), w1)
            else (LResetting u, w1)))"

definition l_lookup :: "handler \<Rightarrow> string \<Rightarrow> string \<Rightarrow> string \<Rightarrow> world \<Rightarrow> lstage \<times> world" where
  "l_lookup h rid name pw w =
     (case s_user_by_username (h_store h) (to_lower (h_unicode_lower h) name) w of
        (Inl e, w1) \<Rightarrow>
          if err_is ErrNoRows e
          then (LTouching zero_uuid, snd (dummy_verify (h_kdf h) (h_dummy_hash h) pw w1))
          else l_error rid ''login.verify_credentials'' e w1
      | (Inr u, w1) \<Rightarrow> l_check h rid u pw w1)"

definition l_arrive :: "handler \<Rightarrow> string \<Rightarrow> body \<Rightarrow> world \<Rightarrow> lstage \<times> world" where
  "l_arrive h rid b w =
     (case decode_login_request b of
        None \<Rightarrow> (LDone (bad_request rid), w)
      | Some req \<Rightarrow>
          (case h_limiter h (to_lower (h_unicode_lower h) (lr_username req)) w of
             ((allowed, _), w1) \<Rightarrow>
               if \<not> allowed then (LDone (unauthorized rid), w1)
               else l_lookup h rid (lr_username req) (credential_plain (lr_password req)) w1))"

text \<open>What a rejecting write answers.\<close>

definition l_rejected :: "string \<Rightarrow> (gerr + user_now_row option) \<times> world \<Rightarrow> lstage \<times> world" where
  "l_rejected rid rw =
     (case rw of
        (Inl e, w) \<Rightarrow> l_error rid ''login.verify_credentials'' e w
      | (Inr _, w) \<Rightarrow> (LDone (unauthorized rid), w))"

definition l_reset :: "handler \<Rightarrow> string \<Rightarrow> user_now_row \<Rightarrow> world \<Rightarrow> lstage \<times> world" where
  "l_reset h rid u w =
     (case s_reset_login_failures (h_store h) (u_id u) w of
        (Inl e, w1) \<Rightarrow> l_error rid ''login.verify_credentials'' e w1
      | (Inr _, w1) \<Rightarrow> (LIssuing u, w1))"

definition l_issue :: "handler \<Rightarrow> string \<Rightarrow> user_now_row \<Rightarrow> world \<Rightarrow> lstage \<times> world" where
  "l_issue h rid u w =
     (case issue_session h (u_id u) w of
        (Inl e, w1) \<Rightarrow> l_error rid ''login.issue_session'' e w1
      | (Inr s, w1) \<Rightarrow> (LDone (session_response s), w1))"

definition login_step :: "handler \<Rightarrow> string \<times> body \<Rightarrow> lstage \<Rightarrow> world \<Rightarrow> lstage \<times> world" where
  "login_step h rq st w =
     (case st of
        LArrived \<Rightarrow> l_arrive h (fst rq) (snd rq) w
      | LTouching i \<Rightarrow> l_rejected (fst rq) (touch_and_reject h i w)
      | LCounting i \<Rightarrow> l_rejected (fst rq) (count_and_reject h (fst rq) i w)
      | LResetting u \<Rightarrow> l_reset h (fst rq) u w
      | LIssuing u \<Rightarrow> l_issue h (fst rq) u w
      | LDone rsp \<Rightarrow> (LDone rsp, w))"

section \<open>The system\<close>

type_synonym lpid = nat

record lsys =
  l_world :: world
  l_stage :: "lpid \<Rightarrow> lstage"

text \<open>A request moves, or the two clocks do.\<close>

datatype lmove = LMove lpid | LTick time time

definition l_move :: "handler \<Rightarrow> (lpid \<Rightarrow> string \<times> body) \<Rightarrow> lmove \<Rightarrow> lsys \<Rightarrow> lsys" where
  "l_move h rq m s =
     (case m of
        LMove p \<Rightarrow>
          (case login_step h (rq p) (l_stage s p) (l_world s) of
             (st, w) \<Rightarrow> \<lparr>l_world = w, l_stage = (l_stage s)(p := st)\<rparr>)
      | LTick t a \<Rightarrow> s\<lparr>l_world := (l_world s)\<lparr>w_db := max t (w_db (l_world s)), w_app := a\<rparr>\<rparr>)"

fun l_run :: "handler \<Rightarrow> (lpid \<Rightarrow> string \<times> body) \<Rightarrow> lmove list \<Rightarrow> lsys \<Rightarrow> lsys" where
  "l_run h rq [] s = s"
| "l_run h rq (m # ms) s = l_run h rq ms (l_move h rq m s)"

definition l_start :: "world \<Rightarrow> lsys" where
  "l_start w = \<lparr>l_world = w, l_stage = (\<lambda>_. LArrived)\<rparr>"

text \<open>The requests of \<open>P\<close> that have compared a password with the hash of user \<open>i\<close>, found it wrong, and not
  counted it yet.\<close>

definition pending :: "uuid \<Rightarrow> lpid set \<Rightarrow> lsys \<Rightarrow> lpid set" where
  "pending i P s = {p \<in> P. l_stage s p = LCounting i}"

text \<open>Along a run: how many passwords are compared with the hash of user \<open>i\<close>, and how many are pending at
  once at most.\<close>

definition compares :: "handler \<Rightarrow> (lpid \<Rightarrow> string \<times> body) \<Rightarrow> uuid \<Rightarrow> lmove \<Rightarrow> lsys \<Rightarrow> bool" where
  "compares h rq i m s =
     (case m of
        LMove p \<Rightarrow> l_stage s p = LArrived \<and>
          (case l_stage (l_move h rq m s) p of
             LCounting j \<Rightarrow> j = i
           | LResetting u \<Rightarrow> u_id u = i
           | _ \<Rightarrow> False)
      | LTick _ _ \<Rightarrow> False)"

fun compared :: "handler \<Rightarrow> (lpid \<Rightarrow> string \<times> body) \<Rightarrow> uuid \<Rightarrow> lmove list \<Rightarrow> lsys \<Rightarrow> nat" where
  "compared h rq i [] s = 0"
| "compared h rq i (m # ms) s =
     (if compares h rq i m s then 1 else 0) + compared h rq i ms (l_move h rq m s)"

fun peak :: "handler \<Rightarrow> (lpid \<Rightarrow> string \<times> body) \<Rightarrow> uuid \<Rightarrow> lpid set \<Rightarrow> lmove list \<Rightarrow> lsys \<Rightarrow> nat" where
  "peak h rq i P [] s = card (pending i P s)"
| "peak h rq i P (m # ms) s = max (card (pending i P s)) (peak h rq i P ms (l_move h rq m s))"

section \<open>One request alone\<close>

text \<open>Run without interruption, a request is the handler.\<close>

fun alone :: "nat \<Rightarrow> handler \<Rightarrow> string \<times> body \<Rightarrow> lstage \<Rightarrow> world \<Rightarrow> lstage \<times> world" where
  "alone 0 h rq st w = (st, w)"
| "alone (Suc n) h rq st w = (case login_step h rq st w of (st', w') \<Rightarrow> alone n h rq st' w')"

lemma alone_done [simp]: "alone n h rq (LDone rsp) w = (LDone rsp, w)"
  by (induction n) (simp_all add: login_step_def)

lemma alone_Suc: "alone (Suc n) h rq st w = alone n h rq (fst (login_step h rq st w)) (snd (login_step h rq st w))"
  by (simp add: split: prod.splits)

lemma alone_rejected:
  "alone (Suc n) h rq (LTouching i) w =
     (case touch_and_reject h i w of
        (Inl e, w2) \<Rightarrow> (LDone (internal_error (fst rq)), log_internal_error ''login.verify_credentials'' (fst rq) e w2)
      | (Inr _, w2) \<Rightarrow> (LDone (unauthorized (fst rq)), w2))"
  "alone (Suc n) h rq (LCounting i) w =
     (case count_and_reject h (fst rq) i w of
        (Inl e, w2) \<Rightarrow> (LDone (internal_error (fst rq)), log_internal_error ''login.verify_credentials'' (fst rq) e w2)
      | (Inr _, w2) \<Rightarrow> (LDone (unauthorized (fst rq)), w2))"
  by (simp_all add: login_step_def l_rejected_def l_error_def split: prod.splits sum.splits)

lemma alone_issuing:
  "alone (Suc n) h rq (LIssuing u) w =
     (case issue_session h (u_id u) w of
        (Inl e, w3) \<Rightarrow> (LDone (internal_error (fst rq)), log_internal_error ''login.issue_session'' (fst rq) e w3)
      | (Inr s, w3) \<Rightarrow> (LDone (session_response s), w3))"
  by (simp add: login_step_def l_issue_def l_error_def split: prod.splits sum.splits)

lemma alone_resetting:
  "alone (Suc (Suc n)) h rq (LResetting u) w =
     (case s_reset_login_failures (h_store h) (u_id u) w of
        (Inl e, w2) \<Rightarrow> (LDone (internal_error (fst rq)), log_internal_error ''login.verify_credentials'' (fst rq) e w2)
      | (Inr _, w2) \<Rightarrow> alone (Suc n) h rq (LIssuing u) w2)"
  by (subst alone_Suc) (simp add: login_step_def l_reset_def l_error_def split: prod.splits sum.splits)

text \<open>The answer that goes with the outcome of the credential check.\<close>

definition l_answer ::
  "handler \<Rightarrow> string \<Rightarrow> (gerr + user_now_row option) \<times> world \<Rightarrow> lstage \<times> world" where
  "l_answer h rid rw =
     (case rw of
        (Inl e, w2) \<Rightarrow> (LDone (internal_error rid), log_internal_error ''login.verify_credentials'' rid e w2)
      | (Inr None, w2) \<Rightarrow> (LDone (unauthorized rid), w2)
      | (Inr (Some u), w2) \<Rightarrow>
          (case issue_session h (u_id u) w2 of
             (Inl e, w3) \<Rightarrow> (LDone (internal_error rid), log_internal_error ''login.issue_session'' rid e w3)
           | (Inr s, w3) \<Rightarrow> (LDone (session_response s), w3)))"

lemma alone_check:
  "alone (Suc (Suc n)) h rq (fst (l_check h (fst rq) u pw v)) (snd (l_check h (fst rq) u pw v)) =
     l_answer h (fst rq) (check_user h (fst rq) u pw v)"
  unfolding l_check_def check_user_def l_answer_def
  by (auto simp: touch_and_reject_def count_and_reject_def alone_rejected alone_resetting alone_issuing
      simp del: alone.simps split: prod.splits sum.splits)

lemma alone_lookup:
  "alone (Suc (Suc n)) h rq (fst (l_lookup h (fst rq) name (credential_plain pw) v))
       (snd (l_lookup h (fst rq) name (credential_plain pw) v)) =
     l_answer h (fst rq) (verify_credentials h (fst rq) name pw v)"
proof (cases "s_user_by_username (h_store h) (to_lower (h_unicode_lower h) name) v")
  case (Pair r w1)
  show ?thesis
  proof (cases r)
    case (Inl e)
    with Pair show ?thesis
      by (auto simp: l_lookup_def verify_credentials_def l_error_def l_answer_def alone_rejected touch_and_reject_def
          simp del: alone.simps split: prod.splits sum.splits)
  next
    case (Inr u)
    with Pair alone_check show ?thesis by (simp add: l_lookup_def verify_credentials_def del: alone.simps)
  qed
qed

lemma alone_login:
  "alone (Suc (Suc (Suc n))) h rq LArrived w =
     (LDone (fst (login h (fst rq) (snd rq) w)), snd (login h (fst rq) (snd rq) w))"
proof (cases "decode_login_request (snd rq)")
  case None
  then show ?thesis by (simp add: login_step_def l_arrive_def login_def)
next
  case (Some req)
  obtain al d w1 where l: "h_limiter h (to_lower (h_unicode_lower h) (lr_username req)) w = ((al, d), w1)"
    by (metis prod.exhaust)
  show ?thesis
  proof (cases al)
    case False
    with Some l show ?thesis by (simp add: login_step_def l_arrive_def login_def)
  next
    case True
    with Some l have "login_step h rq LArrived w = l_lookup h (fst rq) (lr_username req) (credential_plain (lr_password req)) w1"
      by (simp add: login_step_def l_arrive_def)
    then have "alone (Suc (Suc (Suc n))) h rq LArrived w =
        l_answer h (fst rq) (verify_credentials h (fst rq) (lr_username req) (lr_password req) w1)"
      by (subst alone_Suc) (simp only: alone_lookup)
    with True Some l show ?thesis
      by (auto simp: login_def l_answer_def split: prod.splits sum.splits option.splits)
  qed
qed

end
