(* ===== verification/LoginConcSpec.thy ===== *)
theory LoginConcSpec
  imports LoginConc
begin

text \<open>
  How far concurrent logins weaken the lockout.  The lock gate judges a row that was read before the
  argon2 run, and a failure is counted after it, so that all the requests between the two are past the
  gate when the lock falls.  The number of passwords compared with the hash of an account is bounded
  by the threshold and by how many requests are between the two at once, for every interleaving.
\<close>

section \<open>A world in which nothing fails\<close>

definition quiet_same :: "world \<Rightarrow> world \<Rightarrow> bool" where
  "quiet_same w w' \<longleftrightarrow> w_script w' = [] \<and> w_db w' = w_db w"

lemma quiet_same_refl: "w_script w = [] \<Longrightarrow> quiet_same w w"
  by (simp add: quiet_same_def)

lemma quiet_same_trans: "quiet_same u v \<Longrightarrow> quiet_same v w \<Longrightarrow> quiet_same u w"
  by (simp add: quiet_same_def)

lemma quiet_tx_exec: "tx_exec k st x v = (r, x', w') \<Longrightarrow> w_script v = [] \<Longrightarrow> quiet_same v w'"
  by (auto simp: tx_exec_def next_fault_quiet quiet_same_def Let_def split: sum.splits prod.splits if_splits)

lemma quiet_tx:
  assumes "w_script w = []"
  shows "tx_begin w = (rb, w') \<Longrightarrow> quiet_same w w'" and "tx_commit x w = (rc, w') \<Longrightarrow> quiet_same w w'"
    and "quiet_same w (tx_rollback x w)"
    and "q_insert_access_token aa x w = (ra, x', w') \<Longrightarrow> quiet_same w w'"
    and "q_insert_refresh_token ar x w = (rr, x', w') \<Longrightarrow> quiet_same w w'"
proof -
  show "tx_begin w = (rb, w') \<Longrightarrow> quiet_same w w'"
    using assms by (auto simp: tx_begin_def next_fault_quiet quiet_same_def)
  show "tx_commit x w = (rc, w') \<Longrightarrow> quiet_same w w'"
    using assms by (auto simp: tx_commit_def next_fault_quiet quiet_same_def Let_def split: if_splits)
  show "quiet_same w (tx_rollback x w)"
    using assms by (simp add: tx_rollback_def next_fault_quiet quiet_same_def)
  show "q_insert_access_token aa x w = (ra, x', w') \<Longrightarrow> quiet_same w w'"
    using assms by (auto simp: q_insert_access_token_def quiet_same_def split: prod.splits dest!: next_id_D quiet_tx_exec)
  show "q_insert_refresh_token ar x w = (rr, x', w') \<Longrightarrow> quiet_same w w'"
    using assms by (auto simp: q_insert_refresh_token_def quiet_same_def split: prod.splits dest!: next_id_D quiet_tx_exec)
qed

lemma quiet_persist:
  assumes "w_script w = []" and "db_persist_session rows w = (rp, w')"
  shows "quiet_same w w'"
proof -
  obtain rb w1 where b: "tx_begin w = (rb, w1)" by (cases "tx_begin w")
  note 1 = quiet_tx(1) [OF assms(1) b]
  show ?thesis
  proof (cases rb)
    case (Inl e) with assms(2) b 1 show ?thesis by (simp add: db_persist_session_def)
  next
    case (Inr x1)
    obtain ra x2 w2 where a: "q_insert_access_token (sr_access rows) x1 w1 = (ra, x2, w2)" by (metis prod_cases3)
    obtain rr x3 w3 where r: "q_insert_refresh_token (sr_refresh rows) x2 w2 = (rr, x3, w3)" by (metis prod_cases3)
    obtain rc w4 where c: "tx_commit x3 w3 = (rc, w4)" by (cases "tx_commit x3 w3")
    have 2: "quiet_same w w2" using quiet_tx(4) [OF _ a] 1 by (simp add: quiet_same_def)
    have 3: "quiet_same w w3" using quiet_tx(5) [OF _ r] 2 by (simp add: quiet_same_def)
    have 4: "quiet_same w w4" using quiet_tx(2) [OF _ c] 3 by (simp add: quiet_same_def)
    have "quiet_same w (tx_rollback x2 w2)" "quiet_same w (tx_rollback x3 w3)"
      using quiet_tx(3) 2 3 by (auto simp: quiet_same_def)
    with assms(2) b Inr a r c 4 show ?thesis
      by (auto simp: db_persist_session_def split: sum.splits)
  qed
qed

lemma quiet_issue:
  assumes "w_script w = []" and "issue_session (new_handler pl kdf d ul) i w = (r, w')"
  shows "quiet_same w w' \<and> users (w_tabs w') = users (w_tabs w)"
proof -
  have "quiet_same w w'"
    using assms
    by (auto simp: issue_session_def quiet_same_def same_but_rand_def split: prod.splits sum.splits
        dest!: mint_same quiet_persist [rotated])
  moreover have "users (w_tabs w') = users (w_tabs w)"
    using issue_session_outcome [OF assms(2)] by (auto simp: issued_def session_inserted_def Let_def)
  ultimately show ?thesis ..
qed

section \<open>The account under attack\<close>

definition target_in ::
  "(string \<Rightarrow> string) \<Rightarrow> string \<Rightarrow> string \<Rightarrow> uuid \<Rightarrow> account \<Rightarrow> tables \<Rightarrow> bool" where
  "target_in pl name ph i a t \<longleftrightarrow> distinct (map u_id (users t)) \<and>
     (\<exists>u. find (\<lambda>u. pl (u_username u) = name) (users t) = Some u \<and> u_id u = i \<and> account_of u = a \<and>
        u_status u = ''active'' \<and> u_password_hash u = ph)"

lemma target_users: "users t' = users t \<Longrightarrow> target_in pl name ph i a t' \<longleftrightarrow> target_in pl name ph i a t"
  by (simp add: target_in_def)

lemma target_update:
  assumes "target_in pl name ph i a t"
    and "\<And>u. u_id (f u) = u_id u" "\<And>u. u_username (f u) = u_username u" "\<And>u. u_status (f u) = u_status u"
      "\<And>u. u_password_hash (f u) = u_password_hash u"
    and "\<And>u. u \<in> set (users t) \<Longrightarrow> u_id u = i \<Longrightarrow> account_of u = a \<Longrightarrow> account_of (if i = j then f u else u) = a'"
  shows "target_in pl name ph i a' (t\<lparr>users := update_where (\<lambda>u. u_id u = j) f (users t)\<rparr>)"
proof -
  from assms(1) obtain u where u: "find (\<lambda>u. pl (u_username u) = name) (users t) = Some u" "u_id u = i" "account_of u = a"
    "u_status u = ''active''" "u_password_hash u = ph" and d: "distinct (map u_id (users t))"
    by (auto simp: target_in_def)
  let ?u = "if i = j then f u else u"
  have "find (\<lambda>u. pl (u_username u) = name) (update_where (\<lambda>u. u_id u = j) f (users t)) = Some ?u"
    using u by (simp add: find_update_where assms(3))
  moreover have "account_of ?u = a'" using assms(6) u find_SomeD [OF u(1)] by blast
  ultimately show ?thesis
    using u d by (auto simp: target_in_def map_update_where assms)
qed

text \<open>Nobody has the right password of the account.\<close>

definition no_right_guess ::
  "(string \<Rightarrow> string) \<Rightarrow> kdf \<Rightarrow> (string \<Rightarrow> string) \<Rightarrow> string \<Rightarrow> string \<Rightarrow> (lpid \<Rightarrow> string \<times> body) \<Rightarrow> bool" where
  "no_right_guess pl kdf ul name ph rq \<longleftrightarrow>
     (\<forall>p req. decode_login_request (snd (rq p)) = Some req \<longrightarrow> pl (to_lower ul (lr_username req)) = name \<longrightarrow>
        verify_hash kdf (credential_plain (lr_password req)) ph \<noteq> Inr True)"

definition attack_ok ::
  "(string \<Rightarrow> string) \<Rightarrow> string \<Rightarrow> string \<Rightarrow> uuid \<Rightarrow> account \<Rightarrow> lsys \<Rightarrow> bool" where
  "attack_ok pl name ph i a s \<longleftrightarrow> w_script (l_world s) = [] \<and> target_in pl name ph i a (w_tabs (l_world s)) \<and>
     account_ok a \<and> (\<forall>p u. l_stage s p = LResetting u \<longrightarrow> u_id u \<noteq> i)"

section \<open>One step of the attack\<close>

lemma count_target:
  assumes "target_in pl name ph i a (w_tabs w)" and "account_ok a" and "w_script w = []"
    and "count_and_reject (new_handler pl' kdf d ul) rid j w = (r, w')"
  shows "quiet_same w w' \<and> target_in pl name ph i (if j = i then fail_account (w_db w) a else a) (w_tabs w')"
proof -
  let ?t = "w_tabs w"
  obtain rf t' where f: "record_login_failure j lockout_threshold lockout_window (w_db w) ?t = (rf, t')"
    by (cases "record_login_failure j lockout_threshold lockout_window (w_db w) ?t")
  have e: "db_record_login_failure j lockout_threshold lockout_window w =
      (rf, (emit (WUpdate ''RecordLoginFailure'') w)\<lparr>w_tabs := t'\<rparr>)"
    unfolding db_record_login_failure_def
    by (rule exec_stmt_quiet) (simp_all add: assms(3) window_micros f)
  then have w': "quiet_same w w'" "w_tabs w' = t'"
    using assms(3,4) by (auto simp: count_and_reject_def quiet_same_def log_account_locked_def split: sum.splits if_splits)
  have "target_in pl name ph i (if j = i then fail_account (w_db w) a else a) t'"
  proof (cases "find (\<lambda>u. u_id u = j) (users ?t)")
    case None
    with f assms(1) have "t' = ?t" by (simp add: record_login_failure_def)
    moreover have "j \<noteq> i"
      using None assms(1) by (auto simp: find_None_all target_in_def dest: find_SomeD)
    ultimately show ?thesis using assms(1) by simp
  next
    case (Some old)
    let ?n = "failed_next (u_failed_attempts old) (u_locked_until old) (w_db w)"
    let ?l = "locked_next lockout_threshold lockout_window (u_failed_attempts old) (u_locked_until old) (w_db w)"
    let ?f = "\<lambda>u. u\<lparr>u_failed_attempts := ?n, u_locked_until := ?l, u_updated_at := w_db w\<rparr>"
    have old: "u = old" if "u \<in> set (users ?t)" "u_id u = j" for u
      using that Some assms(1) find_unique_iff [of u_id "users ?t" j u] by (simp add: target_in_def)
    have tgt: "target_in pl name ph i (if j = i then fail_account (w_db w) a else a)
        (?t\<lparr>users := update_where (\<lambda>u. u_id u = j) ?f (users ?t)\<rparr>)"
      using assms(1)
    proof (rule target_update)
      fix u assume "u \<in> set (users ?t)" "u_id u = i" "account_of u = a"
      with old show "account_of (if i = j then ?f u else u) = (if j = i then fail_account (w_db w) a else a)"
        using fail_account_next [of "w_db w" u] by (auto simp: account_of_def)
    qed simp_all
    show ?thesis
    proof (cases "max_int4 < ?n")
      case False
      with f Some tgt show ?thesis by (simp add: record_login_failure_def Let_def)
    next
      case True
      have "j \<noteq> i"
      proof
        assume "j = i"
        with assms(1) old have "account_of old = a" by (auto simp: target_in_def dest: find_SomeD)
        with True account_ok_range [OF assms(2)] show False
          by (auto simp: account_of_def failed_next_def max_int4_def split: if_splits)
      qed
      with True f Some assms(1) show ?thesis by (simp add: record_login_failure_def Let_def)
    qed
  qed
  with w' show ?thesis by simp
qed

lemma arrive_target:
  assumes t: "target_in pl name ph i a (w_tabs w)" and q: "w_script w = []"
    and g: "\<And>req. decode_login_request b = Some req \<Longrightarrow> pl (to_lower ul (lr_username req)) = name \<Longrightarrow>
        verify_hash kdf (credential_plain (lr_password req)) ph \<noteq> Inr True"
    and "l_arrive (new_handler pl kdf d ul) rid b w = (st, w')"
  shows "quiet_same w w' \<and> w_tabs w' = w_tabs w \<and>
    (st = LCounting i \<longrightarrow> \<not> still_locked (ac_locked a) (w_db w)) \<and>
    (\<forall>u. st = LResetting u \<longrightarrow> u_id u \<noteq> i)"
proof (cases "decode_login_request b")
  case None
  with assms show ?thesis by (auto simp: l_arrive_def quiet_same_def)
next
  case (Some req)
  let ?n = "to_lower ul (lr_username req)"
  let ?pw = "credential_plain (lr_password req)"
  let ?w1 = "emit (WSelect ''GetUserByUsername'') w"
  note l = assms(4) [unfolded l_arrive_def Some, simplified, unfolded noop_rate_limiter_def, simplified, unfolded l_lookup_def]
  have dv: "quiet_same w (snd (dummy_verify kdf d pw ?w1)) \<and> w_tabs (snd (dummy_verify kdf d pw ?w1)) = w_tabs w" for pw
    by (simp add: quiet_same_def q verify_run_frame)
  have vr: "w_tabs v = w_tabs w \<and> w_script v = [] \<and> w_db v = w_db w" if "verify_run kdf pw h ?w1 = (x, v)" for pw h x v
    using that verify_run_simps(2) [of kdf pw h ?w1] q by (auto split: if_splits)
  show ?thesis
  proof (cases "find (\<lambda>u. pl (u_username u) = pl ?n) (users (w_tabs w))")
    case None
    with l dv show ?thesis by (auto simp: quiet_lookup q)
  next
    case u: (Some u)
    obtain x v where v: "verify_run kdf ?pw (u_password_hash u) ?w1 = (x, v)"
      by (cases "verify_run kdf ?pw (u_password_hash u) ?w1")
    from t obtain r where r: "find (\<lambda>u. pl (u_username u) = name) (users (w_tabs w)) = Some r" "u_id r = i"
      "account_of r = a" "u_password_hash r = ph" by (auto simp: target_in_def)
    have same: "u = r \<and> pl ?n = name" if "u_id u = i"
    proof -
      have "u = r"
        using t r find_SomeD [OF u] find_SomeD [OF r(1)] that unfolding target_in_def
        by (metis (mono_tags, lifting) distinct_map inj_onD)
      with find_SomeD [OF u] find_SomeD [OF r(1)] show ?thesis by simp
    qed
    have x: "x = verify_hash kdf ?pw (u_password_hash u)" using v verify_run_simps(1) by (metis fst_conv)
    have lk: "u_id u = i \<Longrightarrow> u_locked_until u = ac_locked a" using same r(3) by (auto simp: account_of_def)
    show ?thesis
    proof (cases "still_locked (u_locked_until u) (w_db w)")
      case True
      with l u dv [of ?pw] show ?thesis by (auto simp: quiet_lookup q l_check_def)
    next
      case unlocked: False
      show ?thesis
      proof (cases x)
        case (Inl e)
        with l u v vr [OF v] unlocked show ?thesis
          by (auto simp: quiet_lookup q l_check_def quiet_same_def verify_run_frame)
      next
        case (Inr m)
        have m: "m \<Longrightarrow> u_id u \<noteq> i" using same g [OF Some] r x Inr by auto
        from l u v Inr unlocked consider "st = LTouching (u_id u)" "w' = v" | "st = LCounting (u_id u)" "w' = v" "\<not> m"
          | "st = LResetting (with_db_now u (w_db w))" "w' = v" "m"
          by (auto simp: quiet_lookup q l_check_def split: if_splits)
        then show ?thesis
          using vr [OF v] m lk unlocked by cases (auto simp: quiet_same_def)
      qed
    qed
  qed
qed

lemma touch_target:
  assumes "target_in pl name ph i a (w_tabs w)" and "w_script w = []"
    and "touch_and_reject (new_handler pl' kdf d ul) j w = (r, w')"
  shows "quiet_same w w' \<and> target_in pl name ph i a (w_tabs w')"
proof -
  have "target_in pl name ph i a (snd (touch_user_timing j (w_db w) (w_tabs w)))"
    unfolding touch_user_timing_def snd_conv
    by (rule target_update [OF assms(1)]) (auto simp: account_of_def)
  with assms(2,3) show ?thesis by (auto simp: quiet_touch quiet_same_def)
qed

lemma reset_target:
  assumes "target_in pl name ph i a (w_tabs w)" and "w_script w = []" and "u_id (u :: user_now_row) \<noteq> i"
    and "l_reset (new_handler pl' kdf d ul) rid u w = (st, w')"
  shows "quiet_same w w' \<and> target_in pl name ph i a (w_tabs w') \<and> st = LIssuing u"
proof -
  have "target_in pl name ph i a (snd (set_user_lock (u_id u) 0 None (w_db w) (w_tabs w)))"
    unfolding set_user_lock_def snd_conv
    by (rule target_update [OF assms(1)]) (use assms(3) in auto)
  with assms(2,4) show ?thesis
    by (auto simp: l_reset_def db_reset_login_failures_def exec_stmt_def next_fault_quiet quiet_same_def
        set_user_lock_def)
qed

text \<open>What a move of a request does to the attack: it compares, it counts, or it changes neither the account
  nor what is pending.\<close>

lemma attack_move:
  assumes ok: "attack_ok pl name ph i a s" and g: "no_right_guess pl kdf ul name ph rq"
    and mv: "s' = l_move (new_handler pl kdf d ul) rq (LMove p) s"
  obtains (compares) "compares (new_handler pl kdf d ul) rq i (LMove p) s" and "attack_ok pl name ph i a s'"
      and "\<not> still_locked (ac_locked a) (w_db (l_world s))" and "w_db (l_world s') = w_db (l_world s)"
      and "l_stage s p \<noteq> LCounting i" and "l_stage s' = (l_stage s)(p := LCounting i)"
  | (counts) "\<not> compares (new_handler pl kdf d ul) rq i (LMove p) s"
      and "attack_ok pl name ph i (fail_account (w_db (l_world s)) a) s'"
      and "w_db (l_world s') = w_db (l_world s)" and "l_stage s p = LCounting i"
      and "\<And>q. l_stage s' q = LCounting i \<longleftrightarrow> q \<noteq> p \<and> l_stage s q = LCounting i"
  | (idle) "\<not> compares (new_handler pl kdf d ul) rq i (LMove p) s" and "attack_ok pl name ph i a s'"
      and "w_db (l_world s') = w_db (l_world s)"
      and "\<And>q. l_stage s' q = LCounting i \<longleftrightarrow> l_stage s q = LCounting i"
proof -
  let ?h = "new_handler pl kdf d ul"
  let ?w = "l_world s"
  obtain st w' where st: "login_step ?h (rq p) (l_stage s p) ?w = (st, w')"
    by (cases "login_step ?h (rq p) (l_stage s p) ?w")
  have s': "s' = \<lparr>l_world = w', l_stage = (l_stage s)(p := st)\<rparr>" by (simp add: mv l_move_def st)
  have tgt: "target_in pl name ph i a (w_tabs ?w)" "w_script ?w = []" "account_ok a"
    "\<And>p u. l_stage s p = LResetting u \<Longrightarrow> u_id u \<noteq> i"
    using ok by (auto simp: attack_ok_def)
  have cmp: "compares ?h rq i (LMove p) s \<longleftrightarrow> l_stage s p = LArrived \<and>
      (case st of LCounting j \<Rightarrow> j = i | LResetting u \<Rightarrow> u_id u = i | _ \<Rightarrow> False)"
    using s' mv by (simp add: compares_def)
  have ok': "attack_ok pl name ph i a' s'"
    if "quiet_same ?w w'" "target_in pl name ph i a' (w_tabs w')" "account_ok a'" "\<And>u. st = LResetting u \<Longrightarrow> u_id u \<noteq> i"
    for a'
    using that tgt(4) by (auto simp: attack_ok_def s' quiet_same_def)
  have db: "w_db (l_world s') = w_db ?w" if "quiet_same ?w w'"
    using that by (simp add: s' quiet_same_def)
  have idle': thesis if q: "quiet_same ?w w'" "target_in pl name ph i a (w_tabs w')"
    and n: "l_stage s p \<noteq> LCounting i" "st \<noteq> LCounting i" "\<And>u. st = LResetting u \<Longrightarrow> u_id u \<noteq> i"
  proof (rule idle)
    show "\<not> compares ?h rq i (LMove p) s" unfolding cmp using n(2,3) by (cases st) simp_all
    show "attack_ok pl name ph i a s'" using q tgt(3) n(3) by (rule ok')
    show "w_db (l_world s') = w_db ?w" using q(1) by (rule db)
    show "l_stage s' q = LCounting i \<longleftrightarrow> l_stage s q = LCounting i" for q
      using n(1,2) by (simp add: s')
  qed
  have logged: "quiet_same ?w w'" "w_tabs w' = w_tabs v"
    if "quiet_same ?w v" "w' = v \<or> (\<exists>op e. w' = log_internal_error op (fst (rq p)) e v)" for v
    using that by (auto simp: quiet_same_def log_internal_error_def)
  show thesis
  proof (cases "l_stage s p")
    case LArrived
    with st have ar: "l_arrive ?h (fst (rq p)) (snd (rq p)) ?w = (st, w')" by (simp add: login_step_def)
    have "verify_hash kdf (credential_plain (lr_password req)) ph \<noteq> Inr True"
      if "decode_login_request (snd (rq p)) = Some req" "pl (to_lower ul (lr_username req)) = name" for req
      using g that unfolding no_right_guess_def by blast
    note a0 = arrive_target [OF tgt(1,2) this ar]
    have a: "quiet_same ?w w'" "w_tabs w' = w_tabs ?w"
      "st = LCounting i \<Longrightarrow> \<not> still_locked (ac_locked a) (w_db ?w)" "\<And>u. st = LResetting u \<Longrightarrow> u_id u \<noteq> i"
      using a0 by simp_all
    show thesis
    proof (cases "st = LCounting i")
      case True
      show thesis
      proof (rule compares)
        show "compares ?h rq i (LMove p) s" unfolding cmp by (simp add: LArrived True)
        show "attack_ok pl name ph i a s'" by (rule ok') (use a tgt in auto)
      qed (use a db LArrived True in \<open>simp_all add: s'\<close>)
    next
      case False
      show thesis by (rule idle') (use a tgt LArrived False in auto)
    qed
  next
    case (LTouching j)
    obtain r v where t: "touch_and_reject ?h j ?w = (r, v)" by (cases "touch_and_reject ?h j ?w")
    from touch_target [OF tgt(1,2) t] have v: "quiet_same ?w v" "target_in pl name ph i a (w_tabs v)" by auto
    have d: "\<exists>rsp. st = LDone rsp" "w' = v \<or> (\<exists>op e. w' = log_internal_error op (fst (rq p)) e v)"
      using st by (auto simp: LTouching t login_step_def l_rejected_def l_error_def split: sum.splits)
    show thesis by (rule idle') (use logged [OF v(1) d(2)] v d(1) LTouching in auto)
  next
    case (LCounting j)
    obtain r v where t: "count_and_reject ?h (fst (rq p)) j ?w = (r, v)" by (cases "count_and_reject ?h (fst (rq p)) j ?w")
    from count_target [OF tgt(1,3,2) t] have v: "quiet_same ?w v"
      "target_in pl name ph i (if j = i then fail_account (w_db ?w) a else a) (w_tabs v)" by auto
    have d: "\<exists>rsp. st = LDone rsp" "w' = v \<or> (\<exists>op e. w' = log_internal_error op (fst (rq p)) e v)"
      using st by (auto simp: LCounting t login_step_def l_rejected_def l_error_def split: sum.splits)
    note l = logged [OF v(1) d(2)]
    show thesis
    proof (cases "j = i")
      case True
      have "account_ok (fail_account (w_db ?w) a)" using event_ok [OF tgt(3), of "w_db ?w" Failure] by simp
      then have o: "attack_ok pl name ph i (fail_account (w_db ?w) a) s'"
        using True v(2) l d(1) by (intro ok') auto
      show thesis
        by (rule counts) (use o d(1) True LCounting db [OF l(1)] in \<open>auto simp: cmp s'\<close>)
    next
      case False
      show thesis by (rule idle') (use l v(2) d(1) False LCounting in auto)
    qed
  next
    case (LResetting u)
    with st have "l_reset ?h (fst (rq p)) u ?w = (st, w')" by (simp add: login_step_def)
    note rs = reset_target [OF tgt(1,2) tgt(4) [OF LResetting] this]
    show thesis by (rule idle') (use rs LResetting in simp_all)
  next
    case (LIssuing u)
    obtain r v where t: "issue_session ?h (u_id u) ?w = (r, v)" by (cases "issue_session ?h (u_id u) ?w")
    have v: "quiet_same ?w v" "target_in pl name ph i a (w_tabs v)"
      using quiet_issue [OF tgt(2) t] tgt(1) by (simp_all add: target_users [of "w_tabs v" "w_tabs ?w"])
    have d: "\<exists>rsp. st = LDone rsp" "w' = v \<or> (\<exists>op e. w' = log_internal_error op (fst (rq p)) e v)"
      using st by (auto simp: LIssuing t login_step_def l_issue_def l_error_def split: sum.splits)
    show thesis by (rule idle') (use logged [OF v(1) d(2)] v d(1) LIssuing in auto)
  next
    case (LDone rsp)
    with st have "st = LDone rsp" "w' = ?w" by (auto simp: login_step_def)
    show thesis by (rule idle') (use LDone tgt \<open>st = LDone rsp\<close> \<open>w' = ?w\<close> in \<open>simp_all add: quiet_same_def\<close>)
  qed
qed

section \<open>The budget\<close>

text \<open>How many more passwords can be compared until \<open>e\<close>, with at most \<open>k\<close> pending at once, \<open>m\<close> of them now.\<close>

definition race_budget :: "int \<Rightarrow> time \<Rightarrow> time \<Rightarrow> int \<Rightarrow> account \<Rightarrow> int" where
  "race_budget k e s m a =
     (case ac_locked a of
        None \<Rightarrow> (k - m) + (4 - ac_failed a) + (k + 4) * windows (e - s)
      | Some u \<Rightarrow>
          if e < u then 0
          else if s < u then (k + 4) * (windows (e - u) + 1)
          else (k - m) + 4 + (k + 4) * windows (e - s))"

lemma windows_mult_mono: "0 \<le> k \<Longrightarrow> a \<le> b \<Longrightarrow> (k + 4) * windows a \<le> (k + 4) * windows b"
  by (simp add: mult_left_mono windows_mono)

lemma race_budget_wait:
  assumes "0 \<le> k" "0 \<le> m" and "s \<le> t" "t \<le> e"
  shows "race_budget k e t m a \<le> race_budget k e s m a"
proof (cases "ac_locked a")
  case None
  with windows_mult_mono [OF assms(1), of "e - t" "e - s"] assms(3) show ?thesis by (simp add: race_budget_def)
next
  case (Some u)
  show ?thesis
  proof (cases "s < u \<and> u \<le> t")
    case True
    with windows_mult_mono [OF assms(1), of "e - t" "e - u"] assms Some show ?thesis
      by (simp add: race_budget_def algebra_simps)
  next
    case False
    with windows_mult_mono [OF assms(1), of "e - t" "e - s"] assms Some show ?thesis
      by (auto simp: race_budget_def)
  qed
qed

lemma race_budget_compare:
  assumes "\<not> still_locked (ac_locked a) s" and "s \<le> e"
  shows "race_budget k e s (m + 1) a + 1 = race_budget k e s m a"
  using assms by (auto simp: race_budget_def still_locked_def split: option.splits)

lemma race_budget_count:
  assumes "account_ok a" and "0 \<le> k" "1 \<le> m" "m \<le> k" and "s \<le> e"
  shows "race_budget k e s (m - 1) (fail_account s a) \<le> race_budget k e s m a"
proof (cases "ac_locked a")
  case None
  show ?thesis
  proof (cases "ac_failed a = 4")
    case True
    with None have f: "fail_account s a = \<lparr>ac_failed = 5, ac_locked = Some (s + lockout_window)\<rparr>"
      by (simp add: fail_account_def still_locked_def lockout_threshold_def Let_def)
    have "(k + 4) * (windows (e - (s + lockout_window)) + 1) = (k + 4) * windows (e - s)"
      using windows_step [of "e - s"] by (simp add: diff_diff_eq)
    moreover have "0 \<le> (k + 4) * windows (e - s)" using assms windows_nonneg [of "e - s"] by simp
    ultimately show ?thesis using None True assms window_pos by (simp add: race_budget_def f)
  next
    case False
    with None assms(1) have "fail_account s a = \<lparr>ac_failed = ac_failed a + 1, ac_locked = None\<rparr>"
      by (auto simp: fail_account_def still_locked_def lockout_threshold_def Let_def account_ok_def)
    then show ?thesis using None by (simp add: race_budget_def)
  qed
next
  case (Some u)
  show ?thesis
  proof (cases "s < u")
    case True
    with Some have "fail_account s a = a" by (simp add: fail_account_def still_locked_def)
    with Some True show ?thesis by (simp add: race_budget_def)
  next
    case False
    with Some have "fail_account s a = \<lparr>ac_failed = 1, ac_locked = None\<rparr>"
      by (simp add: fail_account_def still_locked_def lockout_threshold_def Let_def)
    with Some False assms(5) show ?thesis by (simp add: race_budget_def)
  qed
qed

lemma race_budget_nonneg:
  assumes "account_ok a" and "m \<le> k" "0 \<le> m" and "s \<le> e"
  shows "0 \<le> race_budget k e s m a"
proof -
  have "0 \<le> (k + 4) * windows (e - s)" "u \<le> e \<Longrightarrow> 0 \<le> (k + 4) * (windows (e - u) + 1)" for u
    using assms windows_nonneg [of "e - s"] windows_nonneg [of "e - u"] by simp_all
  with assms show ?thesis
    by (auto simp: race_budget_def account_ok_def lockout_threshold_def split: option.splits)
qed

lemma race_compared:
  assumes "attack_ok pl name ph i a s" and "no_right_guess pl kdf ul name ph rq" and "finite P"
    and "\<forall>m \<in> set ms. case m of LMove p \<Rightarrow> p \<in> P | LTick t x \<Rightarrow> t \<le> e"
    and "w_db (l_world s) \<le> e" and "peak (new_handler pl kdf d ul) rq i P ms s \<le> k"
  shows "int (compared (new_handler pl kdf d ul) rq i ms s) \<le>
    race_budget (int k) e (w_db (l_world s)) (int (card (pending i P s))) a"
  using assms
proof (induction ms arbitrary: s a)
  case Nil
  then show ?case by (auto simp: attack_ok_def intro!: race_budget_nonneg)
next
  case (Cons m ms)
  let ?h = "new_handler pl kdf d ul"
  let ?s' = "l_move ?h rq m s"
  let ?now = "w_db (l_world s)"
  let ?m = "int (card (pending i P s))" and ?m' = "int (card (pending i P ?s'))"
  have k: "?m \<le> int k" "?m' \<le> int k" "peak ?h rq i P ms ?s' \<le> k"
    using Cons.prems(6) by (cases ms; simp)+
  have rest: "\<forall>m \<in> set ms. case m of LMove p \<Rightarrow> p \<in> P | LTick t x \<Rightarrow> t \<le> e" using Cons.prems(4) by simp
  note IH = Cons.IH [OF _ Cons.prems(2,3) rest _ k(3)]
  show ?case
  proof (cases m)
    case (LTick t x)
    have "attack_ok pl name ph i a ?s'" using Cons.prems(1) by (simp add: attack_ok_def LTick l_move_def)
    moreover have db: "w_db (l_world ?s') = max t ?now" "max t ?now \<le> e" "pending i P ?s' = pending i P s"
      using Cons.prems(4,5) by (auto simp: LTick l_move_def pending_def)
    ultimately have "int (compared ?h rq i ms ?s') \<le> race_budget (int k) e (max t ?now) ?m a" using IH by metis
    moreover have "race_budget (int k) e (max t ?now) ?m a \<le> race_budget (int k) e ?now ?m a"
      by (rule race_budget_wait) (use db in simp_all)
    ultimately show ?thesis by (simp add: LTick compares_def)
  next
    case (LMove p)
    have fin: "finite (pending i P s)" "p \<in> P" using Cons.prems(3,4) by (simp_all add: pending_def LMove)
    from Cons.prems(1,2) refl show ?thesis
    proof (cases rule: attack_move [where p = p and d = d])
      case compares
      have "pending i P ?s' = insert p (pending i P s)" "p \<notin> pending i P s"
        using compares(5,6) fin by (auto simp: pending_def LMove)
      with fin have "?m' = ?m + 1" by simp
      with IH [of a] compares Cons.prems(5) race_budget_compare [OF compares(3) Cons.prems(5), of "int k" ?m]
      show ?thesis by (simp add: LMove)
    next
      case counts
      have "pending i P s = insert p (pending i P ?s')" "p \<notin> pending i P ?s'"
        using counts(4,5) fin by (auto simp: pending_def LMove)
      with fin have m: "?m' = ?m - 1" "1 \<le> ?m" by (auto simp: pending_def)
      have "account_ok a" using Cons.prems(1) by (simp add: attack_ok_def)
      from race_budget_count [OF this _ m(2) k(1) Cons.prems(5)] IH [OF counts(2) [folded LMove]] counts(1,3) m Cons.prems(5)
      show ?thesis by (simp add: LMove)
    next
      case idle
      have "pending i P ?s' = pending i P s" using idle(4) by (auto simp: pending_def LMove)
      with IH [of a] idle Cons.prems(5) show ?thesis by (simp add: LMove)
    qed
  qed
qed

lemma race_budget_all:
  assumes "account_ok a" and "0 \<le> k" and "s \<le> e"
  shows "race_budget k e s 0 a \<le> (k + 4) * (windows (e - s) + 1)"
proof (cases "ac_locked a")
  case None
  with assms(1) show ?thesis by (simp add: race_budget_def account_ok_def algebra_simps)
next
  case (Some u)
  have "0 \<le> (k + 4) * (windows (e - s) + 1)" using assms windows_nonneg [of "e - s"] by simp
  moreover have "s < u \<Longrightarrow> (k + 4) * windows (e - u) \<le> (k + 4) * windows (e - s)"
    by (rule windows_mult_mono) (use assms in simp_all)
  ultimately show ?thesis using Some by (auto simp: race_budget_def algebra_simps)
qed

section \<open>A race, executed\<close>

text \<open>Six requests for Alice at once, five with a wrong password and one with the right one: all of them
  read her row, the five count their failures, then the sixth goes on.\<close>

definition toy_guessers :: "lpid \<Rightarrow> string \<times> body" where
  "toy_guessers p = (''r'', if p = 5 then toy_body else toy_wrong_body)"

definition toy_looks :: "lmove list" where "toy_looks = map LMove [0, 1, 2, 3, 4, 5]"
definition toy_counts :: "lmove list" where "toy_counts = map LMove [0, 1, 2, 3, 4]"

lemma look_step:
  assumes "decode_login_request b = Some req" and "w_script w = []"
    and "find (\<lambda>u. pl (u_username u) = pl (to_lower ul (lr_username req))) (users (w_tabs w)) = Some u"
    and "\<not> still_locked (u_locked_until u) (w_db w)" and "u_status u = ''active''"
    and "verify_hash kdf (credential_plain (lr_password req)) (u_password_hash u) = Inr m"
  shows "l_arrive (new_handler pl kdf d ul) rid b w =
    (if m then LResetting (with_db_now u (w_db w)) else LCounting (u_id u), emit WArgon2 (emit (WSelect ''GetUserByUsername'') w))"
proof -
  have p: "parses (u_password_hash u)"
    using assms(6) verify_hash_error_iff [of kdf "credential_plain (lr_password req)" "u_password_hash u"] by auto
  have v: "verify_run kdf (credential_plain (lr_password req)) (u_password_hash u) v = (Inr m, emit WArgon2 v)" for v
    using p assms(6) by (auto simp: verify_run_def parses_def split: sum.splits)
  show ?thesis
    using assms v by (simp add: l_arrive_def noop_rate_limiter_def l_lookup_def quiet_lookup l_check_def user_status_active_def)
qed

definition toyish :: "int \<Rightarrow> time option \<Rightarrow> world \<Rightarrow> bool" where
  "toyish n l w \<longleftrightarrow> w_script w = [] \<and> w_db w = 10 \<and> w_rand w = w_rand toy_world \<and> w_ids w = w_ids toy_world \<and>
     (\<exists>t. w_tabs w = toy_tables\<lparr>users := [alice\<lparr>u_failed_attempts := n, u_locked_until := l, u_updated_at := t\<rparr>, bob]\<rparr>)"

lemma toyish_start: "toyish 0 None toy_world"
  unfolding toyish_def toy_world_fields
  by (auto simp: toy_tables_def fixture_users intro!: exI [of _ 0])

lemma toyish_emit [simp]: "toyish n l (emit e w) = toyish n l w"
  by (simp add: toyish_def)

lemma toyish_look:
  assumes "toyish n None w"
  shows "l_arrive toy_handler ''r'' toy_wrong_body w = (LCounting alice_id, emit WArgon2 (emit (WSelect ''GetUserByUsername'') w))"
    and "\<exists>u. l_arrive toy_handler ''r'' toy_body w = (LResetting u, emit WArgon2 (emit (WSelect ''GetUserByUsername'') w)) \<and>
      u_id u = alice_id"
proof -
  from assms obtain t where t: "w_script w = []"
    "w_tabs w = toy_tables\<lparr>users := [alice\<lparr>u_failed_attempts := n, u_locked_until := None, u_updated_at := t\<rparr>, bob]\<rparr>"
    by (auto simp: toyish_def)
  let ?a = "alice\<lparr>u_failed_attempts := n, u_locked_until := None, u_updated_at := t\<rparr>"
  show "l_arrive toy_handler ''r'' toy_wrong_body w = (LCounting alice_id, emit WArgon2 (emit (WSelect ''GetUserByUsername'') w))"
    using look_step [OF toy_wrong_body_decodes t(1), of "\<lambda>s. s" "\<lambda>s. s" ?a toy_kdf False "toy_hash ''dummy''" "''r''"]
    by (simp add: t(2) toy_handler_def toy_lower_alice still_locked_def)
  show "\<exists>u. l_arrive toy_handler ''r'' toy_body w = (LResetting u, emit WArgon2 (emit (WSelect ''GetUserByUsername'') w)) \<and>
      u_id u = alice_id"
    using look_step [OF toy_body_decodes t(1), of "\<lambda>s. s" "\<lambda>s. s" ?a toy_kdf True "toy_hash ''dummy''" "''r''"]
    by (simp add: t(2) toy_handler_def toy_lower still_locked_def)
qed

lemma toyish_count:
  assumes "toyish n None w" and "0 \<le> n" "n \<le> 4" and "l_stage s p = LCounting alice_id" and "l_world s = w" and "p \<noteq> 5"
  shows "\<exists>w'. l_move toy_handler toy_guessers (LMove p) s =
      \<lparr>l_world = w', l_stage = (l_stage s)(p := LDone (unauthorized ''r''))\<rparr> \<and>
    toyish (n + 1) (if n = 4 then Some (10 + lockout_window) else None) w'"
proof -
  from assms(1) obtain t where t: "w_script w = []" "w_db w = 10"
    "w_tabs w = toy_tables\<lparr>users := [alice\<lparr>u_failed_attempts := n, u_locked_until := None, u_updated_at := t\<rparr>, bob]\<rparr>"
    by (auto simp: toyish_def)
  let ?l = "if n = 4 then Some (10 + lockout_window) else None"
  let ?t = "toy_tables\<lparr>users := [alice\<lparr>u_failed_attempts := n + 1, u_locked_until := ?l, u_updated_at := 10\<rparr>, bob]\<rparr>"
  let ?w = "(emit (WUpdate ''RecordLoginFailure'') w)\<lparr>w_tabs := ?t\<rparr>"
  obtain row where "record_login_failure alice_id lockout_threshold lockout_window (w_db w) (w_tabs w) = (Inr row, ?t)"
    using assms(2,3)
    by (simp add: t record_login_failure_def Let_def failed_next_def locked_next_def still_locked_def
        lockout_threshold_def max_int4_def update_where_def)
  then have "db_record_login_failure alice_id lockout_threshold lockout_window w = (Inr row, ?w)"
    unfolding db_record_login_failure_def window_micros by (intro exec_stmt_quiet t(1)) simp
  moreover define w' where "w' = (if lf_just_locked row then emit (LogAccountLocked ''r'' (uuid_to_string alice_id)) ?w else ?w)"
  ultimately have w': "count_and_reject toy_handler ''r'' alice_id w = (Inr None, w')"
    by (simp add: count_and_reject_def toy_handler_def log_account_locked_def)
  have "toyish (n + 1) ?l ?w" using assms(1) by (auto simp: toyish_def)
  then have "toyish (n + 1) ?l w'" by (simp add: w'_def)
  with w' assms(4-6) show ?thesis
    by (simp add: l_move_def login_step_def toy_guessers_def l_rejected_def)
qed

lemma toyish_finish:
  assumes "toyish 5 (Some (10 + lockout_window)) w" and "u_id (u :: user_now_row) = alice_id"
  shows "\<exists>w1 w2 ss. l_reset toy_handler ''r'' u w = (LIssuing u, w1) \<and>
    l_issue toy_handler ''r'' u w1 = (LDone (session_response ss), w2) \<and> toyish 0 None w1"
proof -
  from assms(1) obtain t where t: "w_script w = []" "w_db w = 10" "w_rand w = w_rand toy_world" "w_ids w = w_ids toy_world"
    "w_tabs w = toy_tables\<lparr>users := [alice\<lparr>u_failed_attempts := 5, u_locked_until := Some (10 + lockout_window),
       u_updated_at := t\<rparr>, bob]\<rparr>"
    by (auto simp: toyish_def)
  have "alice_id \<noteq> bob_id" by simp
  then obtain w1 where r: "l_reset toy_handler ''r'' u w = (LIssuing u, w1)" "toyish 0 None w1"
    using t assms(2)
    by (auto simp: l_reset_def toy_handler_def db_reset_login_failures_def exec_stmt_def next_fault_quiet
        set_user_lock_def update_where_def toyish_def)
  from r(2) obtain t' where t': "w_script w1 = []" "w_rand w1 = w_rand toy_world" "w_ids w1 = w_ids toy_world"
    "w_tabs w1 = toy_tables\<lparr>users := [alice\<lparr>u_failed_attempts := 0, u_locked_until := None, u_updated_at := t'\<rparr>, bob]\<rparr>"
    by (auto simp: toyish_def)
  let ?rows = "rows_for alice_id (access_of (replicate 32 (CHR ''r'')))
      (refresh_of (replicate 16 (CHR ''s'')) (replicate 16 (CHR ''v''))) (v4_bits (replicate 16 (CHR ''f''))) (w_app w1)"
  let ?w3 = "w1\<lparr>w_rand := []\<rparr>"
  obtain w2 where p: "db_persist_session ?rows ?w3 = (Inr (), w2)"
    by (rule persist_quiet [of ?w3 "replicate 16 (CHR ''i'')" "replicate 16 (CHR ''j'')" "[]" ?rows])
       (use t' in \<open>simp_all add: rows_for_def toy_world_def\<close>)
  have "issue_session toy_handler alice_id w1 =
      (Inr (session_of alice_id (access_of (replicate 32 (CHR ''r'')))
         (refresh_of (replicate 16 (CHR ''s'')) (replicate 16 (CHR ''v''))) (w_app w1)), w2)"
    using p t' by (simp add: issue_session_def toy_handler_def mint_quiet toy_world_def)
  with assms(2) r show ?thesis by (auto simp: l_issue_def)
qed

text \<open>After the six reads, five wrong guesses are pending; after the five counts the account is locked and
  the sixth, which has the right password, is about to clear the lock.\<close>

lemma toy_after_looks:
  "\<exists>u. u_id u = alice_id \<and> toyish 0 None (l_world (l_run toy_handler toy_guessers toy_looks (l_start toy_world))) \<and>
    l_stage (l_run toy_handler toy_guessers toy_looks (l_start toy_world)) =
      (\<lambda>_. LArrived)(0 := LCounting alice_id, 1 := LCounting alice_id, 2 := LCounting alice_id, 3 := LCounting alice_id,
        4 := LCounting alice_id, 5 := LResetting u)"
proof -
  have look: "l_move toy_handler toy_guessers (LMove p) s =
      \<lparr>l_world = emit WArgon2 (emit (WSelect ''GetUserByUsername'') (l_world s)), l_stage = (l_stage s)(p := LCounting alice_id)\<rparr>"
    if "toyish 0 None (l_world s)" "l_stage s p = LArrived" "p \<noteq> 5" for s p
    using toyish_look(1) [OF that(1)] that(2,3) by (simp add: l_move_def login_step_def toy_guessers_def)
  have right: "\<exists>u. l_move toy_handler toy_guessers (LMove 5) s =
      \<lparr>l_world = emit WArgon2 (emit (WSelect ''GetUserByUsername'') (l_world s)), l_stage = (l_stage s)(5 := LResetting u)\<rparr> \<and>
      u_id u = alice_id" if "toyish 0 None (l_world s)" "l_stage s 5 = LArrived" for s
    using toyish_look(2) [OF that(1)] that(2) by (auto simp: l_move_def login_step_def toy_guessers_def)
  let ?s = "l_run toy_handler toy_guessers (map LMove [0, 1, 2, 3, 4]) (l_start toy_world)"
  have s: "toyish 0 None (l_world ?s)" "l_stage ?s = (\<lambda>_. LArrived)(0 := LCounting alice_id, 1 := LCounting alice_id,
      2 := LCounting alice_id, 3 := LCounting alice_id, 4 := LCounting alice_id)"
    by (simp_all add: look l_start_def toyish_start)
  have "l_run toy_handler toy_guessers toy_looks (l_start toy_world) = l_move toy_handler toy_guessers (LMove 5) ?s"
    by (simp add: toy_looks_def)
  with right [OF s(1)] s show ?thesis by auto
qed

lemma l_run_append: "l_run h rq (ms @ ns) s = l_run h rq ns (l_run h rq ms s)"
  by (induction ms arbitrary: s) simp_all

lemma toy_count_run:
  assumes "toyish (int n) (if n = 5 then Some (10 + lockout_window) else None) (l_world s)" and "distinct ps"
    and "\<forall>p \<in> set ps. l_stage s p = LCounting alice_id \<and> p \<noteq> 5" and "n + length ps = 5"
  shows "toyish 5 (Some (10 + lockout_window)) (l_world (l_run toy_handler toy_guessers (map LMove ps) s)) \<and>
    (\<forall>q. q \<notin> set ps \<longrightarrow> l_stage (l_run toy_handler toy_guessers (map LMove ps) s) q = l_stage s q)"
  using assms
proof (induction ps arbitrary: n s)
  case (Cons p ps)
  then have n: "n \<noteq> 5" "int n \<le> 4" by auto
  obtain w' where w': "l_move toy_handler toy_guessers (LMove p) s =
      \<lparr>l_world = w', l_stage = (l_stage s)(p := LDone (unauthorized ''r''))\<rparr>"
    "toyish (int n + 1) (if int n = 4 then Some (10 + lockout_window) else None) w'"
    using toyish_count [of "int n" "l_world s" s p] Cons.prems n by auto
  have "toyish (int (Suc n)) (if Suc n = 5 then Some (10 + lockout_window) else None) w'"
    using w'(2) by (simp add: add.commute)
  moreover have "\<forall>q \<in> set ps. ((l_stage s)(p := LDone (unauthorized ''r''))) q = LCounting alice_id \<and> q \<noteq> 5"
    using Cons.prems(2,3) by auto
  ultimately show ?case
    using Cons.IH [of "Suc n" "\<lparr>l_world = w', l_stage = (l_stage s)(p := LDone (unauthorized ''r''))\<rparr>"] Cons.prems(2,4) w'(1)
    by simp
qed simp

lemma toy_after_counts:
  "\<exists>u. u_id u = alice_id \<and>
    toyish 5 (Some (10 + lockout_window)) (l_world (l_run toy_handler toy_guessers (toy_looks @ toy_counts) (l_start toy_world))) \<and>
    l_stage (l_run toy_handler toy_guessers (toy_looks @ toy_counts) (l_start toy_world)) 5 = LResetting u"
proof -
  let ?s = "l_run toy_handler toy_guessers toy_looks (l_start toy_world)"
  obtain u where u: "u_id u = alice_id" "toyish 0 None (l_world ?s)" "l_stage ?s =
      (\<lambda>_. LArrived)(0 := LCounting alice_id, 1 := LCounting alice_id, 2 := LCounting alice_id, 3 := LCounting alice_id,
        4 := LCounting alice_id, 5 := LResetting u)"
    using toy_after_looks by blast
  have "toyish 5 (Some (10 + lockout_window)) (l_world (l_run toy_handler toy_guessers (map LMove [0, 1, 2, 3, 4]) ?s)) \<and>
    (\<forall>q. q \<notin> set [0, 1, 2, 3, 4] \<longrightarrow> l_stage (l_run toy_handler toy_guessers (map LMove [0, 1, 2, 3, 4]) ?s) q = l_stage ?s q)"
    by (rule toy_count_run [of 0]) (use u(2,3) in simp_all)
  with u show ?thesis unfolding toy_counts_def by (intro exI [of _ u]) (simp add: l_run_append)
qed

section \<open>The properties\<close>

text \<open>The steps are the handler cut at its round trips: run one after the other, they answer what the
  handler answers and leave the world as the handler leaves it.\<close>

lemma login_uninterrupted:
  assumes "l_stage s p = LArrived"
  shows "l_run h rq (replicate 3 (LMove p)) s =
    \<lparr>l_world = snd (login h (fst (rq p)) (snd (rq p)) (l_world s)),
     l_stage = (l_stage s)(p := LDone (fst (login h (fst (rq p)) (snd (rq p)) (l_world s))))\<rparr>"
proof -
  have run: "l_run h rq (replicate n (LMove p)) s = (case alone n h (rq p) (l_stage s p) (l_world s) of
      (st, w) \<Rightarrow> \<lparr>l_world = w, l_stage = (l_stage s)(p := st)\<rparr>)" for n s
    by (induction n arbitrary: s) (auto simp: l_move_def split: prod.splits)
  show ?thesis
    unfolding run assms using alone_login [of 0 h "rq p" "l_world s"] by (simp add: eval_nat_numeral)
qed

text \<open>C14: brute force by concurrent requests is bounded too, but by more than the threshold.  However any
  number of logins interleave between their round trips, on a database on which no round trip fails, and if
  nobody presents the right password of the active account meanwhile (which would clear the counter), in
  each started quarter of an hour at most four passwords more than the largest number of requests that
  were between their check and their count at one moment are compared with the account's hash.\<close>

theorem guess_race_bound:
  assumes "w_script w = []" and "target_in pl name ph i a (w_tabs w)" and "account_ok a"
    and "no_right_guess pl kdf ul name ph rq"
    and "\<forall>m \<in> set ms. case m of LMove p \<Rightarrow> p \<in> P | LTick t x \<Rightarrow> t \<le> e" and "finite P"
    and "w_db w \<le> e"
  shows "int (compared (new_handler pl kdf d ul) rq i ms (l_start w)) \<le>
    (int (peak (new_handler pl kdf d ul) rq i P ms (l_start w)) + 4) * ((e - w_db w) div (15 * minute) + 1)"
proof -
  let ?k = "peak (new_handler pl kdf d ul) rq i P ms (l_start w)"
  have "attack_ok pl name ph i a (l_start w)"
    using assms(1-3) by (simp add: attack_ok_def l_start_def)
  from race_compared [OF this assms(4,6,5), of d ?k] assms(7)
  have "int (compared (new_handler pl kdf d ul) rq i ms (l_start w)) \<le> race_budget (int ?k) e (w_db w) 0 a"
    by (simp add: l_start_def pending_def)
  also have "\<dots> \<le> (int ?k + 4) * (windows (e - w_db w) + 1)"
    by (rule race_budget_all [OF assms(3) _ assms(7)]) simp
  finally show ?thesis by (simp add: windows_def lockout_window_def)
qed

corollary guess_race_bound_witness:
  "int (compared toy_handler (\<lambda>_. (''r'', toy_wrong_body)) alice_id toy_counts (l_start toy_world)) \<le>
     int (peak toy_handler (\<lambda>_. (''r'', toy_wrong_body)) alice_id {0, 1, 2, 3, 4} toy_counts (l_start toy_world)) + 4"
proof -
  have t: "target_in (\<lambda>s. s) ''alice'' (toy_hash ''secret'') alice_id fresh_account (w_tabs toy_world)"
    by (simp add: target_in_def account_of_def fresh_account_def)
  have g: "no_right_guess (\<lambda>s. s) toy_kdf (\<lambda>s. s) ''alice'' (toy_hash ''secret'') (\<lambda>_. (''r'', toy_wrong_body))"
    by (simp add: no_right_guess_def toy_wrong_body_decodes)
  have m: "\<forall>m \<in> set toy_counts. case m of LMove p \<Rightarrow> p \<in> {0, 1, 2, 3, 4} | LTick t x \<Rightarrow> t \<le> 10"
    by (simp add: toy_counts_def)
  have "w_script toy_world = []" "finite {0::nat, 1, 2, 3, 4}" "w_db toy_world \<le> 10" by simp_all
  from guess_race_bound [OF this(1) t fresh_ok g m this(2,3), of "toy_hash ''dummy''", folded toy_handler_def]
  show ?thesis by simp
qed

text \<open>
  With one request at a time this is the threshold of five.  With many it is not: in the race above five
  wrong passwords and the right one are compared, though the account is locked after the fifth, and
  the sixth request, which read the row before the lock fell, clears the lock and gets its session.
\<close>

lemma race_past_the_lock:
  "\<exists>s s' ss. l_run toy_handler toy_guessers (toy_looks @ toy_counts) (l_start toy_world) = s \<and>
     account_in alice_id (w_tabs (l_world s)) = Some \<lparr>ac_failed = 5, ac_locked = Some (10 + lockout_window)\<rparr> \<and>
     l_run toy_handler toy_guessers [LMove 5, LMove 5] s = s' \<and>
     l_stage s' 5 = LDone (session_response ss)"
proof -
  let ?s = "l_run toy_handler toy_guessers (toy_looks @ toy_counts) (l_start toy_world)"
  obtain u where u: "u_id u = alice_id" "toyish 5 (Some (10 + lockout_window)) (l_world ?s)" "l_stage ?s 5 = LResetting u"
    using toy_after_counts by blast
  obtain w1 w2 ss where f: "l_reset toy_handler ''r'' u (l_world ?s) = (LIssuing u, w1)"
    "l_issue toy_handler ''r'' u w1 = (LDone (session_response ss), w2)"
    using toyish_finish [OF u(2,1)] by blast
  have "account_in alice_id (w_tabs (l_world ?s)) = Some \<lparr>ac_failed = 5, ac_locked = Some (10 + lockout_window)\<rparr>"
    using u(2) by (auto simp: toyish_def account_in_def account_of_def)
  moreover have "l_stage (l_run toy_handler toy_guessers [LMove 5, LMove 5] ?s) 5 = LDone (session_response ss)"
    using u(3) f by (simp add: l_move_def login_step_def toy_guessers_def)
  ultimately show ?thesis by blast
qed

end
