(* ===== verification/EventRows.thy ===== *)
theory EventRows
  imports GoJson Database "HOL-Library.List_Lexorder" "HOL-Library.Char_ord"
begin

text \<open>
  \<^verbatim>\<open>buildRows\<close> of \<^verbatim>\<open>internal/modules/observability/events.go\<close>: the second decoding of the raw
  body, into typed events, as \<^verbatim>\<open>encoding/json\<close> does it.  Unlike the map the schema saw, a
  struct is filled member by member: unknown members are skipped, \<^verbatim>\<open>null\<close> leaves a string as it
  is, and a second object for the same map field is merged into the first.
\<close>

section \<open>Raw values\<close>

text \<open>A value at the front of the input with its source text, and what follows it.\<close>

definition raw_value :: "string \<Rightarrow> ((json \<times> string) \<times> string) option" where
  "raw_value s =
     (let t = skip_ws s in
      case json_parse t of
        None \<Rightarrow> None
      | Some (v, r) \<Rightarrow> Some ((v, take (length t - length r) t), r))"

text \<open>Behind an opening bracket; every round consumes a byte.\<close>

fun raw_elems :: "nat \<Rightarrow> string \<Rightarrow> (json \<times> string) list option" where
  "raw_elems 0 s = None"
| "raw_elems (Suc n) s =
     (case raw_value s of
        None \<Rightarrow> None
      | Some (v, r) \<Rightarrow>
          (case skip_ws r of
             [] \<Rightarrow> None
           | c # r' \<Rightarrow>
               if c = CHR '']'' then Some [v]
               else if c = CHR '','' then map_option (Cons v) (raw_elems n r')
               else None))"

fun raw_members :: "nat \<Rightarrow> string \<Rightarrow> (string \<times> json \<times> string) list option" where
  "raw_members 0 s = None"
| "raw_members (Suc n) s =
     (case skip_ws s of
        [] \<Rightarrow> None
      | q # r \<Rightarrow>
          if q \<noteq> CHR 0x22 then None
          else (case parse_str r of
              None \<Rightarrow> None
            | Some (k, r1) \<Rightarrow>
                (case skip_ws r1 of
                   [] \<Rightarrow> None
                 | c # r2 \<Rightarrow>
                     if c \<noteq> CHR '':'' then None
                     else (case raw_value r2 of
                         None \<Rightarrow> None
                       | Some (v, r3) \<Rightarrow>
                           (case skip_ws r3 of
                              [] \<Rightarrow> None
                            | e # r4 \<Rightarrow>
                                if e = CHR ''}'' then Some [(k, v)]
                                else if e = CHR '','' then map_option (Cons (k, v)) (raw_members n r4)
                                else None)))))"

definition raw_body :: "char \<Rightarrow> char \<Rightarrow> (nat \<Rightarrow> string \<Rightarrow> 'a list option) \<Rightarrow> string \<Rightarrow> 'a list option" where
  "raw_body left right f s =
     (case skip_ws s of
        [] \<Rightarrow> None
      | c # r \<Rightarrow>
          if c \<noteq> left then None
          else (case skip_ws r of
              [] \<Rightarrow> None
            | d # _ \<Rightarrow> if d = right then Some [] else f (length r) r))"

definition raw_array :: "string \<Rightarrow> (json \<times> string) list option" where
  "raw_array = raw_body (CHR ''['') (CHR '']'') raw_elems"

definition raw_object :: "string \<Rightarrow> (string \<times> json \<times> string) list option" where
  "raw_object = raw_body (CHR ''{'') (CHR ''}'') raw_members"

text \<open>\<^verbatim>\<open>json.Marshal\<close> of a \<^verbatim>\<open>json.RawMessage\<close>: white space outside strings dropped, the characters
  that HTML reserves and the two line separators escaped.\<close>

fun compact :: "bool \<Rightarrow> string \<Rightarrow> string" where
  "compact instr [] = []"
| "compact False (c # r) =
     (if json_ws c then compact False r else c # compact (c = CHR 0x22) r)"
| "compact True (c # r) =
     (if c = CHR 0x5C then (case r of [] \<Rightarrow> [c] | e # r' \<Rightarrow> c # e # compact True r')
      else if c = CHR 0x22 then c # compact False r
      else if c = CHR ''<'' \<or> c = CHR ''>'' \<or> c = CHR ''&'' then esc_ascii c @ compact True r
      else if c = CHR 0xE2 \<and> take 2 r = [CHR 0x80, CHR 0xA8]
        then [CHR 0x5C, CHR ''u'', CHR ''2'', CHR ''0'', CHR ''2'', CHR ''8''] @ compact True (drop 2 r)
      else if c = CHR 0xE2 \<and> take 2 r = [CHR 0x80, CHR 0xA9]
        then [CHR 0x5C, CHR ''u'', CHR ''2'', CHR ''0'', CHR ''2'', CHR ''9''] @ compact True (drop 2 r)
      else c # compact True r)"

section \<open>Typed events\<close>

record inbound_event =
  ib_event_id :: string
  ib_kind :: string
  ib_trace_id :: string
  ib_timestamp_ms :: int
  ib_source :: string
  ib_name :: string
  ib_attributes :: "(string \<times> string) list option"

definition zero_event :: inbound_event where
  "zero_event =
     \<lparr>ib_event_id = [], ib_kind = [], ib_trace_id = [], ib_timestamp_ms = 0, ib_source = [],
      ib_name = [], ib_attributes = None\<rparr>"

definition inbound_names :: "string list" where
  "inbound_names =
     [''eventId'', ''kind'', ''traceId'', ''timestampMs'', ''source'', ''name'', ''attributes'']"

text \<open>\<^verbatim>\<open>strconv.ParseInt\<close> on a number literal: digits only, in the range of \<^verbatim>\<open>int64\<close>.\<close>

definition parse_int64 :: "string \<Rightarrow> int option" where
  "parse_int64 t =
     (let neg = (t \<noteq> [] \<and> hd t = CHR ''-''); d = (if neg then tl t else t);
          v = (if neg then - int (parse_nat d) else int (parse_nat d))
      in if d \<noteq> [] \<and> list_all is_digit d \<and> - (2 ^ 63) \<le> v \<and> v < 2 ^ 63 then Some v else None)"

definition set_text :: "string \<Rightarrow> string \<Rightarrow> inbound_event \<Rightarrow> inbound_event" where
  "set_text n s ev =
     (if n = ''eventId'' then ev\<lparr>ib_event_id := s\<rparr>
      else if n = ''kind'' then ev\<lparr>ib_kind := s\<rparr>
      else if n = ''traceId'' then ev\<lparr>ib_trace_id := s\<rparr>
      else if n = ''source'' then ev\<lparr>ib_source := s\<rparr>
      else ev\<lparr>ib_name := s\<rparr>)"

definition merge_attributes ::
  "(string \<times> json \<times> string) list \<Rightarrow> (string \<times> string) list option \<Rightarrow> (string \<times> string) list" where
  "merge_attributes ms old =
     foldl (\<lambda>m (k, _, t). put k t m) (case old of None \<Rightarrow> [] | Some m \<Rightarrow> m) ms"

text \<open>One member into its field; \<^const>\<open>None\<close> is a type error, which fails the whole \<^verbatim>\<open>Decode\<close>.\<close>

definition decode_member ::
  "string \<Rightarrow> json \<Rightarrow> string \<Rightarrow> inbound_event \<Rightarrow> inbound_event option" where
  "decode_member n v t ev =
     (if n = ''attributes'' then
        (case v of
           JObj _ \<Rightarrow>
             map_option (\<lambda>ms. ev\<lparr>ib_attributes := Some (merge_attributes ms (ib_attributes ev))\<rparr>)
               (raw_object t)
         | JNull \<Rightarrow> Some (ev\<lparr>ib_attributes := None\<rparr>)
         | _ \<Rightarrow> None)
      else if n = ''timestampMs'' then
        (case v of
           JNum x \<Rightarrow> map_option (\<lambda>i. ev\<lparr>ib_timestamp_ms := i\<rparr>) (parse_int64 x)
         | JNull \<Rightarrow> Some ev
         | _ \<Rightarrow> None)
      else (case v of
          JStr s \<Rightarrow> Some (set_text n s ev)
        | JNull \<Rightarrow> Some ev
        | _ \<Rightarrow> None))"

fun decode_members :: "(string \<times> json \<times> string) list \<Rightarrow> inbound_event \<Rightarrow> inbound_event option" where
  "decode_members [] ev = Some ev"
| "decode_members ((k, v, t) # ms) ev =
     (case find_field inbound_names k of
        None \<Rightarrow> decode_members ms ev
      | Some n \<Rightarrow>
          (case decode_member n v t ev of None \<Rightarrow> None | Some ev' \<Rightarrow> decode_members ms ev'))"

definition decode_event :: "json \<times> string \<Rightarrow> inbound_event option" where
  "decode_event vt =
     (case fst vt of
        JObj _ \<Rightarrow>
          (case raw_object (snd vt) of None \<Rightarrow> None | Some ms \<Rightarrow> decode_members ms zero_event)
      | JNull \<Rightarrow> Some zero_event
      | _ \<Rightarrow> None)"

fun decode_events :: "(json \<times> string) list \<Rightarrow> inbound_event list option" where
  "decode_events [] = Some []"
| "decode_events (v # vs) =
     (case decode_event v of
        None \<Rightarrow> None | Some e \<Rightarrow> map_option (Cons e) (decode_events vs))"

section \<open>Rows\<close>

text \<open>A map is marshalled with its keys sorted.\<close>

definition marshal_attributes :: "(string \<times> string) list \<Rightarrow> bytes" where
  "marshal_attributes m =
     ''{'' @ str_join '','' (map (\<lambda>(k, t). json_quote k @ CHR '':'' # compact False t) (sort_key fst m)) @ ''}''"

definition unix_milli_time :: "int \<Rightarrow> time" where
  "unix_milli_time ms = ms * millisecond"

definition row_of_event :: "inbound_event \<Rightarrow> insert_event_params" where
  "row_of_event ev =
     \<lparr>ie_source = ib_source ev, ie_event_id = ib_event_id ev, ie_kind = ib_kind ev,
      ie_trace_id = ib_trace_id ev, ie_name = ib_name ev,
      ie_event_ts = unix_milli_time (ib_timestamp_ms ev),
      ie_attributes = (case ib_attributes ev of None \<Rightarrow> ''{}'' | Some m \<Rightarrow> marshal_attributes m)\<rparr>"

definition build_rows :: "string \<Rightarrow> insert_event_params list option" where
  "build_rows raw =
     (case raw_array raw of
        None \<Rightarrow> None
      | Some vs \<Rightarrow> map_option (map row_of_event) (decode_events vs))"

lemma decode_events_length: "decode_events vs = Some es \<Longrightarrow> length es = length vs"
  by (induction vs arbitrary: es) (auto split: option.splits)

end
