(* ===== verification/EventStore.thy ===== *)
theory EventStore
  imports EventRows Store
begin

text \<open>
  \<^verbatim>\<open>internal/modules/observability/store.go\<close>: the interface \<^verbatim>\<open>store\<close> of the ingest handler, its
  production implementation (one transaction for the whole batch), the specification \<open>land_events\<close>
  of what landing a batch means, and the contract \<open>batch_store\<close> the handler relies on.
\<close>

section \<open>The interface and its implementation\<close>

record event_store =
  es_insert_batch :: "insert_event_params list \<Rightarrow> world \<Rightarrow> (gerr + int) \<times> world"

text \<open>The loop of \<^verbatim>\<open>insertBatch\<close>: one \<^verbatim>\<open>InsertEvent\<close> per row, the inserted rows counted.\<close>

fun insert_rows ::
  "(insert_event_params \<Rightarrow> gerr option) \<Rightarrow> insert_event_params list \<Rightarrow> int \<Rightarrow> tx \<Rightarrow> world \<Rightarrow>
     (gerr + int) \<times> tx \<times> world" where
  "insert_rows refuses [] n x w = (Inr n, x, w)"
| "insert_rows refuses (a # as) n x w =
     (case tx_exec (WInsert ''InsertEvent'') (insert_event refuses a) x w of
        (Inl e, x1, w1) \<Rightarrow> (Inl e, x1, w1)
      | (Inr k, x1, w1) \<Rightarrow> insert_rows refuses as (n + k) x1 w1)"

definition db_insert_batch ::
  "(insert_event_params \<Rightarrow> gerr option) \<Rightarrow> insert_event_params list \<Rightarrow> world \<Rightarrow> (gerr + int) \<times> world" where
  "db_insert_batch refuses rows w =
     (case tx_begin w of
        (Inl e, w1) \<Rightarrow> (Inl e, w1)
      | (Inr x1, w1) \<Rightarrow>
          (case insert_rows refuses rows 0 x1 w1 of
             (Inl e, x2, w2) \<Rightarrow> (Inl e, tx_rollback x2 w2)
           | (Inr n, x2, w2) \<Rightarrow>
               (case tx_commit x2 w2 of
                  (Inl e, w3) \<Rightarrow> (Inl e, w3)
                | (Inr _, w3) \<Rightarrow> (Inr n, w3))))"

definition db_event_store :: "(insert_event_params \<Rightarrow> gerr option) \<Rightarrow> event_store" where
  "db_event_store refuses = \<lparr>es_insert_batch = db_insert_batch refuses\<rparr>"

section \<open>What landing a batch means\<close>

definition row_key :: "insert_event_params \<Rightarrow> string \<times> string" where
  "row_key a = (ie_source a, ie_event_id a)"

definition event_key :: "event_row \<Rightarrow> string \<times> string" where
  "event_key e = (ev_source e, ev_event_id e)"

text \<open>Every row whose key is not there yet is appended, in order.\<close>

fun land_events :: "time \<Rightarrow> insert_event_params list \<Rightarrow> event_row list \<Rightarrow> event_row list" where
  "land_events now [] es = es"
| "land_events now (a # as) es =
     land_events now as (if row_key a \<in> event_key ` set es then es else es @ [event_row_of a now])"

definition landed :: "time \<Rightarrow> insert_event_params list \<Rightarrow> tables \<Rightarrow> tables" where
  "landed now rows t = t\<lparr>events := land_events now rows (events t)\<rparr>"

lemma event_key_row_of [simp]: "event_key (event_row_of a now) = row_key a"
  by (simp add: event_key_def row_key_def event_row_of_def)

lemma land_events_keys:
  "event_key ` set (land_events now rows es) = event_key ` set es \<union> row_key ` set rows"
  by (induction rows arbitrary: es) auto

lemma land_events_prefix: "\<exists>new. land_events now rows es = es @ new \<and> length new \<le> length rows"
proof (induction rows arbitrary: es)
  case (Cons a as)
  show ?case
  proof (cases "row_key a \<in> event_key ` set es")
    case True
    with Cons [of es] show ?thesis by (auto intro: le_SucI)
  next
    case False
    from Cons [of "es @ [event_row_of a now]"] obtain new where
      "land_events now as (es @ [event_row_of a now]) = (es @ [event_row_of a now]) @ new"
      "length new \<le> length as" by blast
    with False show ?thesis by (intro exI [of _ "event_row_of a now # new"]) simp
  qed
qed simp

lemma land_events_known:
  "row_key ` set rows \<subseteq> event_key ` set es \<Longrightarrow> land_events now rows es = es"
  by (induction rows arbitrary: es) auto

lemma land_events_again:
  "land_events now' rows (land_events now rows es) = land_events now rows es"
  by (rule land_events_known) (simp add: land_events_keys)

lemma land_events_distinct:
  "distinct (map event_key es) \<Longrightarrow> distinct (map event_key (land_events now rows es))"
  by (induction rows arbitrary: es) auto

lemma landed_again: "landed now' rows (landed now rows t) = landed now rows t"
  by (simp add: landed_def land_events_again)

lemma events_landed [simp]: "events (landed now rows t) = land_events now rows (events t)"
  by (simp add: landed_def)

section \<open>The contract\<close>

text \<open>All or nothing, for every behaviour of the world: an answered batch has landed, and the answer
  is the number of rows that are new; a failed one has not, or, when the answer to the commit was
  lost, has.  Nothing but database work enters the trace.\<close>

definition is_db_work :: "work \<Rightarrow> bool" where
  "is_db_work k \<longleftrightarrow> (case k of WInsert _ \<Rightarrow> True | WBegin \<Rightarrow> True | WCommit \<Rightarrow> True | WRollback \<Rightarrow> True | _ \<Rightarrow> False)"

locale batch_store =
  fixes st :: event_store
  assumes batch_answered: "es_insert_batch st rows w = (Inr n, w') \<Longrightarrow>
      \<exists>now. w_tabs w' = landed now rows (w_tabs w) \<and>
        n = int (length (events (w_tabs w'))) - int (length (events (w_tabs w)))"
    and batch_failed: "es_insert_batch st rows w = (Inl e, w') \<Longrightarrow>
      w_tabs w' = w_tabs w \<or> (\<exists>now. w_tabs w' = landed now rows (w_tabs w))"
    and batch_work: "es_insert_batch st rows w = (r, w') \<Longrightarrow>
      \<exists>ks. did ks w w' \<and> list_all is_db_work ks"
begin

lemma batch_outcome:
  assumes "es_insert_batch st rows w = (r, w')"
  shows "(w_tabs w' = w_tabs w \<and> (\<exists>e. r = Inl e)) \<or> (\<exists>now. w_tabs w' = landed now rows (w_tabs w))"
  using assms batch_answered batch_failed by (cases r) blast+

text \<open>Accepted and duplicate rows add up.\<close>

lemma batch_count:
  assumes "es_insert_batch st rows w = (Inr n, w')"
  shows "0 \<le> n \<and> n \<le> int (length rows)"
proof -
  from batch_answered [OF assms] obtain now where
    "w_tabs w' = landed now rows (w_tabs w)"
    and n: "n = int (length (events (w_tabs w'))) - int (length (events (w_tabs w)))" by blast
  with land_events_prefix [of now rows "events (w_tabs w)"] show ?thesis by auto
qed

text \<open>A batch that landed once adds nothing when it is sent again.\<close>

lemma batch_resent:
  assumes "es_insert_batch st rows w = (r, w')" and "w_tabs w = landed now rows t"
  shows "w_tabs w' = w_tabs w" and "r = Inr n \<Longrightarrow> n = 0"
proof -
  show same: "w_tabs w' = w_tabs w"
    using batch_outcome [OF assms(1)] assms(2) by (auto simp: landed_again)
  show "n = 0" if "r = Inr n"
    using batch_answered [OF assms(1) [unfolded that]] same by simp
qed

lemma batch_unique:
  assumes "es_insert_batch st rows w = (r, w')" and "distinct (map event_key (events (w_tabs w)))"
  shows "distinct (map event_key (events (w_tabs w')))"
  using batch_outcome [OF assms(1)] assms(2) by (auto simp: land_events_distinct)

end

section \<open>The implementation meets the contract\<close>

lemma row_key_known:
  "row_key a \<in> event_key ` set es \<longleftrightarrow>
     (\<exists>e \<in> set es. ev_source e = ie_source a \<and> ev_event_id e = ie_event_id a)"
  by (auto simp: row_key_def event_key_def image_iff eq_commute)

lemma insert_event_ok:
  assumes "refuses a = None"
  shows "\<exists>i. insert_event refuses a now t = (Inr i, landed now [a] t)"
  using assms by (simp add: insert_event_def landed_def row_key_known)

lemma insert_event_Inr:
  assumes "insert_event refuses a now t = (Inr k, t')"
  shows "t' = landed now [a] t" and "k = int (length (events t')) - int (length (events t))"
    and "refuses a = None"
  using assms
  by (auto simp: insert_event_def landed_def row_key_def event_key_def image_iff
      split: option.splits if_splits)

lemma landed_Cons: "landed now (a # as) t = landed now as (landed now [a] t)"
  by (simp add: landed_def)

lemma insert_rows_Inr:
  assumes "insert_rows refuses rows n x w = (Inr m, x', w')" and "\<not> tx_failed x"
  shows "tx_tabs x' = landed (tx_now x) rows (tx_tabs x) \<and> \<not> tx_failed x' \<and> tx_now x' = tx_now x \<and>
    m = n + int (length (events (tx_tabs x'))) - int (length (events (tx_tabs x)))"
  using assms
proof (induction rows arbitrary: n x w)
  case Nil
  then show ?case by (simp add: landed_def)
next
  case (Cons a as)
  obtain k x1 w1 where e: "tx_exec (WInsert ''InsertEvent'') (insert_event refuses a) x w = (Inr k, x1, w1)"
    and rest: "insert_rows refuses as (n + k) x1 w1 = (Inr m, x', w')"
    using Cons.prems(1) by (auto split: prod.splits sum.splits)
  from tx_exec_Inr [OF e] insert_event_Inr [of refuses a "tx_now x" "tx_tabs x" k "tx_tabs x1"]
    tx_exec_frame [OF e] Cons.IH [OF rest]
  show ?case by (auto simp: landed_Cons [of _ a as])
qed

lemma insert_rows_frame:
  assumes "insert_rows refuses rows n x w = (r, x', w')"
  shows "w_tabs w' = w_tabs w \<and> (\<exists>ks. did ks w w' \<and> list_all is_db_work ks)"
  using assms
proof (induction rows arbitrary: n x w)
  case Nil
  then show ?case by (auto intro: exI [of _ "[]"])
next
  case (Cons a as)
  obtain k x1 w1 where e: "tx_exec (WInsert ''InsertEvent'') (insert_event refuses a) x w = (k, x1, w1)"
    by (metis prod_cases3)
  note f = tx_exec_frame [OF e]
  have d: "did [WInsert ''InsertEvent''] w w1" using f by (simp add: did_def)
  have k: "list_all is_db_work [WInsert ''InsertEvent'']" by (simp add: is_db_work_def)
  show ?case
  proof (cases k)
    case (Inl err)
    with Cons.prems e have "w' = w1" by simp
    with f d k show ?thesis by blast
  next
    case (Inr i)
    with Cons.prems e have "insert_rows refuses as (n + i) x1 w1 = (r, x', w')" by simp
    from Cons.IH [OF this] obtain ks where "w_tabs w' = w_tabs w1" "did ks w1 w'" "list_all is_db_work ks"
      by blast
    with f d k did_trans [OF d] show ?thesis
      by (intro conjI exI [of _ "[WInsert ''InsertEvent''] @ ks"]) auto
  qed
qed

lemma db_insert_batch_cases:
  assumes "db_insert_batch refuses rows w = (r, w')"
  obtains (failed) e where "r = Inl e" and "w_tabs w' = w_tabs w"
  | (committed) now n x v rc where "tx_tabs x = landed now rows (w_tabs w)" and "\<not> tx_failed x"
      and "w_tabs v = w_tabs w" and "tx_commit x v = (rc, w')"
      and "n = int (length (events (tx_tabs x))) - int (length (events (w_tabs w)))"
      and "r = (case rc of Inl e \<Rightarrow> Inl e | Inr _ \<Rightarrow> Inr n)"
proof -
  obtain rb w1 where b: "tx_begin w = (rb, w1)" by (cases "tx_begin w")
  note fb = tx_begin_frame [OF b]
  show thesis
  proof (cases rb)
    case (Inl e)
    with b assms fb show thesis by (intro failed) (auto simp: db_insert_batch_def)
  next
    case (Inr x1)
    note x1 = tx_begin_Inr [OF b [unfolded Inr]]
    obtain ri x2 w2 where i: "insert_rows refuses rows 0 x1 w1 = (ri, x2, w2)" by (metis prod_cases3)
    note fi = insert_rows_frame [OF i]
    show thesis
    proof (cases ri)
      case (Inl e)
      with b i \<open>rb = Inr x1\<close> assms fb fi show thesis
        by (intro failed) (auto simp: db_insert_batch_def)
    next
      case ok: (Inr n)
      obtain rc w3 where c: "tx_commit x2 w2 = (rc, w3)" by (cases "tx_commit x2 w2")
      from insert_rows_Inr [OF i [unfolded ok]] x1
      have t: "tx_tabs x2 = landed (tx_now x1) rows (w_tabs w)" "\<not> tx_failed x2"
        "n = int (length (events (tx_tabs x2))) - int (length (events (w_tabs w)))" by auto
      have "w_tabs w2 = w_tabs w" using fi fb by simp
      moreover have "r = (case rc of Inl e \<Rightarrow> Inl e | Inr _ \<Rightarrow> Inr n)" and "w3 = w'"
        using assms b i c ok \<open>rb = Inr x1\<close> by (auto simp: db_insert_batch_def split: sum.splits)
      ultimately show thesis using committed [OF t(1,2) _ c [unfolded \<open>w3 = w'\<close>] t(3)] by blast
    qed
  qed
qed

lemma db_insert_batch_work:
  assumes "db_insert_batch refuses rows w = (r, w')"
  shows "\<exists>ks. did ks w w' \<and> list_all is_db_work ks"
proof -
  obtain rb w1 where b: "tx_begin w = (rb, w1)" by (cases "tx_begin w")
  have d1: "did [WBegin] w w1" using tx_begin_frame [OF b] by (simp add: did_def)
  have ok: "list_all is_db_work [WBegin]" "list_all is_db_work [WCommit]" "list_all is_db_work [WRollback]"
    by (simp_all add: is_db_work_def)
  show ?thesis
  proof (cases rb)
    case (Inl e)
    with b assms d1 ok show ?thesis by (auto simp: db_insert_batch_def)
  next
    case (Inr x1)
    obtain ri x2 w2 where i: "insert_rows refuses rows 0 x1 w1 = (ri, x2, w2)" by (metis prod_cases3)
    from insert_rows_frame [OF i] obtain ks where k: "did ks w1 w2" "list_all is_db_work ks" by blast
    have d2: "did ([WBegin] @ ks) w w2" by (rule did_trans [OF d1 k(1)])
    show ?thesis
    proof (cases ri)
      case (Inl e)
      with assms b i Inr have "w' = tx_rollback x2 w2" by (simp add: db_insert_batch_def)
      then have "did [WRollback] w2 w'" by (simp add: did_def)
      from did_trans [OF d2 this] k ok show ?thesis by (metis list_all_append)
    next
      case (Inr n)
      obtain rc w3 where c: "tx_commit x2 w2 = (rc, w3)" by (cases "tx_commit x2 w2")
      with assms b i Inr \<open>rb = Inr x1\<close> have "w' = w3"
        by (auto simp: db_insert_batch_def split: sum.splits)
      with c have "did [WCommit] w2 w'"
        by (cases rc) (auto simp: did_def dest: tx_commit_Inl tx_commit_Inr)
      from did_trans [OF d2 this] k ok show ?thesis by (metis list_all_append)
    qed
  qed
qed

interpretation dbes: batch_store "db_event_store refuses" for refuses
proof (unfold_locales, simp_all only: db_event_store_def event_store.simps)
  fix rows w n w' assume "db_insert_batch refuses rows w = (Inr n, w')"
  then show "\<exists>now. w_tabs w' = landed now rows (w_tabs w) \<and>
      n = int (length (events (w_tabs w'))) - int (length (events (w_tabs w)))"
  proof (cases rule: db_insert_batch_cases)
    case (committed now m x v rc)
    then obtain u where "rc = Inr u" "n = m" by (cases rc) auto
    with committed tx_commit_Inr [of x v u w'] show ?thesis by auto
  qed simp
next
  fix rows w e w' assume "db_insert_batch refuses rows w = (Inl e, w')"
  then show "w_tabs w' = w_tabs w \<or> (\<exists>now. w_tabs w' = landed now rows (w_tabs w))"
  proof (cases rule: db_insert_batch_cases)
    case (committed now m x v rc)
    then obtain e' where "rc = Inl e'" by (cases rc) auto
    with committed tx_commit_Inl [of x v e' w'] show ?thesis by auto
  qed simp
next
  fix rows w r w' assume "db_insert_batch refuses rows w = (r, w')"
  then show "\<exists>ks. did ks w w' \<and> list_all is_db_work ks" by (rule db_insert_batch_work)
qed

section \<open>A quiet database\<close>

text \<open>Without faults a batch of acceptable rows lands, at the time of the database.\<close>

lemma insert_rows_quiet:
  assumes "w_script w = []" and "\<not> tx_failed x" and "\<forall>a \<in> set rows. refuses a = None"
  shows "\<exists>n w'. insert_rows refuses rows k x w =
      (Inr n, x\<lparr>tx_tabs := landed (tx_now x) rows (tx_tabs x)\<rparr>, w') \<and> w_script w' = []"
  using assms
proof (induction rows arbitrary: k x w)
  case Nil
  then show ?case by (simp add: landed_def)
next
  case (Cons a as)
  obtain i where i: "insert_event refuses a (tx_now x) (tx_tabs x) =
      (Inr i, landed (tx_now x) [a] (tx_tabs x))"
    using insert_event_ok [of refuses a "tx_now x" "tx_tabs x"] Cons.prems(3) by auto
  have "tx_exec (WInsert ''InsertEvent'') (insert_event refuses a) x w =
      (Inr i, x\<lparr>tx_tabs := landed (tx_now x) [a] (tx_tabs x)\<rparr>, emit (WInsert ''InsertEvent'') w)"
    using tx_exec_quiet [where st = "insert_event refuses a", OF Cons.prems(1,2) i] .
  with Cons.IH [of "emit (WInsert ''InsertEvent'') w"
      "x\<lparr>tx_tabs := landed (tx_now x) [a] (tx_tabs x)\<rparr>" "k + i"] Cons.prems
  show ?case by (simp add: landed_Cons [of _ a as])
qed

lemma db_insert_batch_quiet:
  assumes "w_script w = []" and "\<forall>a \<in> set rows. refuses a = None"
  shows "\<exists>n w'. db_insert_batch refuses rows w = (Inr n, w') \<and>
    w_tabs w' = landed (w_db w) rows (w_tabs w) \<and> w_script w' = []"
proof -
  let ?x = "\<lparr>tx_now = w_db w, tx_tabs = w_tabs w, tx_failed = False\<rparr>"
  have b: "tx_begin w = (Inr ?x, emit WBegin w)"
    using assms(1) by (simp add: tx_begin_def next_fault_quiet)
  from insert_rows_quiet [of "emit WBegin w" ?x rows refuses 0] assms
  obtain n v where i: "insert_rows refuses rows 0 ?x (emit WBegin w) =
      (Inr n, ?x\<lparr>tx_tabs := landed (w_db w) rows (w_tabs w)\<rparr>, v)" "w_script v = []" by auto
  then show ?thesis using b
    by (simp add: db_insert_batch_def tx_commit_def next_fault_quiet)
qed

end
