(* ===== verification/Queries.thy ===== *)
theory Queries
  imports EventStore Fixture
begin

text \<open>
  \<^verbatim>\<open>internal/platform/db/gen\<close>, the layer between the modules and the driver: the interface
  \<^verbatim>\<open>DBTX\<close> with its two providers (the pool and a transaction), the methods of \<^verbatim>\<open>Querier\<close> as a
  record, and the one implementation \<open>new_queries\<close> that \<^verbatim>\<open>New\<close> and \<^verbatim>\<open>WithTx\<close> give for either
  provider.  The modules' operations of theories Store, EventStore, Refresh, Bearer and Server are
  these methods, and a method answers in a transaction as it does through the pool.
\<close>

section \<open>The self-test table\<close>

text \<open>Only the migration writes \<^verbatim>\<open>_infra_selftest\<close>, so it is an argument beside the tables.\<close>

record infra_selftest =
  is_id :: int
  is_label :: string

definition selftest_rows :: "infra_selftest list" where
  "selftest_rows = [\<lparr>is_id = 1, is_label = ''ok''\<rparr>]"

definition get_infra_selftest :: "infra_selftest list \<Rightarrow> int \<Rightarrow> infra_selftest stmt" where
  "get_infra_selftest rows i now t = one_row (find (\<lambda>r. is_id r = i) rows) t"

section \<open>What a driver answers\<close>

text \<open>The row of a \<^verbatim>\<open>QueryRow\<close> before \<^verbatim>\<open>Scan\<close>, by the columns it has, and the command tag of an
  \<^verbatim>\<open>Exec\<close>.\<close>

datatype answer =
    UserRow user_row
  | UserNowRow user_now_row
  | RefreshRow refresh_row
  | RefreshNowRow refresh_now_row
  | AccessRow access_row
  | FailureRow login_failure_row
  | SelftestRow infra_selftest
  | Tag int

text \<open>A provider of \<^verbatim>\<open>DBTX\<close> over a state: what it does with a statement, and the value
  \<^verbatim>\<open>gen_random_uuid()\<close> has in the next one.\<close>

record 's dbtx =
  db_send :: "work \<Rightarrow> answer stmt \<Rightarrow> 's \<Rightarrow> (gerr + answer) \<times> 's"
  db_fresh :: "'s \<Rightarrow> uuid \<times> 's"

definition pool_db :: "world dbtx" where
  "pool_db = \<lparr>db_send = exec_stmt, db_fresh = next_id\<rparr>"

definition tx_db :: "(tx \<times> world) dbtx" where
  "tx_db =
     \<lparr>db_send = (\<lambda>k st (x, w). tx_exec k st x w),
      db_fresh = (\<lambda>(x, w). let (i, w') = next_id w in (i, (x, w')))\<rparr>"

text \<open>\<^verbatim>\<open>Scan\<close> into the fields of a row: an answer with other columns would be an error of the
  driver.  Every method asks for the columns its statement returns, so it is never met.\<close>

definition scan :: "(answer \<Rightarrow> 'a option) \<Rightarrow> gerr + answer \<Rightarrow> gerr + 'a" where
  "scan f r =
     (case r of
        Inl e \<Rightarrow> Inl e
      | Inr a \<Rightarrow> (case f a of None \<Rightarrow> Inl (PgError ''42804'') | Some b \<Rightarrow> Inr b))"

definition wrap :: "('a \<Rightarrow> answer) \<Rightarrow> 'a stmt \<Rightarrow> answer stmt" where
  "wrap f st now t = (let (r, t') = st now t in (map_sum id f r, t'))"

text \<open>One query method: send the statement, scan its answer.\<close>

definition run_query ::
  "'s dbtx \<Rightarrow> work \<Rightarrow> ('a \<Rightarrow> answer) \<Rightarrow> (answer \<Rightarrow> 'a option) \<Rightarrow> 'a stmt \<Rightarrow> 's \<Rightarrow> (gerr + 'a) \<times> 's" where
  "run_query db k c f st s = (let (r, s') = db_send db k (wrap c st) s in (scan f r, s'))"

definition un_user :: "answer \<Rightarrow> user_row option" where
  "un_user a = (case a of UserRow r \<Rightarrow> Some r | _ \<Rightarrow> None)"

definition un_user_now :: "answer \<Rightarrow> user_now_row option" where
  "un_user_now a = (case a of UserNowRow r \<Rightarrow> Some r | _ \<Rightarrow> None)"

definition un_refresh :: "answer \<Rightarrow> refresh_row option" where
  "un_refresh a = (case a of RefreshRow r \<Rightarrow> Some r | _ \<Rightarrow> None)"

definition un_refresh_now :: "answer \<Rightarrow> refresh_now_row option" where
  "un_refresh_now a = (case a of RefreshNowRow r \<Rightarrow> Some r | _ \<Rightarrow> None)"

definition un_access :: "answer \<Rightarrow> access_row option" where
  "un_access a = (case a of AccessRow r \<Rightarrow> Some r | _ \<Rightarrow> None)"

definition un_failure :: "answer \<Rightarrow> login_failure_row option" where
  "un_failure a = (case a of FailureRow r \<Rightarrow> Some r | _ \<Rightarrow> None)"

definition un_selftest :: "answer \<Rightarrow> infra_selftest option" where
  "un_selftest a = (case a of SelftestRow r \<Rightarrow> Some r | _ \<Rightarrow> None)"

definition rows_affected :: "answer \<Rightarrow> int option" where
  "rows_affected a = (case a of Tag n \<Rightarrow> Some n | _ \<Rightarrow> None)"

text \<open>\<^verbatim>\<open>:exec\<close> methods drop the tag.\<close>

definition run_exec :: "'s dbtx \<Rightarrow> work \<Rightarrow> unit stmt \<Rightarrow> 's \<Rightarrow> (gerr + unit) \<times> 's" where
  "run_exec db k st s =
     (let (r, s') = db_send db k (wrap (\<lambda>_. Tag 0) st) s in (map_sum id (\<lambda>_. ()) r, s'))"

section \<open>The methods\<close>

record 's querier =
  qr_create_user :: "string \<Rightarrow> string \<Rightarrow> 's \<Rightarrow> (gerr + user_row) \<times> 's"
  qr_get_access_token :: "bytes \<Rightarrow> 's \<Rightarrow> (gerr + access_row) \<times> 's"
  qr_get_infra_selftest :: "int \<Rightarrow> 's \<Rightarrow> (gerr + infra_selftest) \<times> 's"
  qr_get_refresh_by_selector :: "string \<Rightarrow> 's \<Rightarrow> (gerr + refresh_row) \<times> 's"
  qr_get_refresh_for_update :: "string \<Rightarrow> 's \<Rightarrow> (gerr + refresh_now_row) \<times> 's"
  qr_get_user_by_id :: "uuid \<Rightarrow> 's \<Rightarrow> (gerr + user_row) \<times> 's"
  qr_get_user_by_username :: "string \<Rightarrow> 's \<Rightarrow> (gerr + user_now_row) \<times> 's"
  qr_insert_access_token :: "insert_access \<Rightarrow> 's \<Rightarrow> (gerr + access_row) \<times> 's"
  qr_insert_event :: "insert_event_params \<Rightarrow> 's \<Rightarrow> (gerr + int) \<times> 's"
  qr_insert_refresh_token :: "insert_refresh \<Rightarrow> 's \<Rightarrow> (gerr + refresh_row) \<times> 's"
  qr_lock_token_family :: "uuid \<Rightarrow> 's \<Rightarrow> (gerr + unit) \<times> 's"
  qr_mark_refresh_token_used :: "uuid \<Rightarrow> 's \<Rightarrow> (gerr + unit) \<times> 's"
  qr_record_login_failure :: "uuid \<Rightarrow> int \<Rightarrow> duration \<Rightarrow> 's \<Rightarrow> (gerr + login_failure_row) \<times> 's"
  qr_revoke_access_token :: "uuid \<Rightarrow> 's \<Rightarrow> (gerr + unit) \<times> 's"
  qr_revoke_token_family :: "uuid \<Rightarrow> 's \<Rightarrow> (gerr + unit) \<times> 's"
  qr_set_user_lock :: "uuid \<Rightarrow> int \<Rightarrow> time option \<Rightarrow> 's \<Rightarrow> (gerr + unit) \<times> 's"
  qr_touch_user_timing :: "uuid \<Rightarrow> 's \<Rightarrow> (gerr + unit) \<times> 's"

text \<open>\<open>pl\<close> is PostgreSQL's \<^verbatim>\<open>lower\<close>, \<open>refuses\<close> what it makes of event values, \<open>st\<close> the self-test
  table.\<close>

definition new_queries ::
  "(string \<Rightarrow> string) \<Rightarrow> (insert_event_params \<Rightarrow> gerr option) \<Rightarrow> infra_selftest list \<Rightarrow>
     's dbtx \<Rightarrow> 's querier" where
  "new_queries pl refuses rows db =
     \<lparr>qr_create_user = (\<lambda>name hash s. let (i, s') = db_fresh db s in
        run_query db (WInsert ''CreateUser'') UserRow un_user (create_user pl i name hash) s'),
      qr_get_access_token = (\<lambda>h.
        run_query db (WSelect ''GetAccessToken'') AccessRow un_access (get_access_token h)),
      qr_get_infra_selftest = (\<lambda>i.
        run_query db (WSelect ''GetInfraSelftest'') SelftestRow un_selftest (get_infra_selftest rows i)),
      qr_get_refresh_by_selector = (\<lambda>sel.
        run_query db (WSelect ''GetRefreshTokenBySelector'') RefreshRow un_refresh
          (get_refresh_token_by_selector sel)),
      qr_get_refresh_for_update = (\<lambda>sel.
        run_query db (WSelect ''GetRefreshTokenBySelectorForUpdate'') RefreshNowRow un_refresh_now
          (get_refresh_token_by_selector_for_update sel)),
      qr_get_user_by_id = (\<lambda>i.
        run_query db (WSelect ''GetUserByID'') UserRow un_user (get_user_by_id i)),
      qr_get_user_by_username = (\<lambda>name.
        run_query db (WSelect ''GetUserByUsername'') UserNowRow un_user_now (get_user_by_username pl name)),
      qr_insert_access_token = (\<lambda>a s. let (i, s') = db_fresh db s in
        run_query db (WInsert ''InsertAccessToken'') AccessRow un_access (insert_access_token i a) s'),
      qr_insert_event = (\<lambda>a.
        run_query db (WInsert ''InsertEvent'') Tag rows_affected (insert_event refuses a)),
      qr_insert_refresh_token = (\<lambda>a s. let (i, s') = db_fresh db s in
        run_query db (WInsert ''InsertRefreshToken'') RefreshRow un_refresh (insert_refresh_token i a) s'),
      qr_lock_token_family = (\<lambda>f. run_exec db (WLock ''LockTokenFamily'') (lock_token_family f)),
      qr_mark_refresh_token_used = (\<lambda>i.
        run_exec db (WUpdate ''MarkRefreshTokenUsed'') (mark_refresh_token_used i)),
      qr_record_login_failure = (\<lambda>i threshold window.
        run_query db (WUpdate ''RecordLoginFailure'') FailureRow un_failure
          (record_login_failure i threshold window)),
      qr_revoke_access_token = (\<lambda>i. run_exec db (WUpdate ''RevokeAccessToken'') (revoke_access_token i)),
      qr_revoke_token_family = (\<lambda>f. run_exec db (WUpdate ''RevokeTokenFamily'') (revoke_token_family f)),
      qr_set_user_lock = (\<lambda>i n l. run_exec db (WUpdate ''SetUserLock'') (set_user_lock i n l)),
      qr_touch_user_timing = (\<lambda>i. run_exec db (WUpdate ''TouchUserTiming'') (touch_user_timing i))\<rparr>"

definition pool_queries ::
  "(string \<Rightarrow> string) \<Rightarrow> (insert_event_params \<Rightarrow> gerr option) \<Rightarrow> world querier" where
  "pool_queries pl refuses = new_queries pl refuses selftest_rows pool_db"

definition with_tx ::
  "(string \<Rightarrow> string) \<Rightarrow> (insert_event_params \<Rightarrow> gerr option) \<Rightarrow> (tx \<times> world) querier" where
  "with_tx pl refuses = new_queries pl refuses selftest_rows tx_db"

section \<open>A method is its statement\<close>

lemma un_simps [simp]:
  "un_user (UserRow r1) = Some r1" "un_user_now (UserNowRow r2) = Some r2"
  "un_refresh (RefreshRow r3) = Some r3" "un_refresh_now (RefreshNowRow r4) = Some r4"
  "un_access (AccessRow r5) = Some r5" "un_failure (FailureRow r6) = Some r6"
  "un_selftest (SelftestRow r7) = Some r7" "rows_affected (Tag n) = Some n"
  by (simp_all add: un_user_def un_user_now_def un_refresh_def un_refresh_now_def un_access_def
      un_failure_def un_selftest_def rows_affected_def)

lemma scan_wrapped: "(\<And>a. f (c a) = Some a) \<Longrightarrow> scan f (map_sum id c r) = r"
  by (cases r) (simp_all add: scan_def)

lemma exec_wrapped:
  "exec_stmt k (wrap c st) w = (let (r, w') = exec_stmt k st w in (map_sum id c r, w'))"
  by (auto simp: exec_stmt_def wrap_def Let_def split: prod.splits fault.splits)

lemma tx_exec_wrapped:
  "tx_exec k (wrap c st) x w = (let (r, s) = tx_exec k st x w in (map_sum id c r, s))"
  by (auto simp: tx_exec_def wrap_def Let_def split: prod.splits fault.splits sum.splits)

lemma tag_dropped: "map_sum id (\<lambda>_. ()) (map_sum id (\<lambda>_. Tag 0) r) = (r :: gerr + unit)"
  by (cases r) simp_all

lemma pool_run [simp]:
  "(\<And>a. f (c a) = Some a) \<Longrightarrow> run_query pool_db k c f st w = exec_stmt k st w"
  "run_exec pool_db k st' w = exec_stmt k st' w"
  by (simp_all add: run_query_def run_exec_def pool_db_def exec_wrapped scan_wrapped tag_dropped
      split: prod.splits)

lemma tx_run_query [simp]:
  "(\<And>a. f (c a) = Some a) \<Longrightarrow> run_query tx_db k c f st (x, w) = tx_exec k st x w"
  "run_exec tx_db k st' (x, w) = tx_exec k st' x w"
  by (simp_all add: run_query_def run_exec_def tx_db_def tx_exec_wrapped scan_wrapped tag_dropped
      split: prod.splits)

lemma fresh_simps [simp]:
  "db_fresh pool_db w = next_id w"
  "db_fresh tx_db (x, w) = (let (i, w') = next_id w in (i, (x, w')))"
  by (simp_all add: pool_db_def tx_db_def)

lemma wrap_read_only: "read_only st \<Longrightarrow> read_only (wrap c st)"
  by (auto simp: read_only_def wrap_def split: prod.splits) (metis snd_conv)

lemma selftest_read_only [intro, simp]: "read_only (get_infra_selftest rows i)"
  by (simp add: read_only_def get_infra_selftest_def one_row_def)

lemma pool_methods:
  "qr_create_user (pool_queries pl rf) name hash w =
     (let (i, w') = next_id w in exec_stmt (WInsert ''CreateUser'') (create_user pl i name hash) w')"
  "qr_get_access_token (pool_queries pl rf) h w = exec_stmt (WSelect ''GetAccessToken'') (get_access_token h) w"
  "qr_get_user_by_id (pool_queries pl rf) i w = exec_stmt (WSelect ''GetUserByID'') (get_user_by_id i) w"
  "qr_get_user_by_username (pool_queries pl rf) name w =
     exec_stmt (WSelect ''GetUserByUsername'') (get_user_by_username pl name) w"
  "qr_record_login_failure (pool_queries pl rf) i n d w =
     exec_stmt (WUpdate ''RecordLoginFailure'') (record_login_failure i n d) w"
  "qr_set_user_lock (pool_queries pl rf) i n l w = exec_stmt (WUpdate ''SetUserLock'') (set_user_lock i n l) w"
  "qr_touch_user_timing (pool_queries pl rf) i w =
     exec_stmt (WUpdate ''TouchUserTiming'') (touch_user_timing i) w"
  "qr_get_infra_selftest (pool_queries pl rf) j w =
     exec_stmt (WSelect ''GetInfraSelftest'') (get_infra_selftest selftest_rows j) w"
  by (simp_all add: pool_queries_def new_queries_def split: prod.splits)

lemma tx_methods:
  "qr_get_refresh_by_selector (with_tx pl rf) s (x, w) =
     tx_exec (WSelect ''GetRefreshTokenBySelector'') (get_refresh_token_by_selector s) x w"
  "qr_lock_token_family (with_tx pl rf) f (x, w) = tx_exec (WLock ''LockTokenFamily'') (lock_token_family f) x w"
  "qr_get_refresh_for_update (with_tx pl rf) s (x, w) =
     tx_exec (WSelect ''GetRefreshTokenBySelectorForUpdate'') (get_refresh_token_by_selector_for_update s) x w"
  "qr_get_user_by_id (with_tx pl rf) i (x, w) = tx_exec (WSelect ''GetUserByID'') (get_user_by_id i) x w"
  "qr_mark_refresh_token_used (with_tx pl rf) i (x, w) =
     tx_exec (WUpdate ''MarkRefreshTokenUsed'') (mark_refresh_token_used i) x w"
  "qr_revoke_token_family (with_tx pl rf) f (x, w) =
     tx_exec (WUpdate ''RevokeTokenFamily'') (revoke_token_family f) x w"
  "qr_insert_access_token (with_tx pl rf) a (x, w) = q_insert_access_token a x w"
  "qr_insert_refresh_token (with_tx pl rf) b (x, w) = q_insert_refresh_token b x w"
  "qr_insert_event (with_tx pl rf) c (x, w) = tx_exec (WInsert ''InsertEvent'') (insert_event rf c) x w"
  by (simp_all add: with_tx_def new_queries_def q_insert_access_token_def q_insert_refresh_token_def
      split: prod.splits)

text \<open>The store of the login flow and the loop of the event store, written over the methods.\<close>

lemma store_by_methods:
  "db_user_by_username pl name = qr_get_user_by_username (pool_queries pl rf) name"
  "db_record_login_failure i n d = qr_record_login_failure (pool_queries pl rf) i n (d div 1000 * 1000)"
  "db_reset_login_failures i = qr_set_user_lock (pool_queries pl rf) i 0 None"
  "db_touch_user_timing i = qr_touch_user_timing (pool_queries pl rf) i"
  by (auto simp: fun_eq_iff pool_methods db_user_by_username_def db_record_login_failure_def
      db_reset_login_failures_def db_touch_user_timing_def)

lemma insert_rows_by_methods:
  "insert_rows rf (a # as) n x w =
     (case qr_insert_event (with_tx pl rf) a (x, w) of
        (Inl e, s) \<Rightarrow> (Inl e, s)
      | (Inr k, (x1, w1)) \<Rightarrow> insert_rows rf as (n + k) x1 w1)"
  by (simp add: tx_methods split: prod.splits sum.splits)

lemma create_user_Inr:
  assumes "create_user pl i name hash now t = (Inr u, t')"
  shows "t' = t\<lparr>users := users t @ [u]\<rparr>" and "u_id u = i" and "u_username u = name"
    and "u_password_hash u = hash" and "u_status u = ''active''" and "u_locked_until u = None"
    and "find (\<lambda>v. pl (u_username v) = pl name) (users t') = Some u"
proof -
  from assms have "\<forall>v \<in> set (users t). pl (u_username v) \<noteq> pl name"
    by (auto simp: create_user_def Let_def split: if_splits)
  then have "find (\<lambda>v. pl (u_username v) = pl name) (users t) = None" by (simp add: find_None_all)
  with assms show "t' = t\<lparr>users := users t @ [u]\<rparr>" "u_id u = i" "u_username u = name"
    "u_password_hash u = hash" "u_status u = ''active''" "u_locked_until u = None"
    "find (\<lambda>v. pl (u_username v) = pl name) (users t') = Some u"
    by (auto simp: create_user_def Let_def find_append split: if_splits)
qed

section \<open>The contract of a provider\<close>

text \<open>What the methods rely on: a statement that answers has had its effect on the tables the provider
  shows, one that fails has had all of it or none.\<close>

locale provider =
  fixes db :: "'s dbtx" and tabs :: "'s \<Rightarrow> tables"
  assumes send_law: "db_send db k st s = (r, s') \<Longrightarrow>
      \<exists>now a t. st now (tabs s) = (a, t) \<and>
        (r = a \<and> tabs s' = t \<or> (\<exists>e. r = Inl e \<and> (tabs s' = tabs s \<or> tabs s' = t)))"
    and fresh_law: "tabs (snd (db_fresh db s)) = tabs s"
begin

lemma query_Inr:
  assumes "run_query db k c f st s = (Inr b, s')" and "\<And>a. f (c a) = Some a"
  obtains now where "st now (tabs s) = (Inr b, tabs s')"
proof -
  obtain r where r: "db_send db k (wrap c st) s = (r, s')" "scan f r = Inr b"
    using assms(1) by (auto simp: run_query_def split: prod.splits)
  obtain now a t where w: "wrap c st now (tabs s) = (a, t)" "r = a" "tabs s' = t"
    using send_law [OF r(1)] r(2) by (auto simp: scan_def)
  from w(1) obtain v where v: "st now (tabs s) = (v, t)" "a = map_sum id c v"
    by (auto simp: wrap_def split: prod.splits)
  with r(2) w(2) have "v = Inr b" using scan_wrapped [of f c v] assms(2) by simp
  with v w(3) show thesis by (auto intro: that)
qed

lemma query_read_only:
  assumes "run_query db k c f st s = (r, s')" and "read_only st"
  shows "tabs s' = tabs s"
proof -
  obtain r0 where "db_send db k (wrap c st) s = (r0, s')"
    using assms(1) by (auto simp: run_query_def split: prod.splits)
  from send_law [OF this] obtain now a t where "wrap c st now (tabs s) = (a, t)"
    and "tabs s' = t \<or> tabs s' = tabs s" by blast
  with wrap_read_only [OF assms(2), of c] show ?thesis by (metis read_only_def snd_conv)
qed

text \<open>The read methods change no table, whatever the answer.\<close>

lemma reads_keep_tables:
  "tabs (snd (qr_get_access_token (new_queries pl rf rows db) h s)) = tabs s"
  "tabs (snd (qr_get_infra_selftest (new_queries pl rf rows db) j s)) = tabs s"
  "tabs (snd (qr_get_refresh_by_selector (new_queries pl rf rows db) sel s)) = tabs s"
  "tabs (snd (qr_get_refresh_for_update (new_queries pl rf rows db) sel s)) = tabs s"
  "tabs (snd (qr_get_user_by_id (new_queries pl rf rows db) i s)) = tabs s"
  "tabs (snd (qr_get_user_by_username (new_queries pl rf rows db) name s)) = tabs s"
  by (simp_all add: new_queries_def query_read_only [OF prod.collapse [symmetric]]
      selftest_read_only read_only_queries)

text \<open>A user that \<^verbatim>\<open>CreateUser\<close> answers is the one row that was added, active and unlocked, and the one that
  its name finds from now on.\<close>

lemma created_user:
  assumes "qr_create_user (new_queries pl rf rows db) name hash s = (Inr u, s')"
  shows "tabs s' = (tabs s)\<lparr>users := users (tabs s) @ [u]\<rparr>" and "u_username u = name"
    and "u_password_hash u = hash" and "u_status u = ''active''" and "u_locked_until u = None"
    and "find (\<lambda>v. pl (u_username v) = pl name) (users (tabs s')) = Some u"
proof -
  obtain i s1 where f: "db_fresh db s = (i, s1)" by (cases "db_fresh db s")
  from assms have q: "run_query db (WInsert ''CreateUser'') UserRow un_user (create_user pl i name hash) s1 = (Inr u, s')"
    by (simp add: new_queries_def f)
  obtain now where n: "create_user pl i name hash now (tabs s1) = (Inr u, tabs s')"
    by (rule query_Inr [OF q]) auto
  have "tabs s1 = tabs s" using fresh_law [of s] f by simp
  with create_user_Inr [OF n]
  show "tabs s' = (tabs s)\<lparr>users := users (tabs s) @ [u]\<rparr>" "u_username u = name"
    "u_password_hash u = hash" "u_status u = ''active''" "u_locked_until u = None"
    "find (\<lambda>v. pl (u_username v) = pl name) (users (tabs s')) = Some u" by simp_all
qed

end

interpretation pool_provider: provider pool_db w_tabs
proof (unfold_locales, goal_cases)
  case (1 k st s r s')
  then show ?case by (auto simp: pool_db_def elim!: exec_stmt_outcome)
next
  case (2 s)
  then show ?case by (cases "next_id s") (auto dest: next_id_D)
qed

interpretation tx_provider: provider tx_db "\<lambda>(x, w). tx_tabs x"
proof (unfold_locales, goal_cases)
  case (1 k st s r s')
  obtain x w x' w' where s: "s = (x, w)" "s' = (x', w')" by (cases s, cases s')
  with 1 have e: "tx_exec k st x w = (r, x', w')" by (simp add: tx_db_def)
  show ?case
  proof (cases r)
    case (Inl err)
    with e have "tx_tabs x' = tx_tabs x" using tx_exec_Inl by blast
    with Inl s show ?thesis by (cases "st 0 (tx_tabs x)") force
  next
    case (Inr a)
    with tx_exec_Inr e s show ?thesis by fastforce
  qed
next
  case (2 s)
  then show ?case by (cases s) (simp split: prod.splits)
qed

section \<open>The same methods in a transaction\<close>

text \<open>Where nothing fails, a method in a transaction that began now answers as through the pool, shows
  the transaction the tables the pool would have left, keeps them from everyone else until the
  commit, and leaves the transaction unusable exactly when it answered an error.\<close>

definition same_method ::
  "(world \<Rightarrow> (gerr + 'a) \<times> world) \<Rightarrow> (tx \<times> world \<Rightarrow> (gerr + 'a) \<times> tx \<times> world) \<Rightarrow> tx \<Rightarrow> world \<Rightarrow> bool" where
  "same_method m m' x w =
     (case (m w, m' (x, w)) of
        ((r, w1), (r', x2, w2)) \<Rightarrow>
          r' = r \<and> tx_tabs x2 = w_tabs w1 \<and> w_tabs w2 = w_tabs w \<and> w_trace w2 = w_trace w1 \<and>
          w_ids w2 = w_ids w1 \<and> tx_failed x2 = isl r)"

definition errors_change_nothing :: "'a stmt \<Rightarrow> bool" where
  "errors_change_nothing st \<longleftrightarrow> (\<forall>now t e t'. st now t = (Inl e, t') \<longrightarrow> t' = t)"

lemma statements_all_or_nothing:
  "errors_change_nothing (create_user pl i name hash)" "errors_change_nothing (get_access_token h)"
  "errors_change_nothing (get_infra_selftest rows j)" "errors_change_nothing (get_refresh_token_by_selector sel)"
  "errors_change_nothing (get_refresh_token_by_selector_for_update sel)" "errors_change_nothing (get_user_by_id i)"
  "errors_change_nothing (get_user_by_username pl name)" "errors_change_nothing (insert_access_token i a)"
  "errors_change_nothing (insert_event rf c)" "errors_change_nothing (insert_refresh_token i b)"
  "errors_change_nothing (lock_token_family f)" "errors_change_nothing (mark_refresh_token_used i)"
  "errors_change_nothing (record_login_failure i n d)" "errors_change_nothing (revoke_access_token i)"
  "errors_change_nothing (revoke_token_family f)" "errors_change_nothing (set_user_lock i n l)"
  "errors_change_nothing (touch_user_timing i)"
  by (auto simp: errors_change_nothing_def create_user_def get_access_token_def get_infra_selftest_def
      get_refresh_token_by_selector_def get_refresh_token_by_selector_for_update_def get_user_by_id_def
      get_user_by_username_def insert_access_token_def insert_event_def insert_refresh_token_def
      lock_token_family_def mark_refresh_token_used_def record_login_failure_def revoke_access_token_def
      revoke_token_family_def set_user_lock_def touch_user_timing_def one_row_def Let_def
      split: if_splits option.splits)

lemma same_stmt:
  assumes "errors_change_nothing st" and "w_script w = []" and "\<not> tx_failed x"
    and "tx_now x = w_db w" and "tx_tabs x = w_tabs w"
  shows "same_method (exec_stmt k st) (\<lambda>(x, w). tx_exec k st x w) x w"
proof (cases "st (w_db w) (w_tabs w)")
  case (Pair r t)
  with assms show ?thesis
    by (cases r)
      (auto simp: same_method_def exec_stmt_def tx_exec_def next_fault_quiet errors_change_nothing_def)
qed

lemma same_run:
  assumes "\<And>a. f (c a) = Some a" and "errors_change_nothing st" and "w_script w = []"
    and "\<not> tx_failed x" and "tx_now x = w_db w" and "tx_tabs x = w_tabs w"
  shows "same_method (run_query pool_db k c f st) (run_query tx_db k c f st) x w"
  using same_stmt [OF assms(2-6), of k] by (simp add: same_method_def assms(1))

lemma same_exec:
  assumes "errors_change_nothing st" and "w_script w = []"
    and "\<not> tx_failed x" and "tx_now x = w_db w" and "tx_tabs x = w_tabs w"
  shows "same_method (run_exec pool_db k st) (run_exec tx_db k st) x w"
  using same_stmt [OF assms, of k] by (simp add: same_method_def)

lemma same_fresh:
  assumes "\<And>a. f (c a) = Some a" and "\<And>i. errors_change_nothing (st i)" and "w_script w = []"
    and "\<not> tx_failed x" and "tx_now x = w_db w" and "tx_tabs x = w_tabs w"
  shows "same_method (\<lambda>s. let (i, s') = db_fresh pool_db s in run_query pool_db k c f (st i) s')
    (\<lambda>s. let (i, s') = db_fresh tx_db s in run_query tx_db k c f (st i) s') x w"
proof (cases "next_id w")
  case (Pair i v)
  note v = next_id_D [OF Pair]
  have "same_method (exec_stmt k (st i)) (\<lambda>(x, w). tx_exec k (st i) x w) x v"
    by (rule same_stmt) (use assms v in simp_all)
  with v show ?thesis by (simp add: same_method_def assms(1) Pair)
qed

definition same_queries :: "world querier \<Rightarrow> (tx \<times> world) querier \<Rightarrow> tx \<Rightarrow> world \<Rightarrow> bool" where
  "same_queries q q' x w \<longleftrightarrow>
     (\<forall>name hash. same_method (qr_create_user q name hash) (qr_create_user q' name hash) x w) \<and>
     (\<forall>h. same_method (qr_get_access_token q h) (qr_get_access_token q' h) x w) \<and>
     (\<forall>j. same_method (qr_get_infra_selftest q j) (qr_get_infra_selftest q' j) x w) \<and>
     (\<forall>sel. same_method (qr_get_refresh_by_selector q sel) (qr_get_refresh_by_selector q' sel) x w) \<and>
     (\<forall>sel. same_method (qr_get_refresh_for_update q sel) (qr_get_refresh_for_update q' sel) x w) \<and>
     (\<forall>i. same_method (qr_get_user_by_id q i) (qr_get_user_by_id q' i) x w) \<and>
     (\<forall>name. same_method (qr_get_user_by_username q name) (qr_get_user_by_username q' name) x w) \<and>
     (\<forall>a. same_method (qr_insert_access_token q a) (qr_insert_access_token q' a) x w) \<and>
     (\<forall>c. same_method (qr_insert_event q c) (qr_insert_event q' c) x w) \<and>
     (\<forall>b. same_method (qr_insert_refresh_token q b) (qr_insert_refresh_token q' b) x w) \<and>
     (\<forall>f. same_method (qr_lock_token_family q f) (qr_lock_token_family q' f) x w) \<and>
     (\<forall>i. same_method (qr_mark_refresh_token_used q i) (qr_mark_refresh_token_used q' i) x w) \<and>
     (\<forall>i n d. same_method (qr_record_login_failure q i n d) (qr_record_login_failure q' i n d) x w) \<and>
     (\<forall>i. same_method (qr_revoke_access_token q i) (qr_revoke_access_token q' i) x w) \<and>
     (\<forall>f. same_method (qr_revoke_token_family q f) (qr_revoke_token_family q' f) x w) \<and>
     (\<forall>i n l. same_method (qr_set_user_lock q i n l) (qr_set_user_lock q' i n l) x w) \<and>
     (\<forall>i. same_method (qr_touch_user_timing q i) (qr_touch_user_timing q' i) x w)"

text \<open>\<^verbatim>\<open>WithTx\<close> gives the same seventeen queries: on a connection where nothing fails, every
  method called in a transaction that has just begun answers what it answers through the pool, its
  effect is what the pool's would have been but seen by the transaction alone, and it draws the same
  identifiers.\<close>

theorem with_tx_same_queries:
  assumes "w_script w = []" and "\<not> tx_failed x" and "tx_now x = w_db w" and "tx_tabs x = w_tabs w"
  shows "same_queries (pool_queries pl rf) (with_tx pl rf) x w"
  unfolding same_queries_def pool_queries_def with_tx_def new_queries_def querier.simps
  by (intro conjI allI same_run same_exec same_fresh statements_all_or_nothing un_simps assms)

theorem with_tx_same_queries_witness:
  "same_queries (pool_queries id (\<lambda>_. None)) (with_tx id (\<lambda>_. None))
     \<lparr>tx_now = 0, tx_tabs = toy_tables, tx_failed = False\<rparr> (quiet_world toy_tables 0)"
  by (rule with_tx_same_queries) (simp_all add: quiet_world_def)

end
