(* ===== verification/Retry.thy ===== *)
theory Retry
  imports Prelude
begin

text \<open>
  \<^verbatim>\<open>internal/platform/db/retry.go\<close>: the bounded retry of pre-send connection failures around the
  methods of the pool.  Time, cancellation and the runtime's choices are explicit: a context has a
  deadline and the instant somebody else cancels it, an operation of pgx is a function of the
  context, the clock and the state of the database, and \<open>runtime\<close> says how late a timer fires and
  which case a \<^verbatim>\<open>select\<close> takes when two are ready.
\<close>

section \<open>Contexts\<close>

record go_ctx =
  ctx_deadline :: "time option"
  ctx_cancelled :: "time option"

fun earlier :: "time option \<Rightarrow> time option \<Rightarrow> time option" where
  "earlier None b = b"
| "earlier a None = a"
| "earlier (Some a) (Some b) = Some (min a b)"

text \<open>The first instant at which \<^verbatim>\<open>ctx.Done()\<close> is closed.\<close>

definition done_at :: "go_ctx \<Rightarrow> time option" where
  "done_at c = earlier (ctx_deadline c) (ctx_cancelled c)"

definition ctx_done :: "go_ctx \<Rightarrow> time \<Rightarrow> bool" where
  "ctx_done c t \<longleftrightarrow> (case done_at c of None \<Rightarrow> False | Some d \<Rightarrow> d \<le> t)"

definition with_timeout :: "go_ctx \<Rightarrow> time \<Rightarrow> duration \<Rightarrow> go_ctx" where
  "with_timeout c now d = c\<lparr>ctx_deadline := earlier (ctx_deadline c) (Some (now + d))\<rparr>"

definition cancel :: "time \<Rightarrow> go_ctx \<Rightarrow> go_ctx" where
  "cancel now c = c\<lparr>ctx_cancelled := earlier (ctx_cancelled c) (Some now)\<rparr>"

record runtime =
  timer_lag :: "time \<Rightarrow> nat"
  picks_done :: "time \<Rightarrow> bool"

section \<open>Which errors are retried\<close>

fun as_pg_error :: "gerr \<Rightarrow> string option" where
  "as_pg_error (PgError c) = Some c"
| "as_pg_error (ConnectError e) = as_pg_error e"
| "as_pg_error (Wrapped m e) = as_pg_error e"
| "as_pg_error e = None"

fun as_connect_error :: "gerr \<Rightarrow> bool" where
  "as_connect_error (ConnectError e) = True"
| "as_connect_error (Wrapped m e) = as_connect_error e"
| "as_connect_error e = False"

definition retryable_sqlstates :: "string list" where
  "retryable_sqlstates =
     [''08000'', ''08001'', ''08003'', ''08004'', ''08006'', ''57P01'', ''57P02'', ''57P03'',
      ''53300'']"

text \<open>\<open>safe\<close> is \<^verbatim>\<open>pgconn.SafeToRetry\<close>, which belongs to pgx.\<close>

definition is_transient_conn_error :: "(gerr \<Rightarrow> bool) \<Rightarrow> gerr option \<Rightarrow> bool" where
  "is_transient_conn_error safe err =
     (case err of
        None \<Rightarrow> False
      | Some e \<Rightarrow>
          (case as_pg_error e of
             Some c \<Rightarrow> c \<in> set retryable_sqlstates
           | None \<Rightarrow>
               if err_is DeadlineExceeded e \<or> err_is Canceled e then False
               else if as_connect_error e then True
               else safe e))"

section \<open>The loop\<close>

definition max_attempts :: nat where "max_attempts = 3"
definition base_backoff :: duration where "base_backoff = 100 * millisecond"
definition total_budget :: duration where "total_budget = 10 * second"

datatype retry_event =
    RetrySucceeded string nat
  | RetryAttempt string nat duration gerr
  | RetryExhausted string gerr

text \<open>The state of one call: the clock, the result variable the closure captures, the database,
  and what \<^verbatim>\<open>retryLogger\<close> wrote.\<close>

record ('r, 'w) call =
  clock :: time
  captured :: 'r
  remote :: 'w
  retry_log :: "retry_event list"

type_synonym ('r, 'w) pgx_op = "go_ctx \<Rightarrow> time \<Rightarrow> 'w \<Rightarrow> ('r \<times> gerr option) \<times> 'w \<times> time"

definition run_op ::
  "('r, 'w) pgx_op \<Rightarrow> go_ctx \<Rightarrow> ('r, 'w) call \<Rightarrow> gerr option \<times> ('r, 'w) call" where
  "run_op f ctx c =
     (case f ctx (clock c) (remote c) of
        ((r, err), w, t) \<Rightarrow> (err, c\<lparr>clock := t, captured := r, remote := w\<rparr>))"

definition log_retry :: "retry_event \<Rightarrow> ('r, 'w) call \<Rightarrow> ('r, 'w) call" where
  "log_retry ev c = c\<lparr>retry_log := retry_log c @ [ev]\<rparr>"

definition sleep_with_budget ::
  "runtime \<Rightarrow> go_ctx \<Rightarrow> duration \<Rightarrow> time \<Rightarrow> time \<Rightarrow> bool \<times> time" where
  "sleep_with_budget rt ctx d deadline now =
     (let remaining = time_sub deadline now in
      if remaining \<le> 0 then (False, now)
      else
        let fires = now + (if d > remaining then remaining else d) + int (timer_lag rt now) in
        (case done_at ctx of
           None \<Rightarrow> (fires < deadline, fires)
         | Some t \<Rightarrow>
             if t < fires \<or> (t = fires \<and> picks_done rt now) then (False, max now t)
             else (fires < deadline, fires)))"

text \<open>\<^verbatim>\<open>for attempt := 1; attempt <= maxAttempts; attempt++\<close>, entered with \<open>attempt\<close>, the backoff
  so far and the error of the attempt before.\<close>

function retry_loop ::
  "(gerr \<Rightarrow> bool) \<Rightarrow> runtime \<Rightarrow> string \<Rightarrow> ('r, 'w) pgx_op \<Rightarrow> go_ctx \<Rightarrow> time \<Rightarrow> nat \<Rightarrow> duration \<Rightarrow>
     gerr option \<Rightarrow> ('r, 'w) call \<Rightarrow> gerr option \<times> ('r, 'w) call" where
  "retry_loop safe rt op f ctx deadline attempt backoff err0 c =
     (if max_attempts < attempt then (err0, log_retry (RetryExhausted op (the err0)) c)
      else (case run_op f ctx c of
          (None, c1) \<Rightarrow>
            (None, if 1 < attempt then log_retry (RetrySucceeded op attempt) c1 else c1)
        | (Some e, c1) \<Rightarrow>
            if \<not> is_transient_conn_error safe (Some e) then (Some e, c1)
            else if attempt = max_attempts then (Some e, log_retry (RetryExhausted op e) c1)
            else
              let c2 = log_retry (RetryAttempt op attempt backoff e) c1 in
              (case sleep_with_budget rt ctx backoff deadline (clock c2) of
                 (False, t) \<Rightarrow> (Some e, log_retry (RetryExhausted op e) (c2\<lparr>clock := t\<rparr>))
               | (True, t) \<Rightarrow>
                   retry_loop safe rt op f ctx deadline (attempt + 1) (2 * backoff) (Some e)
                     (c2\<lparr>clock := t\<rparr>))))"
  by pat_completeness auto

termination retry_loop
  by (relation "measure (\<lambda>(_, _, _, _, _, _, attempt, _, _, _). Suc max_attempts - attempt)") auto

declare retry_loop.simps [simp del]

text \<open>\<^verbatim>\<open>retry\<close>: the error, and the derived context as the deferred \<^verbatim>\<open>cancel\<close> leaves it.\<close>

definition retry ::
  "(gerr \<Rightarrow> bool) \<Rightarrow> runtime \<Rightarrow> go_ctx \<Rightarrow> string \<Rightarrow> ('r, 'w) pgx_op \<Rightarrow> ('r, 'w) call \<Rightarrow>
     gerr option \<times> go_ctx \<times> ('r, 'w) call" where
  "retry safe rt ctx0 op f c =
     (let ctx = with_timeout ctx0 (clock c) total_budget;
          deadline = the (ctx_deadline ctx) in
      case retry_loop safe rt op f ctx deadline 1 base_backoff None c of
        (err, c') \<Rightarrow> (err, cancel (clock c') ctx, c'))"


section \<open>The methods of the pool\<close>

definition pool_call ::
  "(gerr \<Rightarrow> bool) \<Rightarrow> runtime \<Rightarrow> string \<Rightarrow> ('r, 'w) pgx_op \<Rightarrow> 'r \<Rightarrow> go_ctx \<Rightarrow> time \<Rightarrow> 'w \<Rightarrow>
     ('r \<times> gerr option) \<times> go_ctx \<times> ('r, 'w) call" where
  "pool_call safe rt op f zero ctx now w =
     (case retry safe rt ctx op f
             \<lparr>clock = now, captured = zero, remote = w, retry_log = []\<rparr> of
        (err, ctx', c) \<Rightarrow> ((captured c, err), ctx', c))"

definition pool_exec ::
  "(gerr \<Rightarrow> bool) \<Rightarrow> runtime \<Rightarrow> ('r, 'w) pgx_op \<Rightarrow> 'r \<Rightarrow> go_ctx \<Rightarrow> time \<Rightarrow> 'w \<Rightarrow>
     ('r \<times> gerr option) \<times> go_ctx \<times> ('r, 'w) call" where
  "pool_exec safe rt exec zero = pool_call safe rt ''exec'' exec zero"

text \<open>\<^verbatim>\<open>nil\<close> rows are \<^const>\<open>None\<close>, the zero value of the captured variable.\<close>

definition pool_query ::
  "(gerr \<Rightarrow> bool) \<Rightarrow> runtime \<Rightarrow> ('r option, 'w) pgx_op \<Rightarrow> go_ctx \<Rightarrow> time \<Rightarrow> 'w \<Rightarrow>
     ('r option \<times> gerr option) \<times> go_ctx \<times> ('r option, 'w) call" where
  "pool_query safe rt query = pool_call safe rt ''query'' query None"

definition pool_begin ::
  "(gerr \<Rightarrow> bool) \<Rightarrow> runtime \<Rightarrow> ('r option, 'w) pgx_op \<Rightarrow> go_ctx \<Rightarrow> time \<Rightarrow> 'w \<Rightarrow>
     ('r option \<times> gerr option) \<times> go_ctx \<times> ('r option, 'w) call" where
  "pool_begin safe rt begin_tx = pool_call safe rt ''begin'' begin_tx None"

record 'r retry_row =
  rr_rows :: "'r option"
  rr_err :: "gerr option"

definition pool_query_row ::
  "(gerr \<Rightarrow> bool) \<Rightarrow> runtime \<Rightarrow> ('r option, 'w) pgx_op \<Rightarrow> go_ctx \<Rightarrow> time \<Rightarrow> 'w \<Rightarrow>
     'r retry_row \<times> go_ctx \<times> ('r option, 'w) call" where
  "pool_query_row safe rt query ctx now w =
     (case pool_query safe rt query ctx now w of
        ((rows, err), rest) \<Rightarrow> (\<lparr>rr_rows = rows, rr_err = err\<rparr>, rest))"

text \<open>The methods of \<^verbatim>\<open>pgx.Rows\<close> that \<^verbatim>\<open>Scan\<close> calls; \<^verbatim>\<open>Rows.Scan\<close> gives the scanned values, its
  own error is ignored.\<close>

record ('r, 'd) rows_api =
  rows_err :: "'r \<Rightarrow> gerr option"
  rows_next :: "'r \<Rightarrow> bool \<times> 'r"
  rows_scan :: "'r \<Rightarrow> 'd option \<times> 'r"
  rows_close :: "'r \<Rightarrow> 'r"

text \<open>The error, the values, and the rows as \<^verbatim>\<open>Scan\<close> leaves them; \<^const>\<open>None\<close> is the nil
  dereference of rows that are nil without an error.\<close>

definition retry_row_scan ::
  "('r, 'd) rows_api \<Rightarrow> 'r retry_row \<Rightarrow> (gerr option \<times> 'd option \<times> 'r option) option" where
  "retry_row_scan api rr =
     (case rr_err rr of
        Some e \<Rightarrow> Some (Some e, None, map_option (rows_close api) (rr_rows rr))
      | None \<Rightarrow>
          (case rr_rows rr of
             None \<Rightarrow> None
           | Some r \<Rightarrow>
               (case rows_err api r of
                  Some e \<Rightarrow> Some (Some e, None, Some (rows_close api r))
                | None \<Rightarrow>
                    (case rows_next api r of
                       (False, r1) \<Rightarrow>
                         Some (case rows_err api r1 of None \<Rightarrow> Some ErrNoRows | Some e \<Rightarrow> Some e,
                               None, Some (rows_close api r1))
                     | (True, r1) \<Rightarrow>
                         (case rows_scan api r1 of
                            (d, r2) \<Rightarrow>
                              let r3 = rows_close api r2 in
                              Some (rows_err api r3, d, Some r3))))))"

section \<open>One round of the loop\<close>

lemma retry_loop_cases:
  assumes "retry_loop safe rt op f ctx D k b err0 c = (err, c')" and "k \<le> max_attempts"
  obtains (success) c1 where "run_op f ctx c = (None, c1)" and "err = None"
      and "c' = (if 1 < k then log_retry (RetrySucceeded op k) c1 else c1)"
  | (fatal) e c1 where "run_op f ctx c = (Some e, c1)" and "err = Some e" and "c' = c1"
      and "\<not> is_transient_conn_error safe (Some e)"
  | (capped) e c1 where "run_op f ctx c = (Some e, c1)" and "err = Some e"
      and "is_transient_conn_error safe (Some e)" and "k = max_attempts"
      and "c' = log_retry (RetryExhausted op e) c1"
  | (timeout) e c1 t where "run_op f ctx c = (Some e, c1)" and "err = Some e"
      and "is_transient_conn_error safe (Some e)" and "k < max_attempts"
      and "sleep_with_budget rt ctx b D (clock c1) = (False, t)"
      and "c' = log_retry (RetryExhausted op e) ((log_retry (RetryAttempt op k b e) c1)\<lparr>clock := t\<rparr>)"
  | (again) e c1 t where "run_op f ctx c = (Some e, c1)"
      and "is_transient_conn_error safe (Some e)" and "k < max_attempts"
      and "sleep_with_budget rt ctx b D (clock c1) = (True, t)"
      and "retry_loop safe rt op f ctx D (k + 1) (2 * b) (Some e)
             ((log_retry (RetryAttempt op k b e) c1)\<lparr>clock := t\<rparr>) = (err, c')"
proof -
  obtain e1 c1 where r: "run_op f ctx c = (e1, c1)" by (cases "run_op f ctx c")
  have k: "\<not> max_attempts < k" using assms(2) by simp
  note step = assms(1) [unfolded retry_loop.simps [of _ _ _ _ _ _ k]]
  show thesis
  proof (cases e1)
    case None
    with r k step that(1) show thesis by auto
  next
    case (Some e)
    show thesis
    proof (cases "is_transient_conn_error safe (Some e)")
      case False
      with Some r k step that(2) show thesis by auto
    next
      case trans: True
      show thesis
      proof (cases "k = max_attempts")
        case True
        with trans Some r k step that(3) show thesis by auto
      next
        case False
        obtain go t where "sleep_with_budget rt ctx b D (clock c1) = (go, t)" by fastforce
        with False trans Some r k step that(4,5) show thesis
          by (cases go) (auto simp: Let_def log_retry_def)
      qed
    qed
  qed
qed


text \<open>Induction over the rounds, from the last to the first.\<close>

lemma retry_loop_induct [consumes 2, case_names success fatal capped timeout again]:
  assumes "retry_loop safe rt op f ctx D k b err0 c = (err, c')" and "k \<le> max_attempts"
    and success: "\<And>k b c c1. k \<le> max_attempts \<Longrightarrow> run_op f ctx c = (None, c1) \<Longrightarrow>
      P k b c None (if 1 < k then log_retry (RetrySucceeded op k) c1 else c1)"
    and fatal: "\<And>k b c e c1. k \<le> max_attempts \<Longrightarrow> run_op f ctx c = (Some e, c1) \<Longrightarrow>
      \<not> is_transient_conn_error safe (Some e) \<Longrightarrow> P k b c (Some e) c1"
    and capped: "\<And>b c e c1. run_op f ctx c = (Some e, c1) \<Longrightarrow>
      is_transient_conn_error safe (Some e) \<Longrightarrow>
      P max_attempts b c (Some e) (log_retry (RetryExhausted op e) c1)"
    and timeout: "\<And>k b c e c1 t. run_op f ctx c = (Some e, c1) \<Longrightarrow>
      is_transient_conn_error safe (Some e) \<Longrightarrow> k < max_attempts \<Longrightarrow>
      sleep_with_budget rt ctx b D (clock c1) = (False, t) \<Longrightarrow>
      P k b c (Some e)
        (log_retry (RetryExhausted op e) ((log_retry (RetryAttempt op k b e) c1)\<lparr>clock := t\<rparr>))"
    and again: "\<And>k b c e c1 t err c'. run_op f ctx c = (Some e, c1) \<Longrightarrow>
      is_transient_conn_error safe (Some e) \<Longrightarrow> k < max_attempts \<Longrightarrow>
      sleep_with_budget rt ctx b D (clock c1) = (True, t) \<Longrightarrow>
      P (k + 1) (2 * b) ((log_retry (RetryAttempt op k b e) c1)\<lparr>clock := t\<rparr>) err c' \<Longrightarrow>
      P k b c err c'"
  shows "P k b c err c'"
  using assms(1,2)
proof (induction "max_attempts - k" arbitrary: k b err0 c rule: less_induct)
  case (less k b err0 c)
  from less.prems show ?case
  proof (cases rule: retry_loop_cases)
    case (again e c1 t)
    then show ?thesis
      using less.hyps [OF _ again(5)] by (intro assms(7) [OF again(1-4)]) auto
  qed (use less.prems(2) success fatal capped timeout in auto)
qed

end
