(* ===== verification/RetrySpec.thy ===== *)
theory RetrySpec
  imports Retry
begin

text \<open>
  What the retry layer guarantees: only pre-send connection failures are tried again, at most
  twice, within the budget; a compute that wakes in time is reached; the log tells which of the
  three endings happened; and the context of rows handed out is already cancelled.
\<close>

section \<open>Watching the calls\<close>

text \<open>The operation that also records when it was called and how it ended.\<close>

definition traced :: "('r, 'w) pgx_op \<Rightarrow> ('r, 'w \<times> (time \<times> gerr option) list) pgx_op" where
  "traced f ctx t wt =
     (case wt of (w, tr) \<Rightarrow>
        (case f ctx t w of ((r, e), w', t') \<Rightarrow> ((r, e), (w', tr @ [(t, e)]), t')))"

lemma run_traced:
  assumes "run_op (traced f) ctx c = (e, c1)"
  shows "snd (remote c1) = snd (remote c) @ [(clock c, e)]" and "retry_log c1 = retry_log c"
  using assms by (auto simp: run_op_def traced_def split: prod.splits)

lemma log_retry_parts [simp]:
  "clock (log_retry ev c) = clock c" "captured (log_retry ev c) = captured c"
  "remote (log_retry ev c) = remote c" "retry_log (log_retry ev c) = retry_log c @ [ev]"
  by (simp_all add: log_retry_def)

lemma sleep_in_time: "sleep_with_budget rt ctx d D now = (True, t) \<Longrightarrow> t < D"
  by (auto simp: sleep_with_budget_def Let_def split: if_splits option.splits)

text \<open>The calls of one run of the loop from attempt \<open>k\<close> on.\<close>

definition retried :: "(gerr \<Rightarrow> bool) \<Rightarrow> time \<Rightarrow> nat \<Rightarrow> gerr option \<Rightarrow> (time \<times> gerr option) list \<Rightarrow> bool" where
  "retried safe D k err tr \<longleftrightarrow>
     tr \<noteq> [] \<and> length tr + k \<le> Suc max_attempts \<and> snd (last tr) = err \<and>
     list_all (\<lambda>(t, e). is_transient_conn_error safe e) (butlast tr) \<and>
     list_all (\<lambda>(t, e). t < D) (tl tr)"

lemma retried_one: "k \<le> max_attempts \<Longrightarrow> retried safe D k err [(t, err)]"
  by (simp add: retried_def)

lemma retried_more:
  assumes "retried safe D (Suc k) err ((t', e') # tr)" and "t' < D"
    and "is_transient_conn_error safe e"
  shows "retried safe D k err ((t, e) # (t', e') # tr)"
  using assms by (auto simp: retried_def)

lemma retry_loop_retried:
  assumes "retry_loop safe rt op (traced f) ctx D k b err0 c = (err, c')" and "k \<le> max_attempts"
  shows "\<exists>tr. snd (remote c') = snd (remote c) @ tr \<and> fst (hd tr) = clock c \<and> retried safe D k err tr"
  using assms
proof (induction rule: retry_loop_induct)
  case (again k b c e c1 t err c')
  then obtain tr where tr: "snd (remote c') = snd (remote c1) @ tr" "fst (hd tr) = t"
    "retried safe D (Suc k) err tr" by auto
  then obtain e' tr' where "tr = (t, e') # tr'" by (cases tr) (auto simp: retried_def)
  with tr again run_traced [OF again(1)] sleep_in_time [OF again(4)] show ?case
    by (intro exI [of _ "(clock c, Some e) # tr"]) (auto intro: retried_more)
next
  case (success k b c c1)
  from run_traced [OF success(2)] retried_one [OF success(1)] show ?case
    by (intro exI [of _ "[(clock c, None)]"]) simp
next
  case (fatal k b c e c1)
  from run_traced [OF fatal(2)] retried_one [OF fatal(1)] show ?case
    by (intro exI [of _ "[(clock c, Some e)]"]) simp
next
  case (capped b c e c1)
  from run_traced [OF capped(1)] retried_one [of max_attempts] show ?case
    by (intro exI [of _ "[(clock c, Some e)]"]) simp
next
  case (timeout k b c e c1 t)
  from run_traced [OF timeout(1)] retried_one [of k] timeout(3) show ?case
    by (intro exI [of _ "[(clock c, Some e)]"]) simp
qed


section \<open>What the log says\<close>

fun attempt_lines :: "string \<Rightarrow> nat \<Rightarrow> duration \<Rightarrow> gerr list \<Rightarrow> retry_event list" where
  "attempt_lines op k b [] = []"
| "attempt_lines op k b (e # es) = RetryAttempt op k b e # attempt_lines op (Suc k) (2 * b) es"

definition log_ending ::
  "(gerr \<Rightarrow> bool) \<Rightarrow> string \<Rightarrow> nat \<Rightarrow> gerr option \<Rightarrow> retry_event list \<Rightarrow> bool" where
  "log_ending safe op n err lg \<longleftrightarrow>
     (case err of
        None \<Rightarrow> lg = (if 1 < n then [RetrySucceeded op n] else [])
      | Some e \<Rightarrow>
          if is_transient_conn_error safe err
          then lg = [RetryExhausted op e] \<or> (\<exists>b. lg = [RetryAttempt op n b e, RetryExhausted op e])
          else lg = [])"

definition told ::
  "(gerr \<Rightarrow> bool) \<Rightarrow> string \<Rightarrow> nat \<Rightarrow> duration \<Rightarrow> gerr option \<Rightarrow> (time \<times> gerr option) list \<Rightarrow>
     retry_event list \<Rightarrow> bool" where
  "told safe op k b err tr lg \<longleftrightarrow>
     tr \<noteq> [] \<and>
     (\<exists>lg'. lg = attempt_lines op k b (map (\<lambda>x. the (snd x)) (butlast tr)) @ lg' \<and>
            log_ending safe op (k + length tr - 1) err lg')"

lemma told_one: "log_ending safe op k err lg \<Longrightarrow> told safe op k b err [(t, err')] lg"
  by (simp add: told_def)

lemma told_more:
  assumes "told safe op (Suc k) (2 * b) err tr lg"
  shows "told safe op k b err ((t, Some e) # tr) (RetryAttempt op k b e # lg)"
  using assms by (auto simp: told_def)

lemma retry_loop_told:
  assumes "retry_loop safe rt op (traced f) ctx D k b err0 c = (err, c')" and "k \<le> max_attempts"
  shows "\<exists>tr lg. snd (remote c') = snd (remote c) @ tr \<and> retry_log c' = retry_log c @ lg \<and>
    told safe op k b err tr lg"
  using assms
proof (induction rule: retry_loop_induct)
  case (again k b c e c1 t err c')
  then obtain tr lg where "snd (remote c') = snd (remote c1) @ tr"
    "retry_log c' = retry_log c1 @ RetryAttempt op k b e # lg"
    "told safe op (Suc k) (2 * b) err tr lg" by auto
  with run_traced [OF again(1)] told_more show ?case
    by (intro exI [of _ "(clock c, Some e) # tr"] exI [of _ "RetryAttempt op k b e # lg"]) simp
next
  case (success k b c c1)
  from run_traced [OF success(2)] show ?case
    by (intro exI [of _ "[(clock c, None)]"] exI [of _ "if 1 < k then [RetrySucceeded op k] else []"])
       (simp add: told_one log_ending_def)
next
  case (fatal k b c e c1)
  from run_traced [OF fatal(2)] fatal(3) show ?case
    by (intro exI [of _ "[(clock c, Some e)]"] exI [of _ "[]"]) (simp add: told_one log_ending_def)
next
  case (capped b c e c1)
  from run_traced [OF capped(1)] capped(2) show ?case
    by (intro exI [of _ "[(clock c, Some e)]"] exI [of _ "[RetryExhausted op e]"])
       (simp add: told_one log_ending_def)
next
  case (timeout k b c e c1 t)
  from run_traced [OF timeout(1)] timeout(2) show ?case
    by (intro exI [of _ "[(clock c, Some e)]"]
          exI [of _ "[RetryAttempt op k b e, RetryExhausted op e]"])
       (simp add: told_one log_ending_def)
qed

section \<open>Time\<close>

text \<open>What pgx documents of an operation: it returns soon after its context is done, at most \<open>g\<close>
  later.\<close>

definition honours :: "duration \<Rightarrow> ('r, 'w) pgx_op \<Rightarrow> bool" where
  "honours g f \<longleftrightarrow>
     (\<forall>ctx t w r w' t' d. f ctx t w = (r, w', t') \<longrightarrow> done_at ctx = Some d \<longrightarrow> t' \<le> max t d + g)"

lemma run_honours:
  "honours g f \<Longrightarrow> run_op f ctx c = (e, c1) \<Longrightarrow> done_at ctx = Some d \<Longrightarrow>
     clock c1 \<le> max (clock c) d + g"
  unfolding run_op_def honours_def by (force split: prod.splits)

lemma sleep_bound:
  assumes "sleep_with_budget rt ctx b D now = (go, t)" and "done_at ctx = Some d"
  shows "t \<le> max now d" and "go \<Longrightarrow> t \<le> d"
  using assms by (auto simp: sleep_with_budget_def Let_def split: if_splits)

lemma retry_loop_time:
  assumes "retry_loop safe rt op f ctx D k b err0 c = (err, c')" and "k \<le> max_attempts"
    and f: "honours g f" and d: "done_at ctx = Some d" "d \<le> m" and "0 \<le> g"
  shows "clock c \<le> m \<longrightarrow> clock c' \<le> m + g"
  using assms(1,2)
proof (induction rule: retry_loop_induct)
  case (again k b c e c1 t err c')
  with sleep_bound(2) [OF again(4) d(1)] d(2) show ?case by auto
next
  case (success k b c c1)
  with run_honours [OF f success(2) d(1)] d show ?case by auto
next
  case (fatal k b c e c1)
  with run_honours [OF f fatal(2) d(1)] d show ?case by auto
next
  case (capped b c e c1)
  with run_honours [OF f capped(1) d(1)] d show ?case by auto
next
  case (timeout k b c e c1 t)
  with run_honours [OF f timeout(1) d(1)] d sleep_bound(1) [OF timeout(4) d(1)] \<open>0 \<le> g\<close>
  show ?case by auto
qed

text \<open>A loop that wakes up a sleeping compute: \<open>m\<close> is how many more calls it refuses.\<close>

definition wakes :: "(gerr \<Rightarrow> bool) \<Rightarrow> duration \<Rightarrow> ('w \<Rightarrow> nat) \<Rightarrow> ('r, 'w) pgx_op \<Rightarrow> bool" where
  "wakes safe d m f \<longleftrightarrow>
     (\<forall>ctx t w. case f ctx t w of ((r, err), w', t') \<Rightarrow>
        t \<le> t' \<and> t' \<le> t + d \<and>
        (if m w = 0 then err = None else m w' < m w \<and> is_transient_conn_error safe err))"

lemma run_wakes:
  assumes "wakes safe d m f" and "run_op f ctx c = (err, c1)"
  shows "clock c \<le> clock c1" and "clock c1 \<le> clock c + d"
    and "if m (remote c) = 0 then err = None
         else m (remote c1) < m (remote c) \<and> is_transient_conn_error safe err"
  using assms unfolding wakes_def run_op_def by (auto split: prod.splits)

lemma sleep_succeeds:
  assumes "0 \<le> b" and "now + b + int (timer_lag rt now) < D"
    and "\<And>d. done_at ctx = Some d \<Longrightarrow> now + b + int (timer_lag rt now) < d" and "D - now < 2 ^ 63"
  shows "sleep_with_budget rt ctx b D now = (True, now + b + int (timer_lag rt now))"
proof -
  have "time_sub D now = D - now" using assms by (simp add: time_sub_def)
  with assms show ?thesis
    by (cases "done_at ctx") (auto simp: sleep_with_budget_def Let_def)
qed


lemma retry_loop_reaches:
  assumes f: "wakes safe d m f" and lag: "\<And>t. int (timer_lag rt t) \<le> l" and "0 \<le> d" "0 \<le> l"
    and x: "x < D" "\<And>a. done_at ctx = Some a \<Longrightarrow> x < a" and far: "D < clock c + 2 ^ 63"
  shows "m (remote c) + k \<le> max_attempts \<Longrightarrow> 0 \<le> b \<Longrightarrow>
    clock c + int (m (remote c)) * (d + l) + (2 ^ m (remote c) - 1) * b \<le> x \<Longrightarrow>
    \<exists>c'. retry_loop safe rt op f ctx D k b err0 c = (None, c')"
  using far
proof (induction "m (remote c)" arbitrary: k b err0 c rule: less_induct)
  case (less c k b err0)
  have k: "\<not> max_attempts < k" using less.prems(1) by simp
  obtain err c1 where r: "run_op f ctx c = (err, c1)" by (cases "run_op f ctx c")
  note w = run_wakes [OF f r]
  show ?case
  proof (cases "m (remote c) = 0")
    case True
    with w(3) r k show ?thesis by (subst retry_loop.simps) auto
  next
    case False
    with w(3) have dec: "m (remote c1) < m (remote c)" and tr: "is_transient_conn_error safe err"
      by auto
    then obtain e where e: "err = Some e" by (cases err) (auto simp: is_transient_conn_error_def)
    define m1 where "m1 = m (remote c1)"
    have "int (Suc m1) * (d + l) \<le> int (m (remote c)) * (d + l)"
      using dec assms(3,4) by (intro mult_right_mono) (auto simp: m1_def)
    moreover have "(2 ^ Suc m1 - 1) * b \<le> (2 ^ m (remote c) - 1) * b"
      using dec less.prems(2) by (intro mult_right_mono diff_right_mono power_increasing)
        (auto simp: m1_def)
    ultimately have room: "clock c1 + b + l + int m1 * (d + l) + (2 ^ m1 - 1) * (2 * b) \<le> x"
      using less.prems(3) w(2) by (simp add: algebra_simps)
    have "0 \<le> int m1 * (d + l)" and "0 \<le> (2 ^ m1 - 1) * (2 * b)"
      using assms(3,4) less.prems(2) by simp_all
    with room have wake: "clock c1 + b + l \<le> x" by linarith
    let ?t = "clock c1 + b + int (timer_lag rt (clock c1))"
    have sl: "sleep_with_budget rt ctx b D (clock c1) = (True, ?t)"
    proof (rule sleep_succeeds [OF less.prems(2)])
      show "?t < D" using wake x(1) lag [of "clock c1"] by linarith
      show "?t < a" if "done_at ctx = Some a" for a
        using wake x(2) [OF that] lag [of "clock c1"] by linarith
      show "D - clock c1 < 2 ^ 63" using less.prems(4) w(1) by linarith
    qed
    let ?c2 = "(log_retry (RetryAttempt op k b e) c1)\<lparr>clock := ?t\<rparr>"
    have "\<exists>c'. retry_loop safe rt op f ctx D (k + 1) (2 * b) (Some e) ?c2 = (None, c')"
    proof (rule less.hyps)
      show "clock ?c2 + int (m (remote ?c2)) * (d + l) + (2 ^ m (remote ?c2) - 1) * (2 * b) \<le> x"
        using room lag [of "clock c1"] by (simp add: m1_def)
      show "D < clock ?c2 + 2 ^ 63" using less.prems(2,4) w(1) by simp
    qed (use dec less.prems(1,2) in auto)
    moreover have "k \<noteq> max_attempts" using dec less.prems(1) by simp
    ultimately show ?thesis
      using r e tr k sl by (subst retry_loop.simps) (simp add: Let_def)
  qed
qed


section \<open>Properties\<close>

lemma retry_unfold:
  assumes "retry safe rt ctx0 op f c = (err, ctx', c')"
  obtains ctx D where "ctx = with_timeout ctx0 (clock c) total_budget" and "ctx_deadline ctx = Some D"
    and "D \<le> clock c + total_budget" and "ctx' = cancel (clock c') ctx"
    and "retry_loop safe rt op f ctx D 1 base_backoff None c = (err, c')"
proof -
  obtain D where D: "ctx_deadline (with_timeout ctx0 (clock c) total_budget) = Some D"
    "D \<le> clock c + total_budget"
    by (cases "ctx_deadline ctx0") (auto simp: with_timeout_def)
  with assms show thesis
    by (intro that [OF refl D]) (auto simp: retry_def Let_def split: prod.splits)
qed

lemma pool_call_unfold:
  assumes "pool_call safe rt op f zero ctx now w = ((r, err), ctx', c')"
  shows "retry safe rt ctx op f \<lparr>clock = now, captured = zero, remote = w, retry_log = []\<rparr>
    = (err, ctx', c')" and "r = captured c'"
  using assms by (auto simp: pool_call_def split: prod.splits)

definition sleeping :: "(string option, nat) pgx_op" where
  "sleeping ctx t n =
     (if n = 0 then ((Some ''row'', None), 0, t + 50 * millisecond)
      else ((None, Some (ConnectError (ErrMsg ''refused''))), n - 1, t + 50 * millisecond))"

definition exact_runtime :: runtime where
  "exact_runtime = \<lparr>timer_lag = (\<lambda>_. 0), picks_done = (\<lambda>_. False)\<rparr>"

definition background :: go_ctx where
  "background = \<lparr>ctx_deadline = None, ctx_cancelled = None\<rparr>"

definition unsafe :: "gerr \<Rightarrow> bool" where "unsafe e = False"

lemmas toy_retry_defs =
  sleeping_def exact_runtime_def background_def unsafe_def traced_def duration_defs
  total_budget_def base_backoff_def max_attempts_def

definition toy_call :: "(string option \<times> gerr option) \<times> go_ctx \<times>
    (string option, nat \<times> (time \<times> gerr option) list) call" where
  "toy_call =
     pool_call unsafe exact_runtime ''query'' (traced sleeping) None background 0 (1, [])"

lemma toy_call_eq:
  "toy_call =
     ((Some ''row'', None), \<lparr>ctx_deadline = Some 10000000000, ctx_cancelled = Some 200000000\<rparr>,
      \<lparr>clock = 200000000, captured = Some ''row'',
       remote = (0, [(0, Some (ConnectError (ErrMsg ''refused''))), (150000000, None)]),
       retry_log = [RetryAttempt ''query'' 1 100000000 (ConnectError (ErrMsg ''refused'')),
                    RetrySucceeded ''query'' 2]\<rparr>)"
  by code_simp

text \<open>A failure after which nothing was sent, as pgx reports it.\<close>

definition presend :: "(gerr \<Rightarrow> bool) \<Rightarrow> gerr \<Rightarrow> bool" where
  "presend safe e \<longleftrightarrow>
     (case as_pg_error e of
        Some code \<Rightarrow> code \<in> set retryable_sqlstates
      | None \<Rightarrow> (as_connect_error e \<or> safe e) \<and> \<not> err_is DeadlineExceeded e \<and> \<not> err_is Canceled e)"

lemma transient_presend: "is_transient_conn_error safe e \<longleftrightarrow> (\<exists>x. e = Some x \<and> presend safe x)"
  by (auto simp: is_transient_conn_error_def presend_def split: option.splits)

lemma pool_call_loop:
  assumes "pool_call safe rt op f zero ctx now w = ((r, err), ctx', c')"
  obtains ctx1 D where "D \<le> now + total_budget"
    and "retry_loop safe rt op f ctx1 D 1 base_backoff None
      \<lparr>clock = now, captured = zero, remote = w, retry_log = []\<rparr> = (err, c')"
  by (rule retry_unfold [OF pool_call_unfold(1) [OF assms]]) (use that in auto)

text \<open>C11: What a method of the pool sends again: along every call of \<open>Exec\<close>, \<open>Query\<close> and \<open>Begin\<close> the
  operation of pgx runs at most three times, each run but the last failed with a transient
  connection error (never an answer of the server outside the SQLSTATE list, never success), no
  run after the first starts at or past the deadline, and the method returns exactly the error of
  the last run.  So a statement the server has answered is never executed twice.\<close>

theorem retry_only_transient:
  assumes "pool_call safe rt op (traced f) zero ctx now (w, []) = ((r, err), ctx', c')"
  shows "\<exists>tr. snd (remote c') = tr \<and> 1 \<le> length tr \<and> length tr \<le> 3 \<and>
    fst (hd tr) = now \<and> snd (last tr) = err \<and>
    (\<forall>(t, e) \<in> set (butlast tr). \<exists>x. e = Some x \<and> presend safe x) \<and>
    (\<forall>(t, e) \<in> set (tl tr). t < now + total_budget)"
proof -
  obtain ctx1 D where D: "D \<le> now + total_budget"
    and run: "retry_loop safe rt op (traced f) ctx1 D 1 base_backoff None
      \<lparr>clock = now, captured = zero, remote = (w, []), retry_log = []\<rparr> = (err, c')"
    by (rule pool_call_loop [OF assms])
  from retry_loop_retried [OF run] obtain tr where tr: "snd (remote c') = tr"
    "fst (hd tr) = now" "retried safe D 1 err tr"
    by (auto simp: max_attempts_def)
  have "\<forall>(t, e) \<in> set (tl tr). t < now + total_budget"
    using tr(3) D by (fastforce simp: retried_def list_all_iff)
  moreover have "1 \<le> length tr" "length tr \<le> 3" "snd (last tr) = err"
    using tr(3) by (cases tr; auto simp: retried_def max_attempts_def)+
  moreover have "\<forall>(t, e) \<in> set (butlast tr). \<exists>x. e = Some x \<and> presend safe x"
    using tr(3) by (simp add: retried_def list_all_iff transient_presend)
  ultimately show ?thesis using tr(1,2) by (intro exI [of _ tr]) simp
qed

theorem retry_only_transient_witness:
  "\<exists>tr. snd (remote (snd (snd toy_call))) = tr \<and> length tr = 2 \<and>
     (\<forall>(t, e) \<in> set (butlast tr). \<exists>x. e = Some x \<and> presend unsafe x) \<and>
     snd (last tr) = None"
  using retry_only_transient [OF toy_call_eq [unfolded toy_call_def]] by (auto simp: toy_call_eq)

text \<open>What the log of a call tells: one line for every failed attempt that was slept after, with
  the operation, the number of the attempt and a backoff that doubles from 100 ms; then, a success
  after a failure is reported with the number of the attempt that succeeded, a call that gives up
  on a transient failure always ends with the exhausted line carrying the returned error, and an
  answer of the server (or a success at once) adds nothing.\<close>

theorem retry_log_complete:
  assumes "pool_call safe rt op (traced f) zero ctx now (w, []) = ((r, err), ctx', c')"
  shows "\<exists>tr lg. snd (remote c') = tr \<and>
    retry_log c' = attempt_lines op 1 (100 * millisecond) (map (\<lambda>x. the (snd x)) (butlast tr)) @ lg \<and>
    log_ending safe op (length tr) err lg"
proof -
  obtain ctx1 D where
    "retry_loop safe rt op (traced f) ctx1 D 1 base_backoff None
      \<lparr>clock = now, captured = zero, remote = (w, []), retry_log = []\<rparr> = (err, c')"
    by (rule pool_call_loop [OF assms])
  from retry_loop_told [OF this] show ?thesis
    by (auto simp: told_def max_attempts_def base_backoff_def)
qed

theorem retry_log_complete_witness:
  "\<exists>tr lg. snd (remote (snd (snd toy_call))) = tr \<and>
     retry_log (snd (snd toy_call)) =
       attempt_lines ''query'' 1 (100 * millisecond) (map (\<lambda>x. the (snd x)) (butlast tr)) @ lg \<and>
     log_ending unsafe ''query'' 2 None lg"
  using retry_log_complete [OF toy_call_eq [unfolded toy_call_def]]
  by (simp add: toy_call_eq numeral_2_eq_2)

lemma pool_call_time:
  assumes "pool_call safe rt op f zero ctx now w = ((r, err), ctx', c')"
    and "honours g f" and "0 \<le> g"
  shows "clock c' \<le> now + 10 * second + g \<and>
    (\<forall>d. done_at ctx = Some d \<longrightarrow> clock c' \<le> max now d + g)"
proof -
  obtain ctx1 D where c1: "ctx1 = with_timeout ctx now total_budget" "ctx_deadline ctx1 = Some D"
    and D: "D \<le> now + total_budget"
    and run: "retry_loop safe rt op f ctx1 D 1 base_backoff None
      \<lparr>clock = now, captured = zero, remote = w, retry_log = []\<rparr> = (err, c')"
    by (rule retry_unfold [OF pool_call_unfold(1) [OF assms(1)]]) simp
  obtain a where a: "done_at ctx1 = Some a" "a \<le> D"
    using c1(2) by (cases "ctx_cancelled ctx1") (auto simp: done_at_def)
  have time: "clock c' \<le> m + g" if "a \<le> m" "now \<le> m" for m
    using retry_loop_time [OF run _ assms(2) a(1) that(1) assms(3)] that(2) assms(3)
    by (simp add: max_attempts_def)
  have "0 \<le> total_budget" by (simp add: total_budget_def duration_defs)
  with time [of "now + total_budget"] D a(2) have "clock c' \<le> now + 10 * second + g"
    by (simp add: total_budget_def)
  moreover have "clock c' \<le> max now d + g" if "done_at ctx = Some d" for d
  proof -
    have "a \<le> d" using that a(1) c1(1)
      by (cases "ctx_deadline ctx"; cases "ctx_cancelled ctx") (auto simp: with_timeout_def done_at_def)
    then show ?thesis using time [of "max now d"] by simp
  qed
  ultimately show ?thesis by blast
qed

text \<open>C27: A call returns within the budget: if every operation of pgx returns at most \<open>g\<close> after its
  context is done, a method of the pool returns at most \<open>g\<close> later than 10 s after it was called,
  and at most \<open>g\<close> after the deadline or the cancellation of the caller's own context.\<close>

theorem retry_within_budget:
  assumes "pool_call safe rt op f zero ctx now w = ((r, err), ctx', c')"
    and "honours g f" and "0 \<le> g"
  shows "clock c' \<le> now + 10 * second + g \<and>
    (\<forall>d. done_at ctx = Some d \<longrightarrow> clock c' \<le> max now d + g)"
  using assms by (rule pool_call_time)

lemma honours_toy: "honours (50 * millisecond) (traced sleeping)"
  by (auto simp: honours_def traced_def sleeping_def duration_defs split: prod.splits if_splits)

theorem retry_within_budget_witness:
  "clock (snd (snd toy_call)) \<le> 10 * second + 50 * millisecond"
  using retry_within_budget [OF toy_call_eq [unfolded toy_call_def] honours_toy]
  by (simp add: toy_call_eq duration_defs)

text \<open>C37: The purpose of the retry: a compute that refuses the first one or two connections and then
  wakes up is reached.  If calls take at most \<open>d\<close>, timers fire at most \<open>l\<close> late and the context of
  the caller leaves 300 ms and two calls and timers, the method returns without an error.\<close>

theorem retry_reaches_waking:
  assumes "wakes safe d m f" and "m w \<le> 2" and "\<And>t. int (timer_lag rt t) \<le> l"
    and "0 \<le> d" and "0 \<le> l" and "2 * (d + l) + 300 * millisecond < 10 * second"
    and "\<And>a. done_at ctx = Some a \<Longrightarrow> now + 2 * (d + l) + 300 * millisecond < a"
  shows "\<exists>r ctx' c'. pool_call safe rt op f zero ctx now w = ((r, None), ctx', c')"
proof -
  obtain r err ctx' c' where call: "pool_call safe rt op f zero ctx now w = ((r, err), ctx', c')"
    by (metis prod.collapse)
  let ?c = "\<lparr>clock = now, captured = zero, remote = w, retry_log = []\<rparr>"
  obtain ctx1 D where c1: "ctx1 = with_timeout ctx now total_budget" "ctx_deadline ctx1 = Some D"
    and D: "D \<le> now + total_budget"
    and run: "retry_loop safe rt op f ctx1 D 1 base_backoff None ?c = (err, c')"
    by (rule retry_unfold [OF pool_call_unfold(1) [OF call]]) simp
  let ?x = "now + 2 * (d + l) + 300 * millisecond"
  have x: "?x < now + total_budget" using assms(6) by (simp add: total_budget_def)
  have done1: "?x < a" if "done_at ctx1 = Some a" for a
    using that assms(7) x c1(1)
    by (cases "ctx_deadline ctx"; cases "ctx_cancelled ctx") (auto simp: with_timeout_def done_at_def)
  have xD: "?x < D"
    using assms(7) x c1
    by (cases "ctx_deadline ctx"; cases "ctx_cancelled ctx") (auto simp: with_timeout_def done_at_def)
  have *: "clock ?c + int (m (remote ?c)) * (d + l) + (2 ^ m (remote ?c) - 1) * base_backoff \<le> ?x"
  proof -
    have "int (m w) * (d + l) \<le> 2 * (d + l)" using assms(2,4,5) by (intro mult_right_mono) auto
    moreover have "(2 ^ m w - 1) * base_backoff \<le> (2 ^ 2 - 1) * base_backoff"
      using assms(2) by (intro mult_right_mono diff_right_mono power_increasing)
        (auto simp: base_backoff_def duration_defs)
    ultimately show ?thesis by (simp add: base_backoff_def duration_defs)
  qed
  have "D < clock ?c + 2 ^ 63" "0 \<le> base_backoff"
    using D by (simp_all add: total_budget_def base_backoff_def duration_defs)
  then have "\<exists>c'. retry_loop safe rt op f ctx1 D 1 base_backoff None ?c = (None, c')"
    using assms(2) by (intro retry_loop_reaches [OF assms(1,3,4,5) xD done1 _ _ _ *])
      (auto simp: max_attempts_def)
  with run call show ?thesis by auto
qed

lemma wakes_toy: "wakes unsafe (50 * millisecond) fst (traced sleeping)"
  by (auto simp: wakes_def traced_def sleeping_def duration_defs is_transient_conn_error_def)

theorem retry_reaches_waking_witness:
  "\<exists>r ctx' c'. pool_exec unsafe exact_runtime (traced sleeping) None background 0 (2, []) =
     ((r, None), ctx', c')"
  using retry_reaches_waking [OF wakes_toy, of "(2, [])" exact_runtime 0 background 0 "''exec''" None]
  by (simp add: pool_exec_def exact_runtime_def background_def done_at_def duration_defs)

text \<open>What \<open>Query\<close> hands out: the context its rows were created with is the derived one, and it
  is done when the method returns, whatever the caller's context is, because \<open>retry\<close> defers the
  cancel.  The rows are read by the caller only after that, also by \<open>Scan\<close> of \<open>QueryRow\<close>.\<close>

theorem query_rows_ctx_cancelled:
  assumes "pool_query safe rt query ctx now w = ((Some rows, None), ctx', c')"
  shows "ctx' = cancel (clock c') (with_timeout ctx now total_budget) \<and> ctx_done ctx' (clock c')"
proof -
  have "ctx' = cancel (clock c') (with_timeout ctx now total_budget)"
    by (rule retry_unfold [OF pool_call_unfold(1) [OF assms [unfolded pool_query_def]]]) simp
  then show ?thesis
    by (cases "ctx_deadline ctx"; cases "ctx_cancelled ctx")
       (auto simp: ctx_done_def done_at_def cancel_def with_timeout_def)
qed

lemma toy_query_eq:
  "pool_query unsafe exact_runtime sleeping background 0 0 =
     ((Some ''row'', None), \<lparr>ctx_deadline = Some 10000000000, ctx_cancelled = Some 50000000\<rparr>,
      \<lparr>clock = 50000000, captured = Some ''row'', remote = 0, retry_log = []\<rparr>)"
  by code_simp

theorem query_rows_ctx_cancelled_witness:
  "ctx_done (fst (snd (pool_query unsafe exact_runtime sleeping background 0 0))) 50000000"
  using query_rows_ctx_cancelled [OF toy_query_eq, THEN conjunct2] unfolding toy_query_eq by simp

text \<open>\<open>Scan\<close> of a row: on every path it leaves the rows closed, so that the connection goes back
  to the pool; it answers the error of the query, of the iteration or of the scan if there is one,
  \<open>ErrNoRows\<close> exactly for an empty result, and values only after a row was fetched.\<close>

theorem scan_closes_rows:
  assumes "retry_row_scan api rr = Some (err, vals, rows)"
    and "\<And>r. closed (rows_close api r)"
  shows "(\<forall>r. rows = Some r \<longrightarrow> closed r) \<and>
    (rr_err rr \<noteq> None \<longrightarrow> err = rr_err rr) \<and>
    (err = None \<longrightarrow> (\<exists>r r1 r2. rr_rows rr = Some r \<and> rows_next api r = (True, r1) \<and>
       rows_scan api r1 = (vals, r2) \<and> rows = Some (rows_close api r2))) \<and>
    (rr_err rr = None \<and> vals = None \<and> err = Some ErrNoRows \<and>
       (\<forall>r. rows_err api r \<noteq> Some ErrNoRows) \<longrightarrow>
       (\<exists>r r1. rr_rows rr = Some r \<and> rows_next api r = (False, r1) \<and> rows_err api r1 = None))"
  using assms
  by (auto simp: retry_row_scan_def Let_def split: option.splits prod.splits bool.splits; metis)

text \<open>A result set in memory: the rows left, an error, and whether it is closed.\<close>

definition list_rows :: "(string list \<times> gerr option \<times> bool, string) rows_api" where
  "list_rows =
     \<lparr>rows_err = (\<lambda>(xs, e, b). e),
      rows_next = (\<lambda>(xs, e, b). (xs \<noteq> [] \<and> e = None, (xs, e, b))),
      rows_scan = (\<lambda>(xs, e, b). case xs of [] \<Rightarrow> (None, (xs, e, b)) | x # r \<Rightarrow> (Some x, (r, e, b))),
      rows_close = (\<lambda>(xs, e, b). (xs, e, True))\<rparr>"

theorem scan_closes_rows_witness:
  "\<exists>rows. retry_row_scan list_rows \<lparr>rr_rows = Some ([''a'', ''b''], None, False), rr_err = None\<rparr> =
     Some (None, Some ''a'', Some rows) \<and> snd (snd rows)"
  using scan_closes_rows [of list_rows "\<lparr>rr_rows = Some ([''a'', ''b''], None, False), rr_err = None\<rparr>"
      None "Some ''a''" "Some ([''b''], None, True)" "\<lambda>r. snd (snd r)"]
  by (simp add: retry_row_scan_def list_rows_def Let_def split: prod.splits)

end
