(* ===== verification/PoolRefine.thy ===== *)
theory PoolRefine
  imports RetrySpec Fixture
begin

text \<open>
  The two models of a database round trip agree: what \<^verbatim>\<open>Exec\<close> of the retrying pool
  (\<^verbatim>\<open>internal/platform/db/retry.go\<close>) does with a statement is what \<open>exec_stmt\<close> of theory Database does
  with it for some script entry, so the modules may be verified over single round trips.  \<^verbatim>\<open>Query\<close> and
  \<^verbatim>\<open>QueryRow\<close> return before the outcome of their statement is known, which \<^verbatim>\<open>Scan\<close> reads later; they are
  not in the scope of the refinement.
\<close>

section \<open>An operation of pgx that carries a statement\<close>

text \<open>
  What is assumed of pgx and the server, whatever the code makes of it.  Success is answered with the
  statement's result when the statement took effect at some instant of the call.  On an error the
  statement took effect or it did not; it did not when the server itself reported the error (an
  \<^verbatim>\<open>ErrorResponse\<close> rolls a statement outside a transaction back), when no connection was established (a
  \<^verbatim>\<open>ConnectError\<close>), or when pgconn guarantees that nothing was sent (\<^verbatim>\<open>pgconn.SafeToRetry\<close>).  After any
  other error, such as a connection that broke while the answer was awaited, or a deadline, it may have.
\<close>

definition no_effect :: "(gerr \<Rightarrow> bool) \<Rightarrow> gerr \<Rightarrow> bool" where
  "no_effect safe e \<longleftrightarrow> as_pg_error e \<noteq> None \<or> as_connect_error e \<or> safe e"

definition pgx_stmt :: "(gerr \<Rightarrow> bool) \<Rightarrow> 'a stmt \<Rightarrow> ('a option, tables) pgx_op \<Rightarrow> bool" where
  "pgx_stmt safe st f \<longleftrightarrow>
     (\<forall>ctx t tabs r err tabs' t'. f ctx t tabs = ((r, err), tabs', t') \<longrightarrow>
        (\<exists>now. t \<le> now \<and> now \<le> t' \<and>
          (case err of
             None \<Rightarrow> \<exists>x. r = Some x \<and> st now tabs = (Inr x, tabs')
           | Some e \<Rightarrow> tabs' = tabs \<or> \<not> no_effect safe e \<and> tabs' = snd (st now tabs))))"

text \<open>What the code takes for a transient connection error is one of those that had no effect.\<close>

lemma transient_no_effect: "is_transient_conn_error safe (Some e) \<Longrightarrow> no_effect safe e"
  by (auto simp: is_transient_conn_error_def no_effect_def split: option.splits if_splits)

text \<open>The statement took effect at most once, at an instant between the two clocks.\<close>

definition ran_once :: "'a stmt \<Rightarrow> ('a option, tables) call \<Rightarrow> gerr option \<Rightarrow> ('a option, tables) call \<Rightarrow> bool" where
  "ran_once st c err c' \<longleftrightarrow>
     (\<exists>now. clock c \<le> now \<and> now \<le> clock c' \<and>
        (case err of
           None \<Rightarrow> \<exists>x. captured c' = Some x \<and> st now (remote c) = (Inr x, remote c')
         | Some e \<Rightarrow> remote c' = remote c \<or> remote c' = snd (st now (remote c))))"

lemma ran_onceI:
  assumes "clock c \<le> now" and "now \<le> clock c'"
    and "err = None \<Longrightarrow> \<exists>x. captured c' = Some x \<and> st now (remote c) = (Inr x, remote c')"
    and "err \<noteq> None \<Longrightarrow> remote c' = remote c \<or> remote c' = snd (st now (remote c))"
  shows "ran_once st c err c'"
  unfolding ran_once_def using assms by (intro exI [of _ now]) (auto split: option.splits)

lemma captured_log_retry [simp]:
  "captured (c\<lparr>clock := t\<rparr>) = captured c" "remote (c\<lparr>clock := t\<rparr>) = remote c" by simp_all

lemma run_op_stmt:
  assumes "pgx_stmt safe st f" and "run_op f ctx c = (err, c1)"
  shows "ran_once st c err c1"
    and "is_transient_conn_error safe err \<Longrightarrow> remote c1 = remote c"
    and "clock c \<le> clock c1"
proof -
  obtain r tabs' t' where f: "f ctx (clock c) (remote c) = ((r, err), tabs', t')"
    and c1: "c1 = c\<lparr>clock := t', captured := r, remote := tabs'\<rparr>"
    using assms(2) by (auto simp: run_op_def split: prod.splits)
  from assms(1) f obtain now where now: "clock c \<le> now" "now \<le> t'"
    and o: "case err of None \<Rightarrow> \<exists>x. r = Some x \<and> st now (remote c) = (Inr x, tabs')
      | Some e \<Rightarrow> tabs' = remote c \<or> \<not> no_effect safe e \<and> tabs' = snd (st now (remote c))"
    unfolding pgx_stmt_def by blast
  show "ran_once st c err c1"
    by (rule ran_onceI [of _ now]) (use now o c1 in \<open>auto split: option.splits\<close>)
  show "clock c \<le> clock c1" using now c1 by simp
  assume "is_transient_conn_error safe err"
  with o c1 show "remote c1 = remote c"
    by (cases err) (auto simp: is_transient_conn_error_def [of _ None] dest: transient_no_effect)
qed

lemma sleep_forward: "sleep_with_budget rt ctx b D now = (go, t) \<Longrightarrow> 0 \<le> b \<Longrightarrow> now \<le> t"
  by (auto simp: sleep_with_budget_def Let_def split: if_splits option.splits)

text \<open>A round that changes nothing in front of a run, and one behind it.\<close>

lemma ran_once_later:
  assumes "ran_once st c err c'" and "remote c = remote c0" and "clock c0 \<le> clock c"
  shows "ran_once st c0 err c'"
proof -
  from assms(1) obtain now where "clock c \<le> now" "now \<le> clock c'"
    "case err of None \<Rightarrow> \<exists>x. captured c' = Some x \<and> st now (remote c) = (Inr x, remote c')
     | Some e \<Rightarrow> remote c' = remote c \<or> remote c' = snd (st now (remote c))"
    unfolding ran_once_def by blast
  with assms(2,3) show ?thesis by (intro ran_onceI [of _ now]) (auto split: option.splits)
qed

lemma ran_once_longer:
  assumes "ran_once st c err c1" and "remote c' = remote c1" and "captured c' = captured c1"
    and "clock c1 \<le> clock c'"
  shows "ran_once st c err c'"
proof -
  from assms(1) obtain now where "clock c \<le> now" "now \<le> clock c1"
    "case err of None \<Rightarrow> \<exists>x. captured c1 = Some x \<and> st now (remote c) = (Inr x, remote c1)
     | Some e \<Rightarrow> remote c1 = remote c \<or> remote c1 = snd (st now (remote c))"
    unfolding ran_once_def by blast
  with assms(2-4) show ?thesis by (intro ran_onceI [of _ now]) (auto split: option.splits)
qed

lemma retry_loop_once:
  assumes "retry_loop safe rt op f ctx D k b err0 c = (err, c')" and "k \<le> max_attempts"
    and st: "pgx_stmt safe st f"
  shows "0 \<le> b \<longrightarrow> ran_once st c err c'"
  using assms(1,2)
proof (induction rule: retry_loop_induct)
  case (success k b c c1)
  from run_op_stmt(1) [OF st success(2)] show ?case by (auto intro: ran_once_longer)
next
  case (fatal k b c e c1)
  from run_op_stmt(1) [OF st fatal(2)] show ?case by simp
next
  case (capped b c e c1)
  from run_op_stmt(1) [OF st capped(1)] show ?case by (auto intro: ran_once_longer)
next
  case (timeout k b c e c1 t)
  from run_op_stmt(1) [OF st timeout(1)] sleep_forward [OF timeout(4)] show ?case
    by (auto intro: ran_once_longer)
next
  case (again k b c e c1 t err c')
  note one = run_op_stmt(2,3) [OF st again(1)]
  show ?case
  proof
    assume b: "0 \<le> b"
    with again(5) have "ran_once st ((log_retry (RetryAttempt op k b e) c1)\<lparr>clock := t\<rparr>) err c'" by simp
    then show "ran_once st c err c'"
      by (rule ran_once_later) (use one again(2) sleep_forward [OF again(4) b] in auto)
  qed
qed

section \<open>Refinement\<close>

text \<open>A world in which the next round trip takes \<open>d\<close> and meets the fault \<open>fl\<close>.\<close>

definition scripted :: "nat \<Rightarrow> fault \<Rightarrow> world \<Rightarrow> world" where
  "scripted d fl w = w\<lparr>w_script := [(d, fl)]\<rparr>"

lemma exec_scripted:
  "exec_stmt k st (scripted d fl w) = (r, w') \<Longrightarrow>
     (r, w_tabs w') = (case fl of
        FailBefore e \<Rightarrow> (Inl e, w_tabs w)
      | FailAfter e \<Rightarrow> (Inl e, snd (st (w_db w + int d) (w_tabs w)))
      | NoFault \<Rightarrow> st (w_db w + int d) (w_tabs w))"
  by (auto simp: exec_stmt_def scripted_def next_fault_def Let_def split: fault.splits prod.splits)

text \<open>C24: \<^verbatim>\<open>Exec\<close> through the retrying pool is a single round trip.  Whatever the pool does inside, however
  often it dials, sleeps and gives up, its answer and the tables it leaves are those of one
  \<open>exec_stmt\<close> under some fault and some delay that ends before the call returns: the statement has taken
  effect exactly once when the answer is a result, and at most once when it is an error.  Of pgx it is
  only assumed which errors had no effect; that the code repeats a statement after these only is part of
  the proof.\<close>

theorem pool_call_refines_statement:
  assumes "pgx_stmt safe st f"
    and "pool_exec safe rt f None ctx now (w_tabs w) = ((r, err), ctx', c')" and "w_db w = now"
  shows "\<exists>d fl res w'. exec_stmt k st (scripted d fl w) = (res, w') \<and> w_tabs w' = remote c' \<and>
    now + int d \<le> clock c' \<and>
    (case err of None \<Rightarrow> \<exists>x. r = Some x \<and> res = Inr x | Some e \<Rightarrow> res = Inl e)"
proof -
  let ?c = "\<lparr>clock = now, captured = None, remote = w_tabs w, retry_log = []\<rparr>"
  note call = assms(2) [unfolded pool_exec_def]
  obtain ctx1 D where loop: "retry_loop safe rt ''exec'' f ctx1 D 1 base_backoff None ?c = (err, c')"
    by (rule pool_call_loop [OF call])
  have "ran_once st ?c err c'"
    using retry_loop_once [OF loop _ assms(1)]
    by (simp add: max_attempts_def base_backoff_def duration_defs)
  then obtain t where t: "now \<le> t" "t \<le> clock c'"
    and o: "case err of None \<Rightarrow> \<exists>x. captured c' = Some x \<and> st t (w_tabs w) = (Inr x, remote c')
      | Some e \<Rightarrow> remote c' = w_tabs w \<or> remote c' = snd (st t (w_tabs w))"
    by (cases err) (auto simp: ran_once_def)
  define d where "d = nat (t - now)"
  define fl where "fl = (case err of None \<Rightarrow> NoFault
    | Some e \<Rightarrow> if remote c' = w_tabs w then FailBefore e else FailAfter e)"
  obtain res w' where x: "exec_stmt k st (scripted d fl w) = (res, w')"
    by (cases "exec_stmt k st (scripted d fl w)")
  have "w_db w + int d = t" using t(1) assms(3) by (simp add: d_def)
  with exec_scripted [OF x] o pool_call_unfold(2) [OF call]
  have "w_tabs w' = remote c' \<and>
      (case err of None \<Rightarrow> \<exists>x. r = Some x \<and> res = Inr x | Some e \<Rightarrow> res = Inl e)"
    by (auto simp: fl_def split: option.splits if_splits)
  with x t show ?thesis by (intro exI [of _ d]) (auto simp: d_def)
qed

text \<open>A compute that refuses the connection for the first 60 ms.\<close>

definition dozing :: "'a stmt \<Rightarrow> ('a option, tables) pgx_op" where
  "dozing st ctx t tabs =
     (if t < 60 * millisecond then ((None, Some (ConnectError (ErrMsg ''refused''))), tabs, t + 50 * millisecond)
      else (case st t tabs of
          (Inr x, tabs') \<Rightarrow> ((Some x, None), tabs', t + 50 * millisecond)
        | (Inl e, tabs') \<Rightarrow> ((None, Some e), tabs, t + 50 * millisecond)))"

lemma dozing_stmt: "pgx_stmt safe st (dozing st)"
  unfolding pgx_stmt_def dozing_def
  by (auto simp: duration_defs split: if_splits prod.splits sum.splits)

theorem pool_call_refines_statement_witness:
  "\<exists>r err ctx' c' d fl res w'.
     pool_exec unsafe exact_runtime (dozing (set_user_lock bob_id 0 None)) None background 0 toy_tables =
       ((r, err), ctx', c') \<and>
     exec_stmt (WUpdate ''SetUserLock'') (set_user_lock bob_id 0 None) (scripted d fl (quiet_world toy_tables 0)) =
       (res, w') \<and> w_tabs w' = remote c'"
proof -
  let ?st = "set_user_lock bob_id 0 None"
  obtain r err ctx' c' where p: "pool_exec unsafe exact_runtime (dozing ?st) None background 0 toy_tables =
      ((r, err), ctx', c')"
    by (metis prod.collapse)
  then have "pool_exec unsafe exact_runtime (dozing ?st) None background 0
      (w_tabs (quiet_world toy_tables 0)) = ((r, err), ctx', c')"
    by simp
  from pool_call_refines_statement [OF dozing_stmt this, of "WUpdate ''SetUserLock''"] p show ?thesis
    by auto
qed

end
