(* ===== verification/Pool.thy ===== *)
theory Pool
  imports GoFmt
begin

text \<open>
  \<^verbatim>\<open>internal/platform/db/pool.go\<close>: the sizing of the connection pool.  \<^verbatim>\<open>NewPool\<close> first looks into
  the connection string for an explicit \<^verbatim>\<open>pool_max_conns\<close>, so the part of \<^verbatim>\<open>net/url\<close> and
  \<^verbatim>\<open>strings.Fields\<close> it uses is modelled here too; the validity of an IP literal between brackets
  is the parameter \<open>ip_ok\<close>, and the parser and constructor of pgxpool are parameters.
\<close>

section \<open>\<^verbatim>\<open>strings.Fields\<close>\<close>

definition flush_field :: "string \<Rightarrow> string list" where
  "flush_field cur = (if cur = [] then [] else [rev cur])"

fun fields_from :: "nat \<Rightarrow> string \<Rightarrow> string \<Rightarrow> string list" where
  "fields_from 0 cur s = flush_field cur"
| "fields_from (Suc n) cur s =
     (case strip_one space_seqs s of
        Some r \<Rightarrow> flush_field cur @ fields_from n [] r
      | None \<Rightarrow>
          (case s of [] \<Rightarrow> flush_field cur | c # r \<Rightarrow> fields_from n (c # cur) r))"

text \<open>Every round consumes a byte, the last one sees the end.\<close>

definition str_fields :: "string \<Rightarrow> string list" where
  "str_fields s = fields_from (Suc (length s)) [] s"

section \<open>\<^verbatim>\<open>url.Parse\<close> and \<^verbatim>\<open>URL.Query\<close>\<close>

definition is_letter :: "char \<Rightarrow> bool" where
  "is_letter c \<longleftrightarrow> 97 \<le> ord c \<and> ord c \<le> 122 \<or> 65 \<le> ord c \<and> ord c \<le> 90"

definition is_digit :: "char \<Rightarrow> bool" where
  "is_digit c \<longleftrightarrow> 48 \<le> ord c \<and> ord c \<le> 57"

definition is_hex :: "char \<Rightarrow> bool" where
  "is_hex c \<longleftrightarrow> is_digit c \<or> 97 \<le> ord c \<and> ord c \<le> 102 \<or> 65 \<le> ord c \<and> ord c \<le> 70"

definition unhex :: "char \<Rightarrow> nat" where
  "unhex c =
     (if is_digit c then ord c - 48
      else if 97 \<le> ord c \<and> ord c \<le> 102 then ord c - 87 else ord c - 55)"

text \<open>\<^verbatim>\<open>getScheme\<close>: an error, no scheme, or a scheme and the rest; \<open>seen\<close> is what was read.\<close>

fun get_scheme :: "string \<Rightarrow> string \<Rightarrow> (string \<times> string) option" where
  "get_scheme seen [] = Some ([], rev seen)"
| "get_scheme seen (c # r) =
     (if is_letter c then get_scheme (c # seen) r
      else if is_digit c \<or> c = CHR ''+'' \<or> c = CHR ''-'' \<or> c = CHR ''.'' then
        (if seen = [] then Some ([], c # r) else get_scheme (c # seen) r)
      else if c = CHR '':'' then (if seen = [] then None else Some (rev seen, r))
      else Some ([], rev seen @ c # r))"

text \<open>\<^verbatim>\<open>url_unescape\<close> by where the text stands: percent escapes decoded, plus signs only in a query.\<close>

datatype url_part = InPath | InHost | InUser | InQuery | InFragment

definition host_char :: "char \<Rightarrow> bool" where
  "host_char c \<longleftrightarrow>
     128 \<le> ord c \<or> is_letter c \<or> is_digit c \<or>
     c \<in> set ''-_.~!$&()*+,;=:[]<>'' \<or> ord c = 34 \<or> ord c = 39"

fun url_unescape :: "url_part \<Rightarrow> string \<Rightarrow> string option" where
  "url_unescape m [] = Some []"
| "url_unescape m (c # r) =
     (if c = CHR ''%'' then
        (case r of
           a # b # s \<Rightarrow>
             if \<not> is_hex a \<or> \<not> is_hex b then None
             else if m = InHost \<and> unhex a < 8 \<and> \<not> (a = CHR ''2'' \<and> b = CHR ''5'') then None
             else map_option (Cons (chr (16 * unhex a + unhex b))) (url_unescape m s)
         | _ \<Rightarrow> None)
      else if m = InHost \<and> \<not> host_char c then None
      else map_option (Cons (if c = CHR ''+'' \<and> m = InQuery then CHR '' '' else c)) (url_unescape m r))"

definition valid_optional_port :: "string \<Rightarrow> bool" where
  "valid_optional_port p \<longleftrightarrow>
     (case p of [] \<Rightarrow> True | c # r \<Rightarrow> c = CHR '':'' \<and> list_all is_digit r)"

text \<open>What follows the last colon is the port, when there is a colon.\<close>

definition host_port :: "string \<Rightarrow> string" where
  "host_port h =
     (case cut_on (CHR '':'') (rev h) of None \<Rightarrow> [] | Some (p, _) \<Rightarrow> CHR '':'' # rev p)"

definition host_valid :: "(string \<Rightarrow> bool) \<Rightarrow> string \<Rightarrow> bool" where
  "host_valid ip_ok h \<longleftrightarrow>
     (if CHR ''['' \<in> set h then ip_ok h
      else valid_optional_port (host_port h) \<and> url_unescape InHost h \<noteq> None)"

definition userinfo_char :: "char \<Rightarrow> bool" where
  "userinfo_char c \<longleftrightarrow>
     is_letter c \<or> is_digit c \<or> c \<in> set ''-._:~!$&()*+,;=%@'' \<or> ord c = 39"

definition authority_valid :: "(string \<Rightarrow> bool) \<Rightarrow> string \<Rightarrow> bool" where
  "authority_valid ip_ok a \<longleftrightarrow>
     (case cut_on (CHR ''@'') (rev a) of
        None \<Rightarrow> host_valid ip_ok a
      | Some (h, u) \<Rightarrow>
          host_valid ip_ok (rev h) \<and> list_all userinfo_char (rev u) \<and>
          (case cut_on (CHR '':'') (rev u) of
             None \<Rightarrow> url_unescape InUser (rev u) \<noteq> None
           | Some (name, pw) \<Rightarrow> url_unescape InUser name \<noteq> None \<and> url_unescape InUser pw \<noteq> None))"

definition before :: "char \<Rightarrow> string \<Rightarrow> string \<times> string" where
  "before c s = (case cut_on c s of None \<Rightarrow> (s, []) | Some ab \<Rightarrow> ab)"

text \<open>The authority and path of what stands between scheme and query.\<close>

definition hier_valid :: "(string \<Rightarrow> bool) \<Rightarrow> string \<Rightarrow> string \<Rightarrow> bool" where
  "hier_valid ip_ok scheme rest \<longleftrightarrow>
     (if \<not> has_prefix ''/'' rest then
        scheme \<noteq> [] \<or>
        (CHR '':'' \<notin> set (fst (before (CHR ''/'') rest)) \<and> url_unescape InPath rest \<noteq> None)
      else if (scheme \<noteq> [] \<or> \<not> has_prefix ''///'' rest) \<and> has_prefix ''//'' rest then
        (case cut_on (CHR ''/'') (drop 2 rest) of
           None \<Rightarrow> authority_valid ip_ok (drop 2 rest)
         | Some (a, p) \<Rightarrow> authority_valid ip_ok a \<and> url_unescape InPath (CHR ''/'' # p) \<noteq> None)
      else url_unescape InPath rest \<noteq> None)"

text \<open>\<^verbatim>\<open>url.Parse\<close>, of which the program uses the scheme and the raw query.\<close>

definition url_parse :: "(string \<Rightarrow> bool) \<Rightarrow> string \<Rightarrow> (string \<times> string) option" where
  "url_parse ip_ok raw =
     (let (u, frag) = before (CHR ''#'') raw in
      if list_ex (\<lambda>c. ord c < 32 \<or> ord c = 127) u then None
      else if u = ''*'' then (if url_unescape InFragment frag = None then None else Some ([], []))
      else (case get_scheme [] u of
          None \<Rightarrow> None
        | Some (scheme, rest0) \<Rightarrow>
            let (rest, query) = before (CHR ''?'') rest0 in
            if hier_valid ip_ok scheme rest \<and> url_unescape InFragment frag \<noteq> None
            then Some (map ascii_lower scheme, query) else None))"

text \<open>\<^verbatim>\<open>u.Query().Has(key)\<close>: pairs with a semicolon or a bad escape are dropped.\<close>

definition query_has :: "string \<Rightarrow> string \<Rightarrow> bool" where
  "query_has key query \<longleftrightarrow>
     list_ex (\<lambda>pair. pair \<noteq> [] \<and> CHR '';'' \<notin> set pair \<and>
        (case before (CHR ''='') pair of
           (k, v) \<Rightarrow> url_unescape InQuery k = Some key \<and> url_unescape InQuery v \<noteq> None))
       (split_on (CHR ''&'') query)"

section \<open>The pool\<close>

definition default_max_conns :: int where "default_max_conns = 5"
definition max_conns_ceiling :: int where "max_conns_ceiling = 20"

definition max_conns_key :: string where "max_conns_key = ''pool_max_conns''"

definition dsn_has_max_conns :: "(string \<Rightarrow> bool) \<Rightarrow> string \<Rightarrow> bool" where
  "dsn_has_max_conns ip_ok dsn \<longleftrightarrow>
     (case url_parse ip_ok dsn of
        Some (scheme, query) \<Rightarrow>
          if scheme \<noteq> [] then query_has max_conns_key query
          else list_ex (\<lambda>f. map_option fst (cut_on (CHR ''='') f) = Some max_conns_key) (str_fields dsn)
      | None \<Rightarrow>
          list_ex (\<lambda>f. map_option fst (cut_on (CHR ''='') f) = Some max_conns_key) (str_fields dsn))"

text \<open>The fields of \<^verbatim>\<open>pgxpool.Config\<close> that the policy writes; \<^verbatim>\<open>int32\<close> values, only compared and
  assigned.\<close>

record pool_config =
  max_conns :: int
  min_conns :: int
  min_idle_conns :: int

definition apply_policy :: "bool \<Rightarrow> pool_config \<Rightarrow> pool_config" where
  "apply_policy explicit cfg =
     (let n = (if explicit then max_conns cfg else default_max_conns);
          m = (if max_conns_ceiling < n then max_conns_ceiling else n)
      in cfg\<lparr>max_conns := m, min_conns := 0, min_idle_conns := 0\<rparr>)"

text \<open>\<open>parse_config\<close> and \<open>new_with_config\<close> are pgxpool's.\<close>

definition new_pool ::
  "(string \<Rightarrow> bool) \<Rightarrow> (string \<Rightarrow> gerr + pool_config) \<Rightarrow> (pool_config \<Rightarrow> gerr + 'pool) \<Rightarrow> string \<Rightarrow>
     gerr + 'pool" where
  "new_pool ip_ok parse_config new_with_config dsn =
     (let explicit = dsn_has_max_conns ip_ok dsn in
      case parse_config dsn of
        Inl e \<Rightarrow> Inl (Wrapped ''db: parse pool config: '' e)
      | Inr cfg \<Rightarrow>
          (case new_with_config (apply_policy explicit cfg) of
             Inl e \<Rightarrow> Inl (Wrapped ''db: build pool: '' e)
           | Inr pool \<Rightarrow> Inr pool))"

definition new_retry_pool ::
  "(string \<Rightarrow> bool) \<Rightarrow> (string \<Rightarrow> gerr + pool_config) \<Rightarrow> (pool_config \<Rightarrow> gerr + 'pool) \<Rightarrow> string \<Rightarrow>
     gerr + 'pool" where
  "new_retry_pool ip_ok parse_config new_with_config dsn =
     (case new_pool ip_ok parse_config new_with_config dsn of
        Inl e \<Rightarrow> Inl e
      | Inr pool \<Rightarrow> Inr pool)"

text \<open>\<^verbatim>\<open>Smoke\<close> of \<^verbatim>\<open>db.go\<close>: the error, and the connection that is closed on return, if one was opened.
  \<open>connect\<close> and \<open>select_one\<close> are pgx's.\<close>

definition smoke :: "(string \<Rightarrow> gerr + 'conn) \<Rightarrow> ('conn \<Rightarrow> gerr option) \<Rightarrow> string \<Rightarrow> gerr option \<times> 'conn option" where
  "smoke connect select_one dsn =
     (case connect dsn of
        Inl e \<Rightarrow> (Some e, None)
      | Inr conn \<Rightarrow> (select_one conn, Some conn))"

section \<open>What the detection sees\<close>

lemma strip_one_graphic: "graphic c \<Longrightarrow> strip_one space_seqs (c # s) = None"
  unfolding strip_one_def
  by (subst find_None_all [THEN iffD2]) (auto simp: space_seqs_def graphic_def)

lemma strip_one_blank: "strip_one space_seqs (CHR '' '' # s) = Some s"
  by (simp add: strip_one_def space_seqs_def)

lemma strip_one_nil: "strip_one space_seqs [] = None"
  by (simp add: strip_one_def space_seqs_def)

lemma fields_from_token:
  "list_all graphic t \<Longrightarrow> fields_from (length t + n) cur (t @ s) = fields_from n (rev t @ cur) s"
  by (induction t arbitrary: cur) (simp_all add: strip_one_graphic)

lemma fields_from_join:
  assumes "\<forall>t \<in> set ts. t \<noteq> [] \<and> list_all graphic t"
  shows "fields_from (Suc (length (str_join '' '' ts))) [] (str_join '' '' ts) = ts"
  using assms
proof (induction "'' ''" ts rule: str_join.induct)
  case 1
  then show ?case by (simp add: strip_one_nil flush_field_def)
next
  case (2 t)
  then show ?case
    using fields_from_token [of t 1 "[]" "[]"] by (simp add: strip_one_nil flush_field_def)
next
  case (3 t u r)
  let ?s = "str_join '' '' (u # r)"
  have "fields_from (length t + Suc (Suc (length ?s))) [] (t @ CHR '' '' # ?s) =
      fields_from (Suc (Suc (length ?s))) (rev t) (CHR '' '' # ?s)"
    using 3 fields_from_token [of t "Suc (Suc (length ?s))" "[]"] by simp
  also have "\<dots> = t # (u # r)"
    using 3 by (simp add: strip_one_blank flush_field_def del: str_join.simps)
  finally show ?case by simp
qed

text \<open>A scheme ends at a colon that comes before any other foreign character.\<close>

lemma get_scheme_keyword:
  "list_all (\<lambda>c. c \<noteq> CHR '':'') k \<Longrightarrow>
     \<exists>r. get_scheme seen (k @ CHR ''='' # s) = Some ([], r)"
proof (induction k arbitrary: seen)
  case Nil
  then show ?case by (simp add: is_letter_def is_digit_def)
next
  case (Cons c k)
  then show ?case by (cases "is_letter c") simp_all
qed

definition keyword_dsn :: "(string \<times> string) list \<Rightarrow> string" where
  "keyword_dsn kvs = str_join '' '' (map (\<lambda>(k, v). k @ CHR ''='' # v) kvs)"

lemma url_parse_keyword:
  assumes "kvs \<noteq> []" and "\<forall>(k, v) \<in> set kvs. list_all (\<lambda>c. graphic c \<and> c \<notin> {CHR '':'', CHR ''#'', CHR ''=''}) k"
    and "url_parse ip_ok (keyword_dsn kvs) = Some (scheme, query)"
  shows "scheme = []"
proof -
  obtain k v r where "kvs = (k, v) # r" using assms(1) by (cases kvs) auto
  then obtain s where s: "keyword_dsn kvs = k @ CHR ''='' # s"
    and k: "list_all (\<lambda>c. graphic c \<and> c \<notin> {CHR '':'', CHR ''#'', CHR ''=''}) k"
    using assms(2) by (cases r) (auto simp: keyword_dsn_def)
  have hash: "CHR ''#'' \<notin> set k" using k by (auto simp: list_all_iff)
  have cut: "\<exists>s'. fst (before (CHR ''#'') (k @ CHR ''='' # s)) = k @ CHR ''='' # s'"
    using hash by (induction k) (auto simp: before_def split: option.splits)
  then obtain s' frag where b: "before (CHR ''#'') (keyword_dsn kvs) = (k @ CHR ''='' # s', frag)"
    using s by (metis fst_conv surj_pair)
  have "list_all (\<lambda>c. c \<noteq> CHR '':'') k" using k by (simp add: list_all_iff)
  from get_scheme_keyword [OF this] obtain r where "get_scheme [] (k @ CHR ''='' # s') = Some ([], r)"
    by blast
  with assms(3) b show ?thesis
    by (auto simp: url_parse_def Let_def split: if_splits option.splits prod.splits)
qed

text \<open>In the keyword form, for settings without blanks and quotes, the detection is exact.\<close>

lemma dsn_keyword_exact:
  assumes "kvs \<noteq> []"
    and "\<forall>(k, v) \<in> set kvs. list_all (\<lambda>c. graphic c \<and> c \<notin> {CHR '':'', CHR ''#'', CHR ''=''}) k \<and> list_all graphic v"
  shows "dsn_has_max_conns ip_ok (keyword_dsn kvs) \<longleftrightarrow> max_conns_key \<in> fst ` set kvs"
proof -
  let ?g = "\<lambda>(k, v). k @ CHR ''='' # v"
  let ?p = "\<lambda>f. map_option fst (cut_on (CHR ''='') f) = Some max_conns_key"
  have eq: "graphic (CHR ''='')" by (simp add: graphic_def)
  have "str_fields (keyword_dsn kvs) = map ?g kvs"
    using assms(2) eq unfolding str_fields_def keyword_dsn_def
    by (intro fields_from_join) (fastforce simp: list_all_iff)
  moreover have hit: "?p (?g kv) \<longleftrightarrow> fst kv = max_conns_key" if "kv \<in> set kvs" for kv
  proof -
    have "CHR ''='' \<notin> set (fst kv)" using that assms(2) by (fastforce simp: list_all_iff)
    then show ?thesis by (cases kv) (simp add: cut_on_append)
  qed
  ultimately have "list_ex ?p (str_fields (keyword_dsn kvs)) \<longleftrightarrow> (\<exists>kv \<in> set kvs. fst kv = max_conns_key)"
    by (simp add: list_ex_iff)
  also have "\<dots> \<longleftrightarrow> max_conns_key \<in> fst ` set kvs" by force
  finally have scan: "list_ex ?p (str_fields (keyword_dsn kvs)) \<longleftrightarrow> max_conns_key \<in> fst ` set kvs" .
  have "scheme = []" if "url_parse ip_ok (keyword_dsn kvs) = Some (scheme, query)" for scheme query
    by (rule url_parse_keyword [OF assms(1) _ that]) (use assms(2) in auto)
  with scan show ?thesis
    by (cases "url_parse ip_ok (keyword_dsn kvs)") (auto simp: dsn_has_max_conns_def)
qed

text \<open>Blanks around the equals sign, which the parser of pgx accepts, hide the key; a quoted value
  that contains the key as a word of its own shows one that is not there.\<close>

lemma dsn_spaced_key_missed: "\<not> dsn_has_max_conns ip_ok ''host=h pool_max_conns = 7''"
  by code_simp

lemma dsn_quoted_key_seen:
  "dsn_has_max_conns ip_ok
     (''host=h password='' @ [chr 39] @ ''a pool_max_conns=b'' @ [chr 39])"
  by code_simp

section \<open>The policy\<close>

text \<open>The pool is never built with more than 20 connections per instance nor with a minimum that
  would dial at start-up: whatever the DSN and pgxpool's defaults, a pool is constructed only from
  the parsed configuration with the explicit size (at most 20) or, when the DSN names none, with
  exactly 5, and with both minimums zero; a DSN that pgxpool rejects builds nothing.\<close>

theorem pool_size_bounded:
  assumes "new_pool ip_ok parse_config new_with_config dsn = Inr pool"
  shows "\<exists>cfg cfg'. parse_config dsn = Inr cfg \<and> new_with_config cfg' = Inr pool \<and>
    max_conns cfg' = (if dsn_has_max_conns ip_ok dsn then min (max_conns cfg) 20 else 5) \<and>
    max_conns cfg' \<le> 20 \<and> min_conns cfg' = 0 \<and> min_idle_conns cfg' = 0"
proof -
  obtain cfg where "parse_config dsn = Inr cfg"
    and "new_with_config (apply_policy (dsn_has_max_conns ip_ok dsn) cfg) = Inr pool"
    using assms by (auto simp: new_pool_def Let_def split: sum.splits)
  then show ?thesis
    by (intro exI [of _ cfg] exI [of _ "apply_policy (dsn_has_max_conns ip_ok dsn) cfg"])
       (auto simp: apply_policy_def Let_def default_max_conns_def max_conns_ceiling_def)
qed

text \<open>A parser with pgxpool's default on a machine with 64 processors.\<close>

definition many_cores :: "string \<Rightarrow> gerr + pool_config" where
  "many_cores dsn = Inr \<lparr>max_conns = 64, min_conns = 3, min_idle_conns = 1\<rparr>"

theorem pool_size_bounded_witness:
  "\<exists>cfg'. new_pool (\<lambda>_. True) many_cores Inr ''host=h user=u'' = Inr cfg' \<and> max_conns cfg' = 5 \<and>
     min_conns cfg' = 0"
proof -
  have no: "\<not> dsn_has_max_conns (\<lambda>_. True) ''host=h user=u''" by code_simp
  have "new_pool (\<lambda>_. True) many_cores Inr ''host=h user=u'' =
      Inr (apply_policy False \<lparr>max_conns = 64, min_conns = 3, min_idle_conns = 1\<rparr>)"
    using no by (simp add: new_pool_def many_cores_def)
  from pool_size_bounded [OF this] this no show ?thesis by auto
qed

end
