(* ===== verification/EventSchema.thy ===== *)
theory EventSchema
  imports GoJson
begin

text \<open>
  The two documents under \<^verbatim>\<open>internal/modules/observability/contract\<close>, read as JSON Schema: what
  \<^verbatim>\<open>batch.schema.json\<close> and \<^verbatim>\<open>event.schema.json\<close> accept.  The validator is a library; that it
  accepts exactly these values is what its specification says.  A JSON object reaches it as a map,
  in which the last of several members with one key stays.
\<close>

section \<open>Lengths and numbers\<close>

text \<open>\<^verbatim>\<open>maxLength\<close> counts code points.\<close>

function rune_count :: "string \<Rightarrow> nat" where
  "rune_count s =
     (if s = [] then 0 else Suc (rune_count (drop (max 1 (snd (utf8_decode s))) s)))"
  by pat_completeness auto
termination
  by (relation "measure length") auto

declare rune_count.simps [simp del]

lemma rune_count_Nil [simp]: "rune_count [] = 0"
  by (subst rune_count.simps) simp

lemma rune_count_le: "rune_count s \<le> length s"
proof (induction s rule: rune_count.induct)
  case (1 s)
  show ?case
  proof (cases "s = []")
    case False
    let ?r = "drop (max 1 (snd (utf8_decode s))) s"
    have "length ?r < length s" using False by (cases s) auto
    moreover have "rune_count ?r \<le> length ?r" using 1 False by blast
    ultimately have "Suc (rune_count ?r) \<le> length s" by linarith
    with False show ?thesis by (subst rune_count.simps) (simp only: if_False)
  qed simp
qed

text \<open>A number literal as a decimal mantissa and an exponent of ten.\<close>

definition num_parts :: "string \<Rightarrow> int \<times> int" where
  "num_parts t =
     (let neg = (t \<noteq> [] \<and> hd t = CHR ''-'');
          u = (if neg then tl t else t);
          ip = takeWhile is_digit u;
          r1 = dropWhile is_digit u;
          fp = (if r1 \<noteq> [] \<and> hd r1 = CHR ''.'' then takeWhile is_digit (tl r1) else []);
          r2 = (if r1 \<noteq> [] \<and> hd r1 = CHR ''.'' then dropWhile is_digit (tl r1) else r1);
          x = tl r2;
          e = (if r2 = [] then 0
               else if x \<noteq> [] \<and> hd x = CHR ''-'' then - int (parse_nat (tl x))
               else if x \<noteq> [] \<and> hd x = CHR ''+'' then int (parse_nat (tl x))
               else int (parse_nat x));
          m = int (parse_nat (ip @ fp))
      in ((if neg then - m else m), e - int (length fp)))"

definition num_is_int :: "string \<Rightarrow> bool" where
  "num_is_int t \<longleftrightarrow>
     (case num_parts t of (m, e) \<Rightarrow> m = 0 \<or> 0 \<le> e \<or> m mod 10 ^ nat (- e) = 0)"

definition num_value :: "string \<Rightarrow> int" where
  "num_value t =
     (case num_parts t of (m, e) \<Rightarrow>
        if m = 0 then 0 else if 0 \<le> e then m * 10 ^ nat e else m div 10 ^ nat (- e))"

section \<open>The schemas\<close>

text \<open>The value of a member of an object: the last one wins.\<close>

definition member_of :: "string \<Rightarrow> (string \<times> json) list \<Rightarrow> json option" where
  "member_of k ms = map_of (rev ms) k"

definition event_fields :: "string list" where
  "event_fields =
     [''eventId'', ''kind'', ''traceId'', ''timestampMs'', ''source'', ''name'', ''attributes'']"

definition event_required :: "string list" where
  "event_required = [''eventId'', ''kind'', ''traceId'', ''timestampMs'', ''source'', ''name'']"

definition event_kinds :: "string list" where
  "event_kinds = [''log'', ''crash'', ''telemetry'']"

definition text_ok :: "json \<Rightarrow> bool" where
  "text_ok v \<longleftrightarrow> (case v of JStr s \<Rightarrow> 1 \<le> rune_count s \<and> rune_count s \<le> 128 | _ \<Rightarrow> False)"

definition kind_ok :: "json \<Rightarrow> bool" where
  "kind_ok v \<longleftrightarrow> (case v of JStr s \<Rightarrow> s \<in> set event_kinds | _ \<Rightarrow> False)"

definition timestamp_ok :: "json \<Rightarrow> bool" where
  "timestamp_ok v \<longleftrightarrow>
     (case v of
        JNum t \<Rightarrow> num_is_int t \<and> 0 \<le> num_value t \<and> num_value t \<le> 9223372036854775807
      | _ \<Rightarrow> False)"

definition attribute_ok :: "json \<Rightarrow> bool" where
  "attribute_ok v \<longleftrightarrow>
     (case v of JStr s \<Rightarrow> rune_count s \<le> 1024 | JArr _ \<Rightarrow> False | JObj _ \<Rightarrow> False | _ \<Rightarrow> True)"

definition attributes_ok :: "json \<Rightarrow> bool" where
  "attributes_ok v \<longleftrightarrow>
     (case v of
        JObj ms \<Rightarrow>
          length (remdups (map fst ms)) \<le> 64 \<and>
          list_all (\<lambda>k. rune_count k \<le> 128 \<and>
            (case member_of k ms of None \<Rightarrow> True | Some x \<Rightarrow> attribute_ok x)) (map fst ms)
      | _ \<Rightarrow> False)"

definition event_field_ok :: "string \<Rightarrow> json \<Rightarrow> bool" where
  "event_field_ok k v \<longleftrightarrow>
     (if k = ''kind'' then kind_ok v
      else if k = ''timestampMs'' then timestamp_ok v
      else if k = ''attributes'' then attributes_ok v
      else text_ok v)"

definition event_ok :: "json \<Rightarrow> bool" where
  "event_ok v \<longleftrightarrow>
     (case v of
        JObj ms \<Rightarrow>
          list_all (\<lambda>k. k \<in> set event_fields) (map fst ms) \<and>
          list_all (\<lambda>k. k \<in> set (map fst ms)) event_required \<and>
          list_all (\<lambda>k. case member_of k ms of None \<Rightarrow> True | Some x \<Rightarrow> event_field_ok k x) event_fields
      | _ \<Rightarrow> False)"

definition batch_ok :: "json \<Rightarrow> bool" where
  "batch_ok v \<longleftrightarrow> (case v of JArr xs \<Rightarrow> 1 \<le> length xs \<and> length xs \<le> 500 | _ \<Rightarrow> False)"

end
