(* ===== verification/Ingest.thy ===== *)
theory Ingest
  imports EventStore EventSchema Wire
begin

text \<open>
  \<^verbatim>\<open>internal/modules/observability/events.go\<close> and \<^verbatim>\<open>handler.go\<close>: the handler of
  \<^verbatim>\<open>POST /v1/events\<close>, from the rate-limit seam over the pure screening of the body (\<open>ingest_screen\<close>)
  to the transaction and the answer.  The JSON Schema library is the parameter \<open>ingest_lib\<close>.
\<close>

section \<open>The handler\<close>

type_synonym obs_rate_limiter = "string \<Rightarrow> world \<Rightarrow> (bool \<times> duration) \<times> world"

definition obs_noop_rate_limiter :: obs_rate_limiter where
  "obs_noop_rate_limiter key w = ((True, 0), w)"

record obs_handler =
  oh_store :: event_store
  oh_limiter :: obs_rate_limiter

definition new_obs_handler :: "(insert_event_params \<Rightarrow> gerr option) \<Rightarrow> obs_handler" where
  "new_obs_handler refuses =
     \<lparr>oh_store = db_event_store refuses, oh_limiter = obs_noop_rate_limiter\<rparr>"

text \<open>\<^verbatim>\<open>jsonschema.UnmarshalJSON\<close> and \<^verbatim>\<open>Validate\<close> of the two compiled schemas.\<close>

record ingest_lib =
  il_unmarshal :: "string \<Rightarrow> json option"
  il_batch_ok :: "json \<Rightarrow> bool"
  il_event_ok :: "json \<Rightarrow> bool"

definition max_request_bytes :: nat where "max_request_bytes = 1048576"
definition max_batch_size :: nat where "max_batch_size = 500"

definition code_payload_too_large :: string where "code_payload_too_large = ''payload_too_large''"
definition code_rate_limited :: string where "code_rate_limited = ''rate_limited''"
definition obs_code_bad_request :: string where "obs_code_bad_request = ''bad_request''"
definition obs_code_internal :: string where "obs_code_internal = ''internal''"

definition rejection_message :: "nat \<Rightarrow> nat \<Rightarrow> string" where
  "rejection_message rejected n =
     ''schema validation failed: '' @ itoa rejected @ '' of '' @ itoa n @ '' events rejected''"

text \<open>\<^verbatim>\<open>readBody\<close> behind \<^verbatim>\<open>http.MaxBytesReader\<close>.\<close>

definition read_body :: "body \<Rightarrow> gerr + string" where
  "read_body b = (case b_err b of Some e \<Rightarrow> Inl e | None \<Rightarrow> Inr (b_data b))"

text \<open>Steps (1) to (4): the response of a body that is turned down, or the rows to land.\<close>

definition ingest_screen ::
  "ingest_lib \<Rightarrow> string \<Rightarrow> body \<Rightarrow> response + insert_event_params list" where
  "ingest_screen lib rid b =
     (let bad = (\<lambda>m. Inl (obs_write_error 400 obs_code_bad_request m rid));
          large = (\<lambda>m. Inl (obs_write_error 413 code_payload_too_large m rid)) in
      case read_body (max_bytes_reader max_request_bytes b) of
        Inl e \<Rightarrow>
          if err_is MaxBytesError e then large ''request body too large''
          else bad ''invalid request body''
      | Inr raw \<Rightarrow>
          (case il_unmarshal lib raw of
             None \<Rightarrow> bad ''invalid request body''
           | Some inst \<Rightarrow>
               if (case inst of JArr xs \<Rightarrow> max_batch_size < length xs | _ \<Rightarrow> False)
               then large ''too many events in batch''
               else if \<not> il_batch_ok lib inst then bad ''invalid event batch''
               else (case inst of
                   JArr xs \<Rightarrow>
                     if xs = [] then bad ''invalid event batch''
                     else let rejected = length (filter (\<lambda>e. \<not> il_event_ok lib e) xs) in
                       if 0 < rejected then bad (rejection_message rejected (length xs))
                       else (case build_rows raw of
                           None \<Rightarrow> bad ''invalid event values''
                         | Some rows \<Rightarrow> Inr rows)
                 | _ \<Rightarrow> bad ''invalid event batch'')))"

record ingest_response =
  ir_accepted :: int
  ir_duplicate :: int
  ir_rejected :: int
  ir_request_id :: string

definition marshal_ingest :: "ingest_response \<Rightarrow> string" where
  "marshal_ingest r =
     ''{'' @ json_field ''accepted'' (itoa_int (ir_accepted r))
     @ '','' @ json_field ''duplicate'' (itoa_int (ir_duplicate r))
     @ '','' @ json_field ''rejected'' (itoa_int (ir_rejected r))
     @ '','' @ json_field ''requestId'' (json_quote (ir_request_id r)) @ ''}''"

definition ingest_ok :: "ingest_response \<Rightarrow> response" where
  "ingest_ok r =
     \<lparr>rsp_status = 200, rsp_headers = content_type_json, rsp_body = marshal_ingest r @ [CHR 0x0A]\<rparr>"

definition ingested :: "int \<Rightarrow> nat \<Rightarrow> string \<Rightarrow> ingest_response" where
  "ingested accepted n rid =
     \<lparr>ir_accepted = accepted, ir_duplicate = int n - accepted, ir_rejected = 0,
      ir_request_id = rid\<rparr>"

text \<open>\<^verbatim>\<open>math.Ceil(retryAfter.Seconds())\<close>, exact for the hints a float64 holds to the nanosecond
  (48 days).\<close>

definition retry_after_seconds :: "duration \<Rightarrow> int" where
  "retry_after_seconds d = - ((- d) div second)"

definition rate_limited :: "duration \<Rightarrow> string \<Rightarrow> response" where
  "rate_limited d rid =
     (let r = obs_write_error 429 code_rate_limited ''rate limited'' rid in
      if 0 < d
      then r\<lparr>rsp_headers := (''Retry-After'', itoa_int (retry_after_seconds d)) # rsp_headers r\<rparr>
      else r)"

definition ingest ::
  "ingest_lib \<Rightarrow> obs_handler \<Rightarrow> string \<Rightarrow> string \<Rightarrow> body \<Rightarrow> world \<Rightarrow> response \<times> world" where
  "ingest lib h path rid b w =
     (case oh_limiter h path w of
        ((allowed, retry_after), w1) \<Rightarrow>
          if \<not> allowed then (rate_limited retry_after rid, w1)
          else (case ingest_screen lib rid b of
              Inl rsp \<Rightarrow> (rsp, w1)
            | Inr rows \<Rightarrow>
                (case es_insert_batch (oh_store h) rows w1 of
                   (Inl e, w2) \<Rightarrow>
                     (obs_write_error 500 obs_code_internal ''internal server error'' rid, w2)
                 | (Inr n, w2) \<Rightarrow>
                     let r = ingested n (length rows) rid in
                     (ingest_ok r,
                      emit (LogEventsIngested rid (int (length rows)) (ir_accepted r)
                              (ir_duplicate r) (ir_rejected r)) w2))))"

section \<open>What the screening lets through\<close>

lemma obs_write_error_status [simp]: "rsp_status (obs_write_error s c m rid) = s"
  by (simp add: obs_write_error_def)

lemma ingest_ok_status [simp]: "rsp_status (ingest_ok r) = 200"
  by (simp add: ingest_ok_def)

lemma screen_Inl:
  "ingest_screen lib rid b = Inl rsp \<Longrightarrow> rsp_status rsp = 400 \<or> rsp_status rsp = 413"
  by (auto simp: ingest_screen_def Let_def split: sum.splits option.splits json.splits if_splits)

lemma read_body_Inr:
  "read_body (max_bytes_reader n b) = Inr raw \<Longrightarrow> raw = b_data b \<and> length raw \<le> n \<and> b_err b = None"
  by (auto simp: read_body_def max_bytes_reader_def split: option.splits if_splits)

lemma screen_Inr:
  assumes "ingest_screen lib rid b = Inr rows"
  obtains xs where "length (b_data b) \<le> max_request_bytes" and "b_err b = None"
    and "il_unmarshal lib (b_data b) = Some (JArr xs)" and "il_batch_ok lib (JArr xs)"
    and "list_all (il_event_ok lib) xs" and "xs \<noteq> []" and "length xs \<le> max_batch_size"
    and "build_rows (b_data b) = Some rows"
proof -
  obtain raw where r: "read_body (max_bytes_reader max_request_bytes b) = Inr raw"
    using assms by (auto simp: ingest_screen_def Let_def split: sum.splits if_splits)
  note rb = read_body_Inr [OF r]
  obtain inst where u: "il_unmarshal lib raw = Some inst"
    using assms r by (auto simp: ingest_screen_def Let_def split: option.splits)
  then obtain xs where x: "inst = JArr xs"
    using assms r by (cases inst) (auto simp: ingest_screen_def Let_def split: if_splits)
  then have ok: "\<not> max_batch_size < length xs" "il_batch_ok lib (JArr xs)" "xs \<noteq> []"
    "filter (\<lambda>e. \<not> il_event_ok lib e) xs = []" "build_rows raw = Some rows"
    using assms r u by (auto simp: ingest_screen_def Let_def split: if_splits option.splits)
  have "list_all (il_event_ok lib) xs"
    using ok(4) by (auto simp: filter_empty_conv list_all_iff)
  with that rb u x ok show thesis by auto
qed

section \<open>The handler over any store that keeps the contract\<close>

context batch_store
begin

lemma ingest_cases:
  assumes "oh_store h = st" and "oh_limiter h = obs_noop_rate_limiter"
    and "ingest lib h path rid b w = (rsp, w')"
  obtains (refused) "ingest_screen lib rid b = Inl rsp" and "w' = w"
  | (failed) rows e where "ingest_screen lib rid b = Inr rows"
      and "es_insert_batch st rows w = (Inl e, w')"
      and "rsp = obs_write_error 500 obs_code_internal ''internal server error'' rid"
  | (landed) rows n w2 where "ingest_screen lib rid b = Inr rows"
      and "es_insert_batch st rows w = (Inr n, w2)" and "rsp = ingest_ok (ingested n (length rows) rid)"
      and "w' = emit (LogEventsIngested rid (int (length rows)) n (int (length rows) - n) 0) w2"
proof (cases "ingest_screen lib rid b")
  case (Inl r)
  with assms that(1) show thesis by (auto simp: ingest_def obs_noop_rate_limiter_def)
next
  case (Inr rows)
  obtain r w2 where "es_insert_batch st rows w = (r, w2)" by (cases "es_insert_batch st rows w")
  with Inr assms that(2,3) show thesis
    by (cases r) (auto simp: ingest_def obs_noop_rate_limiter_def Let_def ingested_def)
qed

text \<open>Whatever happens, the events are as before or the whole batch of the body has landed.\<close>

lemma ingest_tables:
  assumes "oh_store h = st" and "oh_limiter h = obs_noop_rate_limiter"
    and "ingest lib h path rid b w = (rsp, w')"
  shows "w_tabs w' = w_tabs w \<or>
    (\<exists>rows now. ingest_screen lib rid b = Inr rows \<and> w_tabs w' = landed now rows (w_tabs w))"
  using assms
proof (cases rule: ingest_cases)
  case (failed rows e)
  with batch_outcome [OF failed(2)] show ?thesis by auto
next
  case (landed rows n w2)
  with batch_answered [OF landed(2)] show ?thesis by auto
qed auto

lemma ingest_unique:
  assumes "oh_store h = st" and "oh_limiter h = obs_noop_rate_limiter"
    and "ingest lib h path rid b w = (rsp, w')" and "distinct (map event_key (events (w_tabs w)))"
  shows "distinct (map event_key (events (w_tabs w')))"
  using ingest_tables [OF assms(1-3)] assms(4) by (auto simp: land_events_distinct)

text \<open>A body that landed, or may have, sent again: the second answer changes nothing that the first
  one landed.\<close>

lemma ingest_resend:
  assumes "oh_store h = st" and "oh_limiter h = obs_noop_rate_limiter"
    and "ingest lib h path rid b w = (rsp, w')" and "ingest lib h path' rid' b w' = (rsp', w'')"
    and "rsp_status rsp' = 200"
  shows "\<exists>rows now. build_rows (b_data b) = Some rows \<and> w_tabs w'' = landed now rows (w_tabs w)"
proof -
  from assms(1,2,4) obtain rows n v where s: "ingest_screen lib rid' b = Inr rows"
    and i: "es_insert_batch st rows w' = (Inr n, v)" and v: "w_tabs w'' = w_tabs v"
  proof (cases rule: ingest_cases)
    case refused
    with assms(5) screen_Inl show thesis by fastforce
  next
    case (failed rows e)
    with assms(5) show thesis by simp
  next
    case (landed rows n v)
    with that show thesis by simp
  qed
  from s have b: "build_rows (b_data b) = Some rows" by (rule screen_Inr)
  from batch_answered [OF i] obtain now where now: "w_tabs v = landed now rows (w_tabs w')" by blast
  from ingest_tables [OF assms(1-3)] show ?thesis
  proof
    assume "w_tabs w' = w_tabs w"
    with b now v show ?thesis by auto
  next
    assume "\<exists>rows' now. ingest_screen lib rid b = Inr rows' \<and> w_tabs w' = landed now rows' (w_tabs w)"
    then obtain rows' now' where s': "ingest_screen lib rid b = Inr rows'"
      and t: "w_tabs w' = landed now' rows' (w_tabs w)" by blast
    from s' have "build_rows (b_data b) = Some rows'" by (rule screen_Inr)
    with b have "rows' = rows" by simp
    with b t now v show ?thesis by (auto simp: landed_again)
  qed
qed

end

lemmas ingest_facts = dbes.ingest_cases dbes.ingest_tables dbes.ingest_unique dbes.ingest_resend

end
