(* ===== verification/IngestSpec.thy ===== *)
theory IngestSpec
  imports Ingest Fixture
begin

text \<open>
  What the ingest endpoint guarantees: every answer tells what happened to the events (all landed,
  none, or, after a lost acknowledgement, either), only batches the schemas accept are landed, a
  batch sent until it is answered lands exactly once, and no event is ever stored twice.
\<close>

section \<open>A library that follows the schemas\<close>

definition model_lib :: ingest_lib where
  "model_lib =
     \<lparr>il_unmarshal = (\<lambda>s. case json_parse s of
          None \<Rightarrow> None
        | Some (v, r) \<Rightarrow> if skip_ws r = [] then Some v else None),
      il_batch_ok = batch_ok, il_event_ok = event_ok\<rparr>"

definition plain :: "string \<Rightarrow> body" where
  "plain s = \<lparr>b_data = s, b_err = None\<rparr>"

definition toy_batch :: string where
  \<open>toy_batch =
     ''[{"eventId":"e1","kind":"log","traceId":"t","timestampMs":17,"source":"s","name":"n"},''
     @ '' {"eventId":"e1","kind":"crash","traceId":"t","timestampMs":18,"source":"s","name":"m"}]''\<close>

definition toy_rows :: "insert_event_params list" where
  "toy_rows =
     [\<lparr>ie_source = ''s'', ie_event_id = ''e1'', ie_kind = ''log'', ie_trace_id = ''t'', ie_name = ''n'',
       ie_event_ts = 17000000, ie_attributes = ''{}''\<rparr>,
      \<lparr>ie_source = ''s'', ie_event_id = ''e1'', ie_kind = ''crash'', ie_trace_id = ''t'', ie_name = ''m'',
       ie_event_ts = 18000000, ie_attributes = ''{}''\<rparr>]"

text \<open>The screening of a small body, from its parts.\<close>

lemma screen_small:
  assumes "il_unmarshal model_lib s = Some (JArr xs)" and "list_all event_ok xs" and "xs \<noteq> []"
    and "length xs \<le> 500" and "build_rows s = Some rows" and "length s \<le> 1000"
  shows "ingest_screen model_lib rid (plain s) = Inr rows"
proof -
  have "filter (\<lambda>e. \<not> event_ok e) xs = []" using assms(2) by (simp add: list_all_iff filter_empty_conv)
  moreover have "1 \<le> length xs" using assms(3) by (cases xs) auto
  ultimately show ?thesis using assms
    by (simp add: ingest_screen_def plain_def read_body_def max_bytes_reader_def max_request_bytes_def
        max_batch_size_def model_lib_def batch_ok_def)
qed

definition toy_json :: "json list" where
  "toy_json =
     [JObj [(''eventId'', JStr ''e1''), (''kind'', JStr ''log''), (''traceId'', JStr ''t''),
            (''timestampMs'', JNum ''17''), (''source'', JStr ''s''), (''name'', JStr ''n'')],
      JObj [(''eventId'', JStr ''e1''), (''kind'', JStr ''crash''), (''traceId'', JStr ''t''),
            (''timestampMs'', JNum ''18''), (''source'', JStr ''s''), (''name'', JStr ''m'')]]"

lemma toy_unmarshal: "il_unmarshal model_lib toy_batch = Some (JArr toy_json)"
  by code_simp

lemma toy_json_ok: "list_all event_ok toy_json"
  by code_simp

lemma toy_build: "build_rows toy_batch = Some toy_rows"
  by code_simp

lemma toy_screen: "ingest_screen model_lib ''r'' (plain toy_batch) = Inr toy_rows"
  by (rule screen_small [OF toy_unmarshal toy_json_ok _ _ toy_build])
     (simp_all add: toy_json_def toy_batch_def)

definition accept_all :: "insert_event_params \<Rightarrow> gerr option" where
  "accept_all a = None"

lemma new_obs_handler_simps [simp]:
  "oh_store (new_obs_handler refuses) = db_event_store refuses"
  "oh_limiter (new_obs_handler refuses) = obs_noop_rate_limiter"
  by (simp_all add: new_obs_handler_def)

definition toy_ingest_world :: world where
  "toy_ingest_world = quiet_world toy_tables 5000000"

definition toy_landed_tables :: tables where
  "toy_landed_tables = toy_tables\<lparr>events := [event_row_of (hd toy_rows) 5000000]\<rparr>"

lemma toy_landing: "land_events 5000000 toy_rows [] = [event_row_of (hd toy_rows) 5000000]"
  by (simp add: toy_rows_def row_key_def event_key_def event_row_of_def)

lemma toy_landed: "landed 5000000 toy_rows toy_tables = toy_landed_tables"
  by (simp add: landed_def toy_tables_def toy_landed_tables_def toy_landing)

lemma toy_ingest:
  "\<exists>w'. ingest model_lib (new_obs_handler accept_all) ''/v1/events'' ''r'' (plain toy_batch) toy_ingest_world =
     (ingest_ok (ingested 1 2 ''r''), w') \<and> w_tabs w' = toy_landed_tables \<and> w_script w' = []"
proof -
  obtain n v where i: "db_insert_batch accept_all toy_rows toy_ingest_world = (Inr n, v)"
    "w_tabs v = landed 5000000 toy_rows toy_tables" "w_script v = []"
    using db_insert_batch_quiet [of toy_ingest_world toy_rows accept_all]
    by (auto simp: toy_ingest_world_def accept_all_def)
  from dbes.batch_answered [of accept_all toy_rows toy_ingest_world n v] i
  have "n = 1"
    by (simp add: db_event_store_def toy_ingest_world_def toy_tables_def toy_landing)
  with i toy_landed toy_screen show ?thesis
    by (simp add: ingest_def obs_noop_rate_limiter_def db_event_store_def Let_def ingested_def toy_rows_def)
qed

section \<open>Properties\<close>

text \<open>C26: What an answer of the ingest endpoint means, for every request and every failure of the
  database: 200 says that every row of the body is in the table, with the numbers of new and of
  already known ones, which add up to the batch, and none rejected; 400 and 413 say that the
  database was not touched at all; 500 leaves the table as it was or with the complete batch, never
  with a part of it.  There is no other answer.\<close>

theorem ingest_atomic:
  assumes "ingest lib (new_obs_handler refuses) path rid b w = (rsp, w')"
  shows "(\<exists>rows now n. rsp = ingest_ok (ingested n (length rows) rid) \<and> build_rows (b_data b) = Some rows \<and>
      w_tabs w' = landed now rows (w_tabs w) \<and> 0 \<le> n \<and> n \<le> int (length rows) \<and>
      n = int (length (events (w_tabs w'))) - int (length (events (w_tabs w)))) \<or>
    (rsp_status rsp = 400 \<or> rsp_status rsp = 413) \<and> w' = w \<or>
    rsp_status rsp = 500 \<and>
      (w_tabs w' = w_tabs w \<or>
       (\<exists>rows now. build_rows (b_data b) = Some rows \<and> w_tabs w' = landed now rows (w_tabs w)))"
  using new_obs_handler_simps assms
proof (cases rule: dbes.ingest_cases)
  case refused
  with screen_Inl [OF refused(1)] show ?thesis by simp
next
  case (failed rows e)
  have "build_rows (b_data b) = Some rows" using failed(1) by (rule screen_Inr)
  with dbes.batch_failed [OF failed(2)] failed(3) show ?thesis by auto
next
  case (landed rows n w2)
  have "build_rows (b_data b) = Some rows" using landed(1) by (rule screen_Inr)
  with dbes.batch_answered [OF landed(2)] dbes.batch_count [OF landed(2)] landed(3,4)
  show ?thesis by auto
qed

theorem ingest_atomic_witness:
  "\<exists>w' rows now n. ingest model_lib (new_obs_handler accept_all) ''/v1/events'' ''r'' (plain toy_batch) toy_ingest_world =
     (ingest_ok (ingested n (length rows) ''r''), w') \<and> w_tabs w' = landed now rows toy_tables \<and> n = 1"
proof -
  obtain w' where w': "ingest model_lib (new_obs_handler accept_all) ''/v1/events'' ''r'' (plain toy_batch) toy_ingest_world =
     (ingest_ok (ingested 1 2 ''r''), w')" "w_tabs w' = toy_landed_tables"
    using toy_ingest by blast
  from ingest_atomic [OF w'(1)] obtain rows now n where
    "ingest_ok (ingested 1 2 ''r'') = ingest_ok (ingested n (length rows) ''r'')"
    "w_tabs w' = landed now rows toy_tables"
    "n = int (length (events (w_tabs w'))) - int (length (events toy_tables))"
    by (auto simp: ingest_ok_def toy_ingest_world_def)
  with w' show ?thesis
    by (intro exI [of _ w'] exI [of _ rows] exI [of _ now] exI [of _ n])
       (simp add: toy_landed_tables_def toy_tables_def)
qed

text \<open>C32: What is landed was validated: if the library follows the schemas, a 200 is given only for a
  body of at most 1 MiB, read to its end, that is one JSON array of 1 to 500 objects each of which
  the event schema accepts.\<close>

theorem ingest_validated:
  assumes "ingest lib (new_obs_handler refuses) path rid b w = (rsp, w')" and "rsp_status rsp = 200"
    and "\<And>v. il_event_ok lib v \<longleftrightarrow> event_ok v" and "\<And>v. il_batch_ok lib v \<longleftrightarrow> batch_ok v"
  shows "length (b_data b) \<le> 1048576 \<and> b_err b = None \<and>
    (\<exists>xs. il_unmarshal lib (b_data b) = Some (JArr xs) \<and> 1 \<le> length xs \<and> length xs \<le> 500 \<and>
       list_all event_ok xs)"
  using new_obs_handler_simps assms(1)
proof (cases rule: dbes.ingest_cases)
  case refused
  with screen_Inl [OF refused(1)] assms(2) show ?thesis by auto
next
  case (failed rows e)
  with assms(2) show ?thesis by simp
next
  case (landed rows n w2)
  from landed(1) show ?thesis
    by (rule screen_Inr)
       (use assms(3,4) in \<open>auto simp: max_request_bytes_def batch_ok_def list_all_iff\<close>)
qed

theorem ingest_validated_witness:
  "\<exists>xs. il_unmarshal model_lib toy_batch = Some (JArr xs) \<and> length xs \<le> 500 \<and> list_all event_ok xs"
proof -
  obtain w' where w': "ingest model_lib (new_obs_handler accept_all) ''/v1/events'' ''r'' (plain toy_batch) toy_ingest_world =
     (ingest_ok (ingested 1 2 ''r''), w')"
    using toy_ingest by blast
  from ingest_validated [OF w'] show ?thesis by (auto simp: model_lib_def plain_def)
qed

text \<open>C10: A batch that is sent again after an error, or after an answer that was lost, lands exactly
  once: whatever happened to the first request, when a later one with the same body is answered 200
  the events are those that one single landing of the batch on the original table gives.\<close>

theorem ingest_exactly_once:
  assumes "ingest lib (new_obs_handler refuses) path rid b w = (rsp, w')"
    and "ingest lib (new_obs_handler refuses) path' rid' b w' = (rsp', w'')" and "rsp_status rsp' = 200"
  shows "\<exists>rows now. build_rows (b_data b) = Some rows \<and> w_tabs w'' = landed now rows (w_tabs w)"
  by (rule dbes.ingest_resend [OF new_obs_handler_simps assms])

theorem ingest_exactly_once_witness:
  "\<exists>w' w'' rows now. ingest model_lib (new_obs_handler accept_all) ''/v1/events'' ''r'' (plain toy_batch) toy_ingest_world =
     (ingest_ok (ingested 1 2 ''r''), w') \<and>
   ingest model_lib (new_obs_handler accept_all) ''/v1/events'' ''r'' (plain toy_batch) w' =
     (ingest_ok (ingested 0 2 ''r''), w'') \<and> w_tabs w'' = landed now rows toy_tables"
proof -
  obtain w' where w': "ingest model_lib (new_obs_handler accept_all) ''/v1/events'' ''r'' (plain toy_batch) toy_ingest_world =
     (ingest_ok (ingested 1 2 ''r''), w')" "w_script w' = []" "w_tabs w' = toy_landed_tables"
    using toy_ingest by blast
  obtain n v where i: "db_insert_batch accept_all toy_rows w' = (Inr n, v)"
    "w_tabs v = landed (w_db w') toy_rows (w_tabs w')"
    using db_insert_batch_quiet [of w' toy_rows accept_all] w'(2) by (auto simp: accept_all_def)
  have "n = 0"
    using toy_landed dbes.batch_resent(2) [of accept_all toy_rows w' "Inr n" v 5000000 toy_tables n] i(1) w'(3)
    by (simp add: db_event_store_def)
  with i toy_screen have "\<exists>w''. ingest model_lib (new_obs_handler accept_all) ''/v1/events'' ''r'' (plain toy_batch) w' =
     (ingest_ok (ingested 0 2 ''r''), w'')"
    by (simp add: ingest_def obs_noop_rate_limiter_def db_event_store_def Let_def ingested_def toy_rows_def)
  then obtain w'' where w'': "ingest model_lib (new_obs_handler accept_all) ''/v1/events'' ''r'' (plain toy_batch) w' =
     (ingest_ok (ingested 0 2 ''r''), w'')" by blast
  from ingest_exactly_once [OF w'(1) w''] w'(1) w'' show ?thesis
    by (auto simp: toy_ingest_world_def)
qed

text \<open>A series of requests, each with its path, request id and body.\<close>

fun ingest_run :: "ingest_lib \<Rightarrow> obs_handler \<Rightarrow> (string \<times> string \<times> body) list \<Rightarrow> world \<Rightarrow> world" where
  "ingest_run lib h [] w = w"
| "ingest_run lib h ((path, rid, b) # qs) w = ingest_run lib h qs (snd (ingest lib h path rid b w))"

text \<open>C33: No event is stored twice: along every series of requests, whatever the batches hold and
  whatever fails, the pair of source and event id stays unique, and events that were stored stay
  as they are.\<close>

theorem events_stored_once:
  assumes "distinct (map event_key (events (w_tabs w)))"
  shows "distinct (map event_key (events (w_tabs (ingest_run lib (new_obs_handler refuses) qs w)))) \<and>
    (\<exists>new. events (w_tabs (ingest_run lib (new_obs_handler refuses) qs w)) = events (w_tabs w) @ new)"
  using assms
proof (induction qs arbitrary: w)
  case (Cons q qs)
  obtain path rid b where q: "q = (path, rid, b)" by (cases q)
  obtain rsp v where i: "ingest lib (new_obs_handler refuses) path rid b w = (rsp, v)"
    by (cases "ingest lib (new_obs_handler refuses) path rid b w")
  have "\<exists>new. events (w_tabs v) = events (w_tabs w) @ new"
    using dbes.ingest_tables [OF new_obs_handler_simps i] land_events_prefix by fastforce
  moreover have "distinct (map event_key (events (w_tabs v)))"
    by (rule dbes.ingest_unique [OF new_obs_handler_simps i Cons.prems])
  ultimately show ?case using Cons.IH [of v] i q by auto
qed simp

theorem events_stored_once_witness:
  "distinct (map event_key (events (w_tabs (ingest_run model_lib (new_obs_handler accept_all)
     [(''/v1/events'', ''r'', plain toy_batch)] toy_ingest_world))))"
  by (rule events_stored_once [THEN conjunct1]) (simp add: toy_ingest_world_def toy_tables_def)

section \<open>Two gaps\<close>

text \<open>A member \<^verbatim>\<open>attributes\<close> that occurs twice: the schema sees the second one only, the row gets the
  members of both, here a nested object that the schema forbids.\<close>

definition merged_batch :: string where
  \<open>merged_batch =
     ''[{"eventId":"e","kind":"log","traceId":"t","timestampMs":1,"source":"s","name":"n",''
     @ ''"attributes":{"x":{"deep":[1]}},"attributes":{}}]''\<close>

definition merged_row :: insert_event_params where
  \<open>merged_row =
     \<lparr>ie_source = ''s'', ie_event_id = ''e'', ie_kind = ''log'', ie_trace_id = ''t'', ie_name = ''n'',
      ie_event_ts = 1000000, ie_attributes = ''{"x":{"deep":[1]}}''\<rparr>\<close>

definition merged_json :: "json list" where
  "merged_json =
     [JObj [(''eventId'', JStr ''e''), (''kind'', JStr ''log''), (''traceId'', JStr ''t''),
            (''timestampMs'', JNum ''1''), (''source'', JStr ''s''), (''name'', JStr ''n''),
            (''attributes'', JObj [(''x'', JObj [(''deep'', JArr [JNum ''1''])])]),
            (''attributes'', JObj [])]]"

lemma merged_parts:
  "il_unmarshal model_lib merged_batch = Some (JArr merged_json)"
  "list_all event_ok merged_json"
  "build_rows merged_batch = Some [merged_row]"
  by code_simp+

lemma attributes_escape_schema:
  "ingest_screen model_lib rid (plain merged_batch) = Inr [merged_row] \<and>
   \<not> attributes_ok (JObj [(''x'', JObj [(''deep'', JArr [JNum ''1''])])])"
  by (intro conjI screen_small [OF merged_parts(1,2) _ _ merged_parts(3)])
     (simp_all add: merged_json_def merged_batch_def attributes_ok_def attribute_ok_def member_of_def)

text \<open>A batch with a value the database refuses is answered 500, every time.\<close>

lemma insert_rows_refused:
  assumes "\<exists>a \<in> set rows. refuses a \<noteq> None"
  shows "\<exists>e x' w'. insert_rows refuses rows n x w = (Inl e, x', w')"
proof -
  obtain r x' w' where r: "insert_rows refuses rows n x w = (r, x', w')" by (metis prod_cases3)
  have "\<forall>a \<in> set rows. refuses a = None" if "insert_rows refuses rows n x w = (Inr m, x', w')" for m
    using that
  proof (induction rows arbitrary: n x w)
    case (Cons a as)
    then obtain k x1 w1 where e: "tx_exec (WInsert ''InsertEvent'') (insert_event refuses a) x w = (Inr k, x1, w1)"
      and "insert_rows refuses as (n + k) x1 w1 = (Inr m, x', w')"
      by (auto split: prod.splits sum.splits)
    with Cons.IH tx_exec_Inr [OF e] insert_event_Inr(3) [of refuses a "tx_now x" "tx_tabs x" k "tx_tabs x1"]
    show ?case by auto
  qed simp
  with r assms show ?thesis by (cases r) auto
qed

lemma refused_value_is_500:
  assumes "ingest_screen lib rid b = Inr rows" and "\<exists>a \<in> set rows. refuses a \<noteq> None"
  shows "rsp_status (fst (ingest lib (new_obs_handler refuses) path rid b w)) = 500"
proof -
  have "\<exists>e w'. db_insert_batch refuses rows w = (Inl e, w')"
  proof (cases "tx_begin w")
    case (Pair rb v)
    show ?thesis
    proof (cases rb)
      case (Inr x)
      obtain e x' v' where "insert_rows refuses rows 0 x v = (Inl e, x', v')"
        using insert_rows_refused [OF assms(2)] by blast
      with Pair Inr show ?thesis by (simp add: db_insert_batch_def)
    qed (use Pair in \<open>simp add: db_insert_batch_def\<close>)
  qed
  with assms(1) show ?thesis
    by (auto simp: ingest_def obs_noop_rate_limiter_def db_event_store_def)
qed

end
