(* ===== verification/IngestConc.thy ===== *)
theory IngestConc
  imports EventStore
begin

text \<open>
  Concurrent batches of \<^verbatim>\<open>insertBatch\<close> (\<^verbatim>\<open>internal/modules/observability/store.go\<close>), statement by
  statement.  Theory EventStore runs one batch from \<^verbatim>\<open>Begin\<close> to \<^verbatim>\<open>Commit\<close>; here any number of them are
  interleaved by the database at READ COMMITTED.  A row that a transaction has inserted and not
  committed claims its key in the unique index: another transaction that comes to the same key waits
  for the end of the first, then skips the row (the first committed) or inserts it (the first gave up).
\<close>

section \<open>State\<close>

datatype istage =
    IArrived
  | IInserting "insert_event_params list" int
  | IDone "gerr + int"

type_synonym ipid = nat

record itxn =
  it_stage :: istage
  it_start :: time
  it_own :: "event_row list"

record isys =
  i_tabs :: tables
  i_db :: time
  i_claims :: "string \<times> string \<Rightarrow> ipid option"
  i_txn :: "ipid \<Rightarrow> itxn"

text \<open>What a transaction sees: the committed rows and its own.\<close>

definition iview :: "itxn \<Rightarrow> tables \<Rightarrow> tables" where
  "iview t c = c\<lparr>events := events c @ it_own t\<rparr>"

definition i_goto :: "ipid \<Rightarrow> istage \<Rightarrow> isys \<Rightarrow> isys" where
  "i_goto p st s = s\<lparr>i_txn := (i_txn s)(p := (i_txn s p)\<lparr>it_stage := st\<rparr>)\<rparr>"

text \<open>The end of a transaction: its claims go, and with them the rows that were not committed.\<close>

definition i_finish :: "ipid \<Rightarrow> gerr + int \<Rightarrow> isys \<Rightarrow> isys" where
  "i_finish p out s =
     s\<lparr>i_claims := (\<lambda>k. if i_claims s k = Some p then None else i_claims s k),
       i_txn := (i_txn s)(p := (i_txn s p)\<lparr>it_stage := IDone out, it_own := []\<rparr>)\<rparr>"

section \<open>The statements\<close>

definition ins_begin :: "insert_event_params list \<Rightarrow> ipid \<Rightarrow> isys \<Rightarrow> isys" where
  "ins_begin rows p s =
     s\<lparr>i_txn := (i_txn s)(p := \<lparr>it_stage = IInserting rows 0, it_start = i_db s, it_own = []\<rparr>)\<rparr>"

text \<open>One \<^verbatim>\<open>InsertEvent\<close> and the addition of its result; \<^const>\<open>None\<close> is waiting.\<close>

definition ins_row ::
  "(insert_event_params \<Rightarrow> gerr option) \<Rightarrow> insert_event_params \<Rightarrow> insert_event_params list \<Rightarrow> int \<Rightarrow>
     ipid \<Rightarrow> isys \<Rightarrow> isys option" where
  "ins_row refuses a rest n p s =
     (let t = i_txn s p in
      case fst (insert_event refuses a (it_start t) (iview t (i_tabs s))) of
        Inl e \<Rightarrow> Some (i_finish p (Inl e) s)
      | Inr k \<Rightarrow>
          if k = 0 then Some (i_goto p (IInserting rest (n + k)) s)
          else if i_claims s (row_key a) \<noteq> None then None
          else Some (s\<lparr>i_claims := (i_claims s)(row_key a := Some p),
                       i_txn := (i_txn s)(p := t\<lparr>it_stage := IInserting rest (n + k),
                         it_own := it_own t @ [event_row_of a (it_start t)]\<rparr>)\<rparr>))"

definition ins_commit :: "ipid \<Rightarrow> isys \<Rightarrow> isys" where
  "ins_commit p s = s\<lparr>i_tabs := iview (i_txn s p) (i_tabs s)\<rparr>"

definition ins_run ::
  "(insert_event_params \<Rightarrow> gerr option) \<Rightarrow> insert_event_params list \<Rightarrow> ipid \<Rightarrow> isys \<Rightarrow> isys option" where
  "ins_run refuses rows p s =
     (case it_stage (i_txn s p) of
        IArrived \<Rightarrow> Some (ins_begin rows p s)
      | IInserting (a # rest) n \<Rightarrow> ins_row refuses a rest n p s
      | IInserting [] n \<Rightarrow> Some (i_finish p (Inr n) (ins_commit p s))
      | IDone _ \<Rightarrow> None)"

text \<open>One step of the request \<open>p\<close>.  Any step may fail, also one that waits (a victim of the deadlock
  detector, a cancelled context); a commit may fail after it took effect.\<close>

definition ins_next ::
  "(insert_event_params \<Rightarrow> gerr option) \<Rightarrow> insert_event_params list \<Rightarrow> fault \<Rightarrow> ipid \<Rightarrow> isys \<Rightarrow> isys option" where
  "ins_next refuses rows f p s =
     (case it_stage (i_txn s p) of
        IDone _ \<Rightarrow> None
      | st \<Rightarrow>
          (case f of
             NoFault \<Rightarrow> ins_run refuses rows p s
           | FailBefore e \<Rightarrow> Some (i_finish p (Inl e) s)
           | FailAfter e \<Rightarrow>
               Some (i_finish p (Inl e) (case st of IInserting [] n \<Rightarrow> ins_commit p s | _ \<Rightarrow> s))))"

section \<open>The system\<close>

text \<open>\<open>batch p\<close> are the rows of request \<open>p\<close>.  Nothing but these requests writes events, and the program has
  no statement that deletes one.\<close>

inductive ing_step ::
  "(insert_event_params \<Rightarrow> gerr option) \<Rightarrow> (ipid \<Rightarrow> insert_event_params list) \<Rightarrow> isys \<Rightarrow> isys \<Rightarrow> bool"
  for refuses batch where
  ing_tx: "ins_next refuses (batch p) f p s = Some s' \<Longrightarrow> ing_step refuses batch s s'"
| ing_tick: "i_db s \<le> t \<Longrightarrow> ing_step refuses batch s (s\<lparr>i_db := t\<rparr>)"
| ing_others: "events c = events (i_tabs s) \<Longrightarrow> ing_step refuses batch s (s\<lparr>i_tabs := c\<rparr>)"

abbreviation ing_steps ::
  "(insert_event_params \<Rightarrow> gerr option) \<Rightarrow> (ipid \<Rightarrow> insert_event_params list) \<Rightarrow> isys \<Rightarrow> isys \<Rightarrow> bool" where
  "ing_steps refuses batch \<equiv> (ing_step refuses batch)\<^sup>*\<^sup>*"

definition fresh_ingest :: "tables \<Rightarrow> time \<Rightarrow> isys" where
  "fresh_ingest c now =
     \<lparr>i_tabs = c, i_db = now, i_claims = (\<lambda>_. None),
      i_txn = (\<lambda>_. \<lparr>it_stage = IArrived, it_start = 0, it_own = []\<rparr>)\<rparr>"

text \<open>\<^verbatim>\<open>UNIQUE (source, event_id)\<close>.\<close>

definition events_unique :: "tables \<Rightarrow> bool" where
  "events_unique c \<longleftrightarrow> distinct (map event_key (events c))"

definition ing_reachable ::
  "(insert_event_params \<Rightarrow> gerr option) \<Rightarrow> (ipid \<Rightarrow> insert_event_params list) \<Rightarrow> tables \<Rightarrow> isys \<Rightarrow> bool" where
  "ing_reachable refuses batch c s \<longleftrightarrow>
     events_unique c \<and> (\<exists>now. ing_steps refuses batch (fresh_ingest c now) s)"

section \<open>Waiting\<close>

definition i_waits ::
  "(insert_event_params \<Rightarrow> gerr option) \<Rightarrow> (ipid \<Rightarrow> insert_event_params list) \<Rightarrow> isys \<Rightarrow> ipid \<Rightarrow> ipid \<Rightarrow> bool" where
  "i_waits refuses batch s p q \<longleftrightarrow>
     (\<exists>a rest n. it_stage (i_txn s p) = IInserting (a # rest) n \<and> i_claims s (row_key a) = Some q) \<and>
     ins_next refuses (batch p) NoFault p s = None"

section \<open>Schedules that are executed\<close>

fun i_run ::
  "(insert_event_params \<Rightarrow> gerr option) \<Rightarrow> (ipid \<Rightarrow> insert_event_params list) \<Rightarrow> ipid list \<Rightarrow> isys \<Rightarrow> isys option" where
  "i_run refuses batch [] s = Some s"
| "i_run refuses batch (p # ps) s =
     (case ins_next refuses (batch p) NoFault p s of
        None \<Rightarrow> None
      | Some s' \<Rightarrow> i_run refuses batch ps s')"

lemma i_run_steps: "i_run refuses batch ps s = Some s' \<Longrightarrow> ing_steps refuses batch s s'"
  by (induction ps arbitrary: s)
    (auto split: option.splits intro: ing_tx converse_rtranclp_into_rtranclp)

end
