(* ===== verification/IngestConcSpec.thy ===== *)
theory IngestConcSpec
  imports IngestConc Fixture
begin

text \<open>
  What holds of interleaved batches (theory IngestConc): the invariant \<open>ing_inv\<close> (every transaction's own
  rows are what landing the part of the batch it has been through would add to the committed rows, and
  the claims are exactly the keys of those rows) and its consequences: every batch lands as a whole,
  nothing is counted twice, batches in a common order never block each other, and a batch that runs
  alone is \<open>db_insert_batch\<close>.
\<close>

section \<open>The rows a batch adds\<close>

fun news :: "time \<Rightarrow> insert_event_params list \<Rightarrow> (string \<times> string) set \<Rightarrow> event_row list" where
  "news now [] K = []"
| "news now (a # as) K =
     (if row_key a \<in> K then news now as K
      else event_row_of a now # news now as (insert (row_key a) K))"

lemma land_events_news: "land_events now rows es = es @ news now rows (event_key ` set es)"
  by (induction rows arbitrary: es) auto

lemma news_keys: "event_key ` set (news now rows K) = row_key ` set rows - K"
  by (induction rows arbitrary: K) auto

lemma news_snoc:
  "news now (rows @ [a]) K =
     news now rows K @ (if row_key a \<in> K \<union> row_key ` set rows then [] else [event_row_of a now])"
  by (induction rows arbitrary: K) auto

lemma news_more: "event_key ` set (news now rows K) \<inter> K' = {} \<Longrightarrow> news now rows (K \<union> K') = news now rows K"
proof (induction rows arbitrary: K)
  case (Cons a as)
  show ?case
  proof (cases "row_key a \<in> K")
    case False
    with Cons.prems have "row_key a \<notin> K'" and "event_key ` set (news now as (insert (row_key a) K)) \<inter> K' = {}"
      by auto
    with Cons.IH [of "insert (row_key a) K"] False show ?thesis by simp
  qed (use Cons in auto)
qed simp

lemma news_distinct: "distinct (map event_key (news now rows K))"
proof (induction rows arbitrary: K)
  case (Cons a as)
  have "event_key (event_row_of a now) \<notin> event_key ` set (news now as (insert (row_key a) K))"
    by (simp add: news_keys)
  with Cons show ?case by simp
qed simp

section \<open>The invariant\<close>

abbreviation keys_of :: "event_row list \<Rightarrow> (string \<times> string) set" where
  "keys_of es \<equiv> event_key ` set es"

definition landing_ok ::
  "(insert_event_params \<Rightarrow> gerr option) \<Rightarrow> insert_event_params list \<Rightarrow> tables \<Rightarrow> itxn \<Rightarrow> bool" where
  "landing_ok refuses rows c t \<longleftrightarrow>
     (case it_stage t of
        IInserting rest n \<Rightarrow>
          (\<exists>through. rows = through @ rest \<and> it_own t = news (it_start t) through (keys_of (events c)) \<and>
             n = int (length (it_own t)) \<and> (\<forall>a \<in> set through. refuses a = None))
      | _ \<Rightarrow> it_own t = [])"

definition claims_ok :: "(string \<times> string \<Rightarrow> ipid option) \<Rightarrow> (ipid \<Rightarrow> itxn) \<Rightarrow> bool" where
  "claims_ok cl txn \<longleftrightarrow> (\<forall>p. {k. cl k = Some p} = keys_of (it_own (txn p)))"

lemma claims_okD: "claims_ok cl txn \<Longrightarrow> cl k = Some p \<longleftrightarrow> k \<in> keys_of (it_own (txn p))"
  unfolding claims_ok_def by blast

lemma claims_disjoint:
  "claims_ok cl txn \<Longrightarrow> p \<noteq> q \<Longrightarrow> keys_of (it_own (txn p)) \<inter> keys_of (it_own (txn q)) = {}"
  unfolding claims_ok_def by (metis (mono_tags, lifting) disjoint_iff mem_Collect_eq option.inject)

lemma claims_finish:
  assumes "claims_ok cl txn" and "it_own t = []"
  shows "claims_ok (\<lambda>k. if cl k = Some p then None else cl k) (txn(p := t))"
proof -
  have "{k. (if cl k = Some p then None else cl k) = Some q} = (if q = p then {} else {k. cl k = Some q})" for q
    by auto
  with assms show ?thesis by (simp add: claims_ok_def)
qed

lemma claims_add:
  assumes "claims_ok cl txn" and "cl (event_key e) = None" and "it_own t = it_own (txn p) @ [e]"
  shows "claims_ok (cl(event_key e \<mapsto> p)) (txn(p := t))"
proof -
  have "{k. (cl(event_key e \<mapsto> p)) k = Some q} =
      (if q = p then insert (event_key e) {k. cl k = Some q} else {k. cl k = Some q})" for q
    using assms(2) by auto
  with assms show ?thesis by (auto simp: claims_ok_def)
qed

definition ing_inv ::
  "(insert_event_params \<Rightarrow> gerr option) \<Rightarrow> (ipid \<Rightarrow> insert_event_params list) \<Rightarrow> isys \<Rightarrow> bool" where
  "ing_inv refuses batch s \<longleftrightarrow>
     events_unique (i_tabs s) \<and> finite (dom (i_claims s)) \<and>
     claims_ok (i_claims s) (i_txn s) \<and>
     (\<forall>p. landing_ok refuses (batch p) (i_tabs s) (i_txn s p))"

lemma ing_invD:
  assumes "ing_inv refuses batch s"
  shows "events_unique (i_tabs s)" and "finite (dom (i_claims s))"
    and "claims_ok (i_claims s) (i_txn s)"
    and "landing_ok refuses (batch p) (i_tabs s) (i_txn s p)"
  using assms by (simp_all add: ing_inv_def)

lemma own_fresh:
  assumes "landing_ok refuses rows c t"
  shows "keys_of (it_own t) \<inter> keys_of (events c) = {} \<and> distinct (map event_key (it_own t))"
proof (cases "it_stage t")
  case (IInserting rest n)
  with assms obtain through where "it_own t = news (it_start t) through (keys_of (events c))"
    by (auto simp: landing_ok_def)
  then show ?thesis using news_keys [of "it_start t" through] news_distinct by (simp add: Diff_disjoint Int_commute)
qed (use assms in \<open>auto simp: landing_ok_def\<close>)

lemma ing_inv_init: "events_unique c \<Longrightarrow> ing_inv refuses batch (fresh_ingest c now)"
  by (simp add: ing_inv_def fresh_ingest_def landing_ok_def claims_ok_def)

lemma finite_freed: "finite (dom cl) \<Longrightarrow> finite (dom (\<lambda>k. if cl k = Some p then None else cl k))"
  by (erule finite_subset [rotated]) (auto split: if_splits)

text \<open>The end of a request, with or without its rows in the table.\<close>

lemma ing_finish_inv:
  assumes "ing_inv refuses batch s"
  shows "ing_inv refuses batch (i_finish p out s)"
  using assms finite_freed [of "i_claims s"]
  by (simp add: ing_inv_def i_finish_def claims_finish) (simp add: landing_ok_def)

lemma ing_commit_inv:
  assumes "ing_inv refuses batch s"
  shows "ing_inv refuses batch (i_finish p out (ins_commit p s))"
proof -
  let ?c = "i_tabs s" and ?own = "it_own (i_txn s p)"
  note inv = ing_invD [OF assms]
  have u: "events_unique (iview (i_txn s p) ?c)"
    using inv(1) own_fresh [OF inv(4), of p] by (simp add: events_unique_def iview_def Int_commute)
  have ok: "landing_ok refuses (batch q) (iview (i_txn s p) ?c) (i_txn s q)" if "q \<noteq> p" for q
  proof (cases "it_stage (i_txn s q)")
    case (IInserting rest n)
    with inv(4) [of q] obtain through where
      t: "batch q = through @ rest" "it_own (i_txn s q) = news (it_start (i_txn s q)) through (keys_of (events ?c))"
        "n = int (length (it_own (i_txn s q)))" "\<forall>a \<in> set through. refuses a = None"
      by (auto simp: landing_ok_def)
    from claims_disjoint [OF inv(3) that] have
      "news (it_start (i_txn s q)) through (keys_of (events ?c) \<union> keys_of ?own) = it_own (i_txn s q)"
      unfolding t(2) by (rule news_more)
    with t IInserting show ?thesis by (auto simp: landing_ok_def iview_def image_Un)
  qed (use inv(4) [of q] in \<open>auto simp: landing_ok_def\<close>)
  then have "landing_ok refuses (batch q) (iview (i_txn s p) ?c)
      (((i_txn s)(p := (i_txn s p)\<lparr>it_stage := IDone out, it_own := []\<rparr>)) q)" for q
    by (cases "q = p") (simp_all add: landing_ok_def)
  then show ?thesis
    using u inv(2,3) finite_freed [of "i_claims s"]
    by (simp add: ing_inv_def ins_commit_def i_finish_def claims_finish cong: if_cong)
qed

lemma ing_row_inv:
  assumes "ing_inv refuses batch s" and "it_stage (i_txn s p) = IInserting (a # rest) n"
    and "ins_row refuses a rest n p s = Some s'"
  shows "ing_inv refuses batch s'" and "i_tabs s' = i_tabs s"
    and "\<forall>q. q \<noteq> p \<longrightarrow> i_txn s' q = i_txn s q"
    and "(\<exists>e. it_stage (i_txn s' p) = IDone (Inl e)) \<or> (\<exists>m. it_stage (i_txn s' p) = IInserting rest m)"
proof -
  let ?t = "i_txn s p" and ?c = "i_tabs s"
  note inv = ing_invD [OF assms(1)]
  from inv(4) [of p] assms(2) obtain through where
    d: "batch p = through @ a # rest" "it_own ?t = news (it_start ?t) through (keys_of (events ?c))"
      "n = int (length (it_own ?t))" "\<forall>a \<in> set through. refuses a = None"
    by (auto simp: landing_ok_def)
  have seen: "row_key a \<in> keys_of (events ?c) \<union> keys_of (it_own ?t) \<longleftrightarrow>
      row_key a \<in> keys_of (events ?c) \<union> row_key ` set through"
    unfolding d(2) news_keys by blast
  have snoc: "news (it_start ?t) (through @ [a]) (keys_of (events ?c)) =
      it_own ?t @ (if row_key a \<in> keys_of (events ?c) \<union> keys_of (it_own ?t) then []
        else [event_row_of a (it_start ?t)])"
    unfolding news_snoc seen by (simp add: d(2))
  have "ing_inv refuses batch s' \<and> i_tabs s' = i_tabs s \<and> (\<forall>q. q \<noteq> p \<longrightarrow> i_txn s' q = i_txn s q) \<and>
      ((\<exists>e. it_stage (i_txn s' p) = IDone (Inl e)) \<or> (\<exists>m. it_stage (i_txn s' p) = IInserting rest m))"
  proof (cases "refuses a")
    case (Some e)
    with assms(3) have "s' = i_finish p (Inl e) s" by (simp add: ins_row_def insert_event_def)
    with ing_finish_inv [OF assms(1)] show ?thesis by (simp add: i_finish_def)
  next
    case None
    show ?thesis
    proof (cases "row_key a \<in> keys_of (events ?c) \<union> keys_of (it_own ?t)")
      case True
      then have "fst (insert_event refuses a (it_start ?t) (iview ?t ?c)) = Inr 0"
        using None row_key_known [of a "events (iview ?t ?c)"]
        by (auto simp: insert_event_def iview_def image_Un)
      with assms(3) have s': "s' = i_goto p (IInserting rest n) s" by (simp add: ins_row_def Let_def)
      have "landing_ok refuses (batch p) ?c (?t\<lparr>it_stage := IInserting rest n\<rparr>)"
        using d None snoc True by (auto simp: landing_ok_def intro!: exI [of _ "through @ [a]"])
      moreover have "claims_ok (i_claims s) ((i_txn s)(p := ?t\<lparr>it_stage := IInserting rest n\<rparr>))"
        using inv(3) by (simp add: claims_ok_def)
      ultimately show ?thesis using assms(1) by (simp add: s' i_goto_def ing_inv_def)
    next
      case False
      then have "fst (insert_event refuses a (it_start ?t) (iview ?t ?c)) = Inr 1"
        using None row_key_known [of a "events (iview ?t ?c)"]
        by (auto simp: insert_event_def iview_def image_Un)
      with assms(3) have free: "i_claims s (row_key a) = None"
        and s': "s' = s\<lparr>i_claims := (i_claims s)(row_key a \<mapsto> p), i_txn := (i_txn s)(p := ?t\<lparr>
          it_stage := IInserting rest (n + 1), it_own := it_own ?t @ [event_row_of a (it_start ?t)]\<rparr>)\<rparr>"
        by (auto simp: ins_row_def Let_def split: if_splits)
      have "landing_ok refuses (batch p) ?c (?t\<lparr>it_stage := IInserting rest (n + 1),
          it_own := it_own ?t @ [event_row_of a (it_start ?t)]\<rparr>)"
        using d None snoc False by (auto simp: landing_ok_def intro!: exI [of _ "through @ [a]"])
      moreover have "claims_ok ((i_claims s)(row_key a \<mapsto> p)) ((i_txn s)(p := ?t\<lparr>
          it_stage := IInserting rest (n + 1), it_own := it_own ?t @ [event_row_of a (it_start ?t)]\<rparr>))"
        using claims_add [OF inv(3), of "event_row_of a (it_start ?t)"] free by simp
      ultimately show ?thesis using assms(1) by (simp add: s' ing_inv_def)
    qed
  qed
  then show "ing_inv refuses batch s'" "i_tabs s' = i_tabs s" "\<forall>q. q \<noteq> p \<longrightarrow> i_txn s' q = i_txn s q"
    "(\<exists>e. it_stage (i_txn s' p) = IDone (Inl e)) \<or> (\<exists>m. it_stage (i_txn s' p) = IInserting rest m)" by blast+
qed

section \<open>Every step\<close>

text \<open>What a step does to the committed events: nothing, or the whole batch at once.\<close>

lemma landed_own:
  assumes "landing_ok refuses rows c t" and "it_stage t = IInserting [] n"
  shows "iview t c = landed (it_start t) rows c"
    and "n = int (length (events (iview t c))) - int (length (events c))"
  using assms by (auto simp: landing_ok_def iview_def landed_def land_events_news)

lemma ins_next_cases:
  assumes "ing_inv refuses batch s" and "ins_next refuses (batch p) f p s = Some s'"
  obtains (quiet) "i_tabs s' = i_tabs s" and "ing_inv refuses batch s'"
      and "\<And>n. it_stage (i_txn s' p) \<noteq> IDone (Inr n)"
  | (committed) n where "it_stage (i_txn s p) = IInserting [] n"
      and "i_tabs s' = landed (it_start (i_txn s p)) (batch p) (i_tabs s)" and "ing_inv refuses batch s'"
      and "n = int (length (events (i_tabs s'))) - int (length (events (i_tabs s)))"
      and "it_stage (i_txn s' p) = IDone (Inr n) \<or> (\<exists>e. it_stage (i_txn s' p) = IDone (Inl e))"
proof -
  note inv = ing_invD [OF assms(1)]
  have gone: thesis if "s' = i_finish p (Inl e) s" for e
    using that ing_finish_inv [OF assms(1)] by (intro quiet) (simp_all add: i_finish_def)
  have fin: thesis if "it_stage (i_txn s p) = IInserting [] n" "s' = i_finish p out (ins_commit p s)"
    "out = Inr n \<or> (\<exists>e. out = Inl e)" for n out
  proof (rule committed [OF that(1)])
    show "ing_inv refuses batch s'" unfolding that(2) by (rule ing_commit_inv [OF assms(1)])
    have tabs: "i_tabs s' = iview (i_txn s p) (i_tabs s)" by (simp add: that(2) i_finish_def ins_commit_def)
    then show "i_tabs s' = landed (it_start (i_txn s p)) (batch p) (i_tabs s)"
      using landed_own(1) [OF inv(4) that(1)] by simp
    show "n = int (length (events (i_tabs s'))) - int (length (events (i_tabs s)))"
      unfolding tabs by (rule landed_own(2) [OF inv(4) that(1)])
    show "it_stage (i_txn s' p) = IDone (Inr n) \<or> (\<exists>e. it_stage (i_txn s' p) = IDone (Inl e))"
      using that(3) by (auto simp: that(2) i_finish_def)
  qed
  show thesis
  proof (cases f)
    case NoFault
    show thesis
    proof (cases "it_stage (i_txn s p)")
      case IArrived
      with NoFault assms(2) have s': "s' = ins_begin (batch p) p s" by (simp add: ins_next_def ins_run_def)
      have "it_own (i_txn s p) = []" using inv(4) [of p] IArrived by (simp add: landing_ok_def)
      then have "claims_ok (i_claims s) (i_txn s')" using inv(3) by (simp add: s' ins_begin_def claims_ok_def)
      with assms(1) show thesis
        by (intro quiet) (simp_all add: s' ins_begin_def ing_inv_def landing_ok_def)
    next
      case (IInserting rest n)
      show thesis
      proof (cases rest)
        case Nil
        with IInserting NoFault assms(2) fin [of n "Inr n"] show thesis
          by (auto simp: ins_next_def ins_run_def)
      next
        case (Cons a as)
        with IInserting NoFault assms(2) have r: "ins_row refuses a as n p s = Some s'"
          by (simp add: ins_next_def ins_run_def)
        from ing_row_inv [OF assms(1) _ r] IInserting Cons show thesis by (intro quiet) auto
      qed
    qed (use assms(2) in \<open>simp add: ins_next_def\<close>)
  next
    case (FailBefore e)
    with assms(2) gone [of e] show thesis by (auto simp: ins_next_def split: istage.splits)
  next
    case (FailAfter e)
    with assms(2) gone [of e] fin show thesis
      by (auto simp: ins_next_def split: istage.splits list.splits)
  qed
qed

lemma ins_next_others:
  assumes "ins_next refuses (batch p) f p s = Some s'" and "q \<noteq> p"
  shows "i_txn s' q = i_txn s q"
  using assms
  by (auto simp: ins_next_def ins_run_def ins_begin_def ins_row_def i_finish_def ins_commit_def i_goto_def Let_def
      split: istage.splits fault.splits list.splits sum.splits if_splits)

lemma ing_step_inv:
  assumes "ing_step refuses batch s s'" and "ing_inv refuses batch s"
  shows "ing_inv refuses batch s'"
  using assms
proof cases
  case (ing_tx p f)
  with assms(2) show ?thesis by (auto elim: ins_next_cases)
next
  case (ing_others c)
  have "landing_ok refuses rows c t = landing_ok refuses rows (i_tabs s) t" for rows t
    unfolding landing_ok_def ing_others(2) ..
  with ing_others assms(2) show ?thesis by (simp add: ing_inv_def events_unique_def)
qed (simp add: ing_inv_def)

lemma ing_reachable_inv: "ing_reachable refuses batch c s \<Longrightarrow> ing_inv refuses batch s"
proof -
  assume "ing_reachable refuses batch c s"
  then obtain now where "events_unique c" and "ing_steps refuses batch (fresh_ingest c now) s"
    by (auto simp: ing_reachable_def)
  from this(2) ing_inv_init [OF this(1)] show ?thesis by (induction) (auto intro: ing_step_inv)
qed

text \<open>C3: a batch lands as a whole, however batches interleave.  Each step of a request leaves the events
  alone and answers no count, or commits: it adds exactly the rows of its batch whose keys are not there
  at that moment, and the count it answers, unless the answer is lost, is the number of rows added.\<close>

theorem conc_ingest_atomic:
  assumes "ing_reachable refuses batch c s" and "ins_next refuses (batch p) f p s = Some s'"
  shows "(i_tabs s' = i_tabs s \<and> (\<forall>n. it_stage (i_txn s' p) \<noteq> IDone (Inr n))) \<or>
    (\<exists>n. i_tabs s' = landed (it_start (i_txn s p)) (batch p) (i_tabs s) \<and>
      n = int (length (events (i_tabs s'))) - int (length (events (i_tabs s))) \<and>
      (it_stage (i_txn s' p) = IDone (Inr n) \<or> (\<exists>e. it_stage (i_txn s' p) = IDone (Inl e))))"
  by (rule ins_next_cases [OF ing_reachable_inv [OF assms(1)] assms(2)]) blast+

section \<open>Counts and durability\<close>

definition accepted_by :: "isys \<Rightarrow> ipid \<Rightarrow> int" where
  "accepted_by s p = (case it_stage (i_txn s p) of IDone (Inr n) \<Rightarrow> n | _ \<Rightarrow> 0)"

definition answered_stored :: "(ipid \<Rightarrow> insert_event_params list) \<Rightarrow> isys \<Rightarrow> bool" where
  "answered_stored batch s \<longleftrightarrow>
     (\<forall>p n. it_stage (i_txn s p) = IDone (Inr n) \<longrightarrow> row_key ` set (batch p) \<subseteq> keys_of (events (i_tabs s)))"

lemma sum_one_changed:
  fixes g h :: "'a \<Rightarrow> int"
  assumes "finite P" and "\<And>q. q \<noteq> p \<Longrightarrow> h q = g q" and "g p = 0"
  shows "sum h P = sum g P + (if p \<in> P then h p else 0)"
proof -
  have "sum h (P - {p}) = sum g (P - {p})" using assms(2) by (intro sum.cong) auto
  with assms(1,3) show ?thesis by (cases "p \<in> P") (simp_all add: sum.remove)
qed

lemma counts_step:
  assumes "ing_step refuses batch s s'" and "ing_inv refuses batch s" and "finite P"
    and "answered_stored batch s"
    and "(\<Sum>p\<in>P. accepted_by s p) \<le> int (length (events (i_tabs s))) - b"
  shows "(\<Sum>p\<in>P. accepted_by s' p) \<le> int (length (events (i_tabs s'))) - b \<and> answered_stored batch s'"
  using assms(1)
proof cases
  case (ing_tx p f)
  have other: "accepted_by s' q = accepted_by s q" if "q \<noteq> p" for q
    using ins_next_others [of refuses batch p f s s' q] ing_tx that by (simp add: accepted_by_def)
  have "accepted_by s p = 0" using ing_tx by (auto simp: accepted_by_def ins_next_def split: istage.splits sum.splits)
  note sum = sum_one_changed [OF assms(3), of p "accepted_by s'" "accepted_by s", OF other this]
  from assms(2) ing_tx show ?thesis
  proof (cases rule: ins_next_cases)
    case quiet
    then have "accepted_by s' p = 0" by (auto simp: accepted_by_def split: istage.splits sum.splits)
    with sum have "(\<Sum>p\<in>P. accepted_by s' p) = (\<Sum>p\<in>P. accepted_by s p)" by simp
    moreover have "answered_stored batch s'"
      unfolding answered_stored_def
    proof (intro allI impI)
      fix q n assume n: "it_stage (i_txn s' q) = IDone (Inr n)"
      with quiet have q: "q \<noteq> p" by auto
      with n ins_next_others [of refuses batch p f s s' q] ing_tx have "it_stage (i_txn s q) = IDone (Inr n)" by simp
      with assms(4) quiet(1) show "row_key ` set (batch q) \<subseteq> keys_of (events (i_tabs s'))"
        by (auto simp: answered_stored_def)
    qed
    ultimately show ?thesis using assms(5) quiet(1) by simp
  next
    case (committed n)
    have keys: "keys_of (events (i_tabs s')) = keys_of (events (i_tabs s)) \<union> row_key ` set (batch p)"
      by (simp add: committed(2) land_events_keys)
    obtain new where "events (i_tabs s') = events (i_tabs s) @ new"
      unfolding committed(2) events_landed land_events_news by blast
    then have n: "0 \<le> n" using committed(4) by simp
    have "accepted_by s' p \<le> n" using committed(5) n by (auto simp: accepted_by_def)
    with sum n have "(\<Sum>p\<in>P. accepted_by s' p) \<le> (\<Sum>p\<in>P. accepted_by s p) + n" by simp
    moreover have "answered_stored batch s'"
      unfolding answered_stored_def
    proof (intro allI impI)
      fix q m assume m: "it_stage (i_txn s' q) = IDone (Inr m)"
      show "row_key ` set (batch q) \<subseteq> keys_of (events (i_tabs s'))"
      proof (cases "q = p")
        case False
        with m ins_next_others [of refuses batch p f s s' q] ing_tx have "it_stage (i_txn s q) = IDone (Inr m)" by simp
        with assms(4) keys show ?thesis by (auto simp: answered_stored_def)
      qed (simp add: keys)
    qed
    ultimately show ?thesis using assms(5) committed(4) by simp
  qed
next
  case (ing_tick t)
  with assms(4,5) show ?thesis by (simp add: accepted_by_def answered_stored_def)
next
  case (ing_others c)
  with assms(4,5) show ?thesis by (simp add: accepted_by_def answered_stored_def)
qed

text \<open>C9: what clients are told adds up.  However batches interleave, fail and lose their answers, the counts
  of accepted events that any set of requests has been answered never exceed the number of events that
  were added to the table, no key is stored twice, and every event of a batch that was answered is
  stored, then and in every later state.\<close>

theorem conc_ingest_counts:
  assumes "ing_reachable refuses batch c s" and "finite P"
  shows "(\<Sum>p\<in>P. accepted_by s p) \<le> int (length (events (i_tabs s))) - int (length (events c)) \<and>
    events_unique (i_tabs s) \<and>
    (\<forall>p n. it_stage (i_txn s p) = IDone (Inr n) \<longrightarrow> row_key ` set (batch p) \<subseteq> keys_of (events (i_tabs s)))"
proof -
  obtain now where c: "events_unique c" and st: "ing_steps refuses batch (fresh_ingest c now) s"
    using assms(1) by (auto simp: ing_reachable_def)
  from st have "ing_inv refuses batch s \<and> answered_stored batch s \<and>
      (\<Sum>p\<in>P. accepted_by s p) \<le> int (length (events (i_tabs s))) - int (length (events c))"
  proof induction
    case base
    from ing_inv_init [OF c] show ?case by (simp add: fresh_ingest_def accepted_by_def answered_stored_def)
  next
    case (step s s')
    with counts_step [OF step(2) _ assms(2), of "int (length (events c))"] ing_step_inv [OF step(2)]
    show ?case by blast
  qed
  then show ?thesis by (simp add: ing_inv_def answered_stored_def)
qed

section \<open>Waiting\<close>

text \<open>A request that does not move, waits for the transaction that has claimed the key of its next row, a
  key that is neither stored nor its own.\<close>

lemma i_stuck_waits:
  assumes "\<And>out. it_stage (i_txn s p) \<noteq> IDone out" and "ins_next refuses (batch p) NoFault p s = None"
  shows "\<exists>q. i_waits refuses batch s p q"
proof (cases "it_stage (i_txn s p)")
  case (IInserting rest n)
  with assms(2) show ?thesis
    by (cases rest)
      (auto simp: ins_next_def ins_run_def i_waits_def ins_row_def Let_def split: sum.splits if_splits)
qed (use assms in \<open>auto simp: ins_next_def ins_run_def\<close>)

lemma i_waitsD:
  assumes "i_waits refuses batch s p q" and "ing_inv refuses batch s"
  obtains a rest n where "it_stage (i_txn s p) = IInserting (a # rest) n" and "i_claims s (row_key a) = Some q"
    and "row_key a \<in> keys_of (it_own (i_txn s q))" and "row_key a \<notin> keys_of (it_own (i_txn s p))"
proof -
  obtain a rest n where a: "it_stage (i_txn s p) = IInserting (a # rest) n" "i_claims s (row_key a) = Some q"
    "ins_next refuses (batch p) NoFault p s = None"
    using assms(1) by (auto simp: i_waits_def)
  have "ins_row refuses a rest n p s = None" using a by (simp add: ins_next_def ins_run_def)
  then have "row_key a \<notin> keys_of (it_own (i_txn s p))"
    using row_key_known [of a "events (iview (i_txn s p) (i_tabs s))"]
    by (auto simp: ins_row_def insert_event_def iview_def Let_def image_Un split: option.splits if_splits)
  with a claims_okD [OF ing_invD(3) [OF assms(2)]] show thesis by (intro that) auto
qed

definition in_order :: "(string \<times> string \<Rightarrow> nat) \<Rightarrow> (ipid \<Rightarrow> insert_event_params list) \<Rightarrow> bool" where
  "in_order rank batch \<longleftrightarrow>
     inj_on rank (\<Union>p. row_key ` set (batch p)) \<and> (\<forall>p. sorted (map (rank \<circ> row_key) (batch p)))"

definition next_rank :: "(string \<times> string \<Rightarrow> nat) \<Rightarrow> isys \<Rightarrow> ipid \<Rightarrow> nat" where
  "next_rank rank s p =
     (case it_stage (i_txn s p) of IInserting (a # rest) n \<Rightarrow> rank (row_key a) | _ \<Rightarrow> 0)"

lemma i_waits_rank:
  assumes "ing_inv refuses batch s" and "in_order rank batch"
    and "i_waits refuses batch s p q" and "i_waits refuses batch s q r"
  shows "next_rank rank s p < next_rank rank s q"
proof -
  obtain a ra na where a: "it_stage (i_txn s p) = IInserting (a # ra) na" "row_key a \<in> keys_of (it_own (i_txn s q))"
    using i_waitsD [OF assms(3,1)] by metis
  obtain b rb nb where b: "it_stage (i_txn s q) = IInserting (b # rb) nb" "row_key b \<notin> keys_of (it_own (i_txn s q))"
    using i_waitsD [OF assms(4,1)] by metis
  obtain through where t: "batch q = through @ b # rb" "it_own (i_txn s q) = news (it_start (i_txn s q)) through (keys_of (events (i_tabs s)))"
    using ing_invD(4) [OF assms(1), of q] b(1) by (auto simp: landing_ok_def)
  have k: "row_key a \<in> row_key ` set through" using a(2) unfolding t(2) news_keys by blast
  then obtain a' where a': "a' \<in> set through" "row_key a' = row_key a" by auto
  have "sorted (map (rank \<circ> row_key) (through @ b # rb))" using assms(2) t(1) unfolding in_order_def by metis
  with a' have "rank (row_key a) \<le> rank (row_key b)" by (force simp: sorted_append)
  moreover have "rank (row_key a) \<noteq> rank (row_key b)"
  proof
    assume e: "rank (row_key a) = rank (row_key b)"
    have "row_key a \<in> (\<Union>p. row_key ` set (batch p))" "row_key b \<in> (\<Union>p. row_key ` set (batch p))"
      using k t(1) by (auto intro!: exI [of _ q])
    with e assms(2) have "row_key a = row_key b" by (auto simp: in_order_def dest: inj_onD)
    with a(2) b(2) show False by simp
  qed
  ultimately show ?thesis using a(1) b(1) by (simp add: next_rank_def)
qed

lemma i_waits_chain:
  assumes "ing_inv refuses batch s" and "in_order rank batch"
    and "(i_waits refuses batch s)\<^sup>+\<^sup>+ p q" and "i_waits refuses batch s q r"
  shows "next_rank rank s p < next_rank rank s q"
  using assms(3,4)
proof (induction arbitrary: r)
  case (base q)
  then show ?case using i_waits_rank [OF assms(1,2)] by blast
next
  case (step q q')
  then show ?case using i_waits_rank [OF assms(1,2)] less_trans by blast
qed

lemma i_waits_progress:
  assumes "ing_inv refuses batch s" and "in_order rank batch"
    and "\<And>out. it_stage (i_txn s p) \<noteq> IDone out"
  shows "\<exists>q s'. (i_waits refuses batch s)\<^sup>*\<^sup>* p q \<and> ins_next refuses (batch q) NoFault q s = Some s'"
  using assms(3)
proof (induction "card {k \<in> dom (i_claims s). next_rank rank s p \<le> rank k}" arbitrary: p rule: less_induct)
  case less
  show ?case
  proof (cases "ins_next refuses (batch p) NoFault p s")
    case None
    then obtain q where w: "i_waits refuses batch s p q" using i_stuck_waits [OF less.prems] by blast
    obtain a rest n where a: "it_stage (i_txn s p) = IInserting (a # rest) n" "i_claims s (row_key a) = Some q"
      "row_key a \<in> keys_of (it_own (i_txn s q))"
      using i_waitsD [OF w assms(1)] by metis
    have busy: "it_stage (i_txn s q) \<noteq> IDone out" for out
      using a(3) ing_invD(4) [OF assms(1), of q] by (auto simp: landing_ok_def)
    show ?thesis
    proof (cases "ins_next refuses (batch q) NoFault q s")
      case None
      then obtain r where "i_waits refuses batch s q r" using i_stuck_waits [OF busy] by blast
      then have lt: "next_rank rank s p < next_rank rank s q" by (rule i_waits_rank [OF assms(1,2) w])
      have "{k \<in> dom (i_claims s). next_rank rank s q \<le> rank k} \<subset> {k \<in> dom (i_claims s). next_rank rank s p \<le> rank k}"
      proof (rule psubsetI)
        have "row_key a \<in> {k \<in> dom (i_claims s). next_rank rank s p \<le> rank k}"
          "row_key a \<notin> {k \<in> dom (i_claims s). next_rank rank s q \<le> rank k}"
          using a(1,2) lt by (auto simp: next_rank_def)
        then show "{k \<in> dom (i_claims s). next_rank rank s q \<le> rank k} \<noteq> {k \<in> dom (i_claims s). next_rank rank s p \<le> rank k}"
          by metis
      qed (use lt in auto)
      then have "card {k \<in> dom (i_claims s). next_rank rank s q \<le> rank k} < card {k \<in> dom (i_claims s). next_rank rank s p \<le> rank k}"
        using ing_invD(2) [OF assms(1)] by (intro psubset_card_mono) auto
      from less.hyps [OF this busy] obtain q' s' where "(i_waits refuses batch s)\<^sup>*\<^sup>* q q'"
        "ins_next refuses (batch q') NoFault q' s = Some s'" by blast
      with w show ?thesis by (meson converse_rtranclp_into_rtranclp)
    next
      case (Some s')
      with w show ?thesis by blast
    qed
  next
    case (Some s')
    then show ?thesis by blast
  qed
qed

text \<open>C22: batches that list their events in a common order, such as a batch and its retries, never block
  each other for good: no request waits for itself through others, and an unfinished request or one that
  it waits for can take its next step.\<close>

theorem conc_ingest_progress:
  assumes "ing_reachable refuses batch c s" and "in_order rank batch"
    and "\<And>out. it_stage (i_txn s p) \<noteq> IDone out"
  shows "(\<exists>q s'. (i_waits refuses batch s)\<^sup>*\<^sup>* p q \<and> ins_next refuses (batch q) NoFault q s = Some s') \<and>
    \<not> (i_waits refuses batch s)\<^sup>+\<^sup>+ p p"
proof
  note inv = ing_reachable_inv [OF assms(1)]
  show "\<exists>q s'. (i_waits refuses batch s)\<^sup>*\<^sup>* p q \<and> ins_next refuses (batch q) NoFault q s = Some s'"
    by (rule i_waits_progress [OF inv assms(2,3)])
  show "\<not> (i_waits refuses batch s)\<^sup>+\<^sup>+ p p"
  proof
    assume c: "(i_waits refuses batch s)\<^sup>+\<^sup>+ p p"
    then obtain r where "i_waits refuses batch s p r" by (blast dest: tranclpD)
    from i_waits_chain [OF inv assms(2) c this] show False by simp
  qed
qed

section \<open>One batch alone\<close>

fun ins_alone ::
  "nat \<Rightarrow> (insert_event_params \<Rightarrow> gerr option) \<Rightarrow> insert_event_params list \<Rightarrow> ipid \<Rightarrow> isys \<Rightarrow> isys" where
  "ins_alone 0 refuses rows p s = s"
| "ins_alone (Suc n) refuses rows p s =
     (case ins_next refuses rows NoFault p s of None \<Rightarrow> s | Some s' \<Rightarrow> ins_alone n refuses rows p s')"

lemma ins_alone_done: "it_stage (i_txn s p) = IDone out \<Longrightarrow> ins_alone n refuses rows p s = s"
  by (cases n) (simp_all add: ins_next_def)

text \<open>The loop of \<^verbatim>\<open>insertBatch\<close> and the commit behind it, from the state in which the batch has been gone
  through up to \<open>rest\<close>.\<close>

definition alone_outcome :: "ipid \<Rightarrow> (gerr + int) \<times> tx \<times> world \<Rightarrow> tables \<Rightarrow> isys \<Rightarrow> bool" where
  "alone_outcome p r c s' \<longleftrightarrow>
     (case r of
        (Inl e, x, w) \<Rightarrow> it_stage (i_txn s' p) = IDone (Inl e) \<and> i_tabs s' = c
      | (Inr n, x, w) \<Rightarrow> it_stage (i_txn s' p) = IDone (Inr n) \<and> i_tabs s' = tx_tabs x)"

lemma alone_rows:
  assumes "it_stage (i_txn s p) = IInserting rest n" and "w_script w = []" and "\<not> tx_failed x"
    and "tx_now x = it_start (i_txn s p)" and "tx_tabs x = iview (i_txn s p) (i_tabs s)"
    and "\<And>k q. i_claims s k = Some q \<Longrightarrow> k \<in> keys_of (it_own (i_txn s p))"
  shows "alone_outcome p (insert_rows refuses rest n x w) (i_tabs s)
    (ins_alone (Suc (length rest)) refuses rows p s)"
  using assms
proof (induction rest arbitrary: n x w s)
  case Nil
  then show ?case
    by (simp add: alone_outcome_def ins_next_def ins_run_def i_finish_def ins_commit_def)
next
  case (Cons a rest)
  let ?t = "i_txn s p" and ?v = "emit (WInsert ''InsertEvent'') w"
  have step: "ins_next refuses rows NoFault p s = ins_row refuses a rest n p s"
    using Cons.prems(1) by (simp add: ins_next_def ins_run_def)
  obtain r t where i: "insert_event refuses a (it_start ?t) (iview ?t (i_tabs s)) = (r, t)" by fastforce
  show ?case
  proof (cases r)
    case (Inl e)
    with i have s': "ins_row refuses a rest n p s = Some (i_finish p (Inl e) s)" by (simp add: ins_row_def)
    have d: "it_stage (i_txn (i_finish p (Inl e) s) p) = IDone (Inl e)" by (simp add: i_finish_def)
    show ?thesis
      using i Inl Cons.prems(2-5) ins_alone_done [OF d]
      by (simp add: step s' alone_outcome_def tx_exec_def next_fault_quiet i_finish_def)
  next
    case (Inr k)
    have q: "tx_exec (WInsert ''InsertEvent'') (insert_event refuses a) x w = (Inr k, x\<lparr>tx_tabs := t\<rparr>, ?v)"
      by (rule tx_exec_quiet) (use Cons.prems(2-5) i Inr in simp_all)
    note t = insert_event_Inr [OF i [unfolded Inr]]
    have r: "insert_rows refuses (a # rest) n x w = insert_rows refuses rest (n + k) (x\<lparr>tx_tabs := t\<rparr>) ?v"
      by (simp add: q)
    show ?thesis
    proof (cases "k = 0")
      case True
      then have s': "ins_row refuses a rest n p s = Some (i_goto p (IInserting rest (n + k)) s)"
        using i Inr by (simp add: ins_row_def)
      have same: "t = iview ?t (i_tabs s)"
        using i Inr True by (auto simp: insert_event_def split: option.splits if_splits)
      have "alone_outcome p (insert_rows refuses rest (n + k) (x\<lparr>tx_tabs := t\<rparr>) ?v) (i_tabs s)
          (ins_alone (Suc (length rest)) refuses rows p (i_goto p (IInserting rest (n + k)) s))"
        using Cons.IH [of "i_goto p (IInserting rest (n + k)) s" "n + k" ?v "x\<lparr>tx_tabs := t\<rparr>"] Cons.prems same
        by (simp add: i_goto_def iview_def del: ins_alone.simps)
      then show ?thesis by (subst ins_alone.simps) (simp add: r step s' del: ins_alone.simps insert_rows.simps)
    next
      case False
      then have k: "k = 1" and new: "row_key a \<notin> keys_of (events (iview ?t (i_tabs s)))"
        and tn: "t = (iview ?t (i_tabs s))\<lparr>events := events (iview ?t (i_tabs s)) @ [event_row_of a (it_start ?t)]\<rparr>"
        using i Inr row_key_known [of a "events (iview ?t (i_tabs s))"]
        by (auto simp: insert_event_def split: option.splits if_splits)
      have free: "i_claims s (row_key a) = None"
        using new Cons.prems(6) [of "row_key a"] by (cases "i_claims s (row_key a)") (auto simp: iview_def)
      let ?s = "s\<lparr>i_claims := (i_claims s)(row_key a := Some p),
        i_txn := (i_txn s)(p := ?t\<lparr>it_stage := IInserting rest (n + k),
          it_own := it_own ?t @ [event_row_of a (it_start ?t)]\<rparr>)\<rparr>"
      have s': "ins_row refuses a rest n p s = Some ?s"
        using i Inr False free by (simp add: ins_row_def Let_def)
      have "alone_outcome p (insert_rows refuses rest (n + k) (x\<lparr>tx_tabs := t\<rparr>) ?v) (i_tabs ?s)
          (ins_alone (Suc (length rest)) refuses rows p ?s)"
        by (rule Cons.IH) (use Cons.prems tn in \<open>auto simp: iview_def split: if_splits\<close>)
      then show ?thesis by (subst ins_alone.simps) (simp add: r step s' del: ins_alone.simps insert_rows.simps)
    qed
  qed
qed

lemma insert_rows_script:
  "insert_rows refuses rows n x w = (r, x', w') \<Longrightarrow> w_script w = [] \<Longrightarrow> w_script w' = []"
proof (induction rows arbitrary: n x w)
  case (Cons a rows)
  obtain k x1 w1 where e: "tx_exec (WInsert ''InsertEvent'') (insert_event refuses a) x w = (k, x1, w1)"
    by (metis prod_cases3)
  with Cons.prems(2) have "w_script w1 = []"
    by (auto simp: tx_exec_def next_fault_quiet Let_def split: if_splits prod.splits sum.splits)
  with e Cons show ?case by (auto split: sum.splits)
qed simp

text \<open>C21: a batch that nobody interrupts is \<open>db_insert_batch\<close>.  Where nothing fails, the steps of one request
  alone end with the answer of the sequential model and leave the tables as that leaves them, also when
  the database refuses a row.\<close>

theorem ingest_uninterrupted:
  assumes "w_script w = []" and "s = ins_alone (length rows + 2) refuses rows p (fresh_ingest (w_tabs w) (w_db w))"
  shows "it_stage (i_txn s p) = IDone (fst (db_insert_batch refuses rows w)) \<and>
    i_tabs s = w_tabs (snd (db_insert_batch refuses rows w))"
proof -
  let ?x = "\<lparr>tx_now = w_db w, tx_tabs = w_tabs w, tx_failed = False\<rparr>" and ?w = "emit WBegin w"
  let ?s = "ins_begin rows p (fresh_ingest (w_tabs w) (w_db w))"
  have b: "tx_begin w = (Inr ?x, ?w)" using assms(1) by (simp add: tx_begin_def next_fault_quiet)
  have b0: "ins_next refuses rows NoFault p (fresh_ingest (w_tabs w) (w_db w)) = Some ?s"
    by (simp add: ins_next_def ins_run_def fresh_ingest_def)
  have s: "s = ins_alone (Suc (length rows)) refuses rows p ?s"
    using b0 unfolding assms(2) by (simp add: numeral_2_eq_2 del: ins_alone.simps(1))
  obtain r x1 w1 where i: "insert_rows refuses rows 0 ?x ?w = (r, x1, w1)" by (metis prod_cases3)
  have "alone_outcome p (insert_rows refuses rows 0 ?x ?w) (i_tabs ?s) s"
    unfolding s by (rule alone_rows) (use assms(1) in \<open>simp_all add: ins_begin_def fresh_ingest_def iview_def\<close>)
  then have a: "alone_outcome p (r, x1, w1) (w_tabs w) s" by (simp add: i ins_begin_def fresh_ingest_def)
  show ?thesis
  proof (cases r)
    case (Inl e)
    with a insert_rows_frame [OF i] show ?thesis by (simp add: alone_outcome_def db_insert_batch_def b i)
  next
    case (Inr n)
    have x1: "\<not> tx_failed x1" using insert_rows_Inr [OF i [unfolded Inr]] by simp
    have q: "w_script w1 = []" using insert_rows_script [OF i] assms(1) by simp
    have "tx_commit x1 w1 = (Inr (), (emit WCommit w1)\<lparr>w_tabs := tx_tabs x1\<rparr>)"
      using x1 q by (simp add: tx_commit_def next_fault_quiet)
    with a Inr show ?thesis by (simp add: alone_outcome_def db_insert_batch_def b i)
  qed
qed

section \<open>Two requests\<close>

definition one_event :: "string \<Rightarrow> insert_event_params" where
  "one_event i =
     \<lparr>ie_source = ''app'', ie_event_id = i, ie_kind = ''log'', ie_trace_id = ''t'', ie_name = ''start'',
      ie_event_ts = 0, ie_attributes = ''{}''\<rparr>"

text \<open>A batch sent twice, and the same events in opposite orders.\<close>

definition sent_twice :: "ipid \<Rightarrow> insert_event_params list" where
  "sent_twice p = (if p < 2 then [one_event ''a'', one_event ''b''] else [])"

definition crossed :: "ipid \<Rightarrow> insert_event_params list" where
  "crossed p =
     (if p = 0 then [one_event ''a'', one_event ''b'']
      else if p = 1 then [one_event ''b'', one_event ''a''] else [])"

definition accept_event :: "insert_event_params \<Rightarrow> gerr option" where "accept_event a = None"

lemmas toy_steps =
  ins_next_def ins_run_def ins_begin_def ins_row_def i_finish_def ins_commit_def i_goto_def
  insert_event_def iview_def fresh_ingest_def accept_event_def toy_tables_def one_event_def
  event_row_of_def row_key_def Let_def

lemma run_reachable: "i_run accept_event batch ps (fresh_ingest toy_tables 0) = Some s \<Longrightarrow>
    ing_reachable accept_event batch toy_tables s"
  by (auto simp: ing_reachable_def events_unique_def toy_tables_def dest: i_run_steps)

lemma twice_order:
  "in_order (\<lambda>k. if k = (''app'', ''a'') then 0 else 1) sent_twice"
  by (auto simp: in_order_def sent_twice_def one_event_def row_key_def inj_on_def split: if_splits)

theorem conc_ingest_atomic_witness:
  "\<exists>s s'. i_run accept_event sent_twice [0, 1, 0, 0] (fresh_ingest toy_tables 0) = Some s \<and>
     ins_next accept_event (sent_twice 0) NoFault 0 s = Some s' \<and>
     i_tabs s' = landed 0 (sent_twice 0) toy_tables \<and> it_stage (i_txn s' 0) = IDone (Inr 2)"
proof -
  obtain s where s: "i_run accept_event sent_twice [0, 1, 0, 0] (fresh_ingest toy_tables 0) = Some s"
    "it_stage (i_txn s 0) = IInserting [] 2" "i_tabs s = toy_tables" "it_start (i_txn s 0) = 0"
    by (simp add: toy_steps sent_twice_def)
  then obtain s' where s': "ins_next accept_event (sent_twice 0) NoFault 0 s = Some s'"
    "it_stage (i_txn s' 0) = IDone (Inr 2)"
    by (simp add: ins_next_def ins_run_def i_finish_def)
  from conc_ingest_atomic [OF run_reachable [OF s(1)] s'(1)] s s' show ?thesis by auto
qed

theorem conc_ingest_counts_witness:
  "\<exists>s. i_run accept_event sent_twice [0, 1, 0, 0, 0, 1, 1, 1] (fresh_ingest toy_tables 0) = Some s \<and>
     accepted_by s 0 = 2 \<and> accepted_by s 1 = 0 \<and>
     (\<Sum>p\<in>{0, 1}. accepted_by s p) \<le> int (length (events (i_tabs s))) \<and> events_unique (i_tabs s)"
proof -
  obtain s where s: "i_run accept_event sent_twice [0, 1, 0, 0, 0, 1, 1, 1] (fresh_ingest toy_tables 0) = Some s"
    "accepted_by s 0 = 2" "accepted_by s 1 = 0"
    by (simp add: toy_steps sent_twice_def accepted_by_def)
  from conc_ingest_counts [OF run_reachable [OF s(1)], of "{0, 1}"] s show ?thesis
    by (simp add: toy_tables_def)
qed

theorem conc_ingest_progress_witness:
  "\<exists>s q s'. i_run accept_event sent_twice [0, 1, 0] (fresh_ingest toy_tables 0) = Some s \<and>
     i_waits accept_event sent_twice s 1 0 \<and> (i_waits accept_event sent_twice s)\<^sup>*\<^sup>* 1 q \<and>
     ins_next accept_event (sent_twice q) NoFault q s = Some s'"
proof -
  obtain s n where s: "i_run accept_event sent_twice [0, 1, 0] (fresh_ingest toy_tables 0) = Some s"
    "it_stage (i_txn s 1) = IInserting (sent_twice 1) n" "i_waits accept_event sent_twice s 1 0"
    by (simp add: toy_steps sent_twice_def i_waits_def)
  from conc_ingest_progress [OF run_reachable [OF s(1)] twice_order, of 1] s show ?thesis by auto
qed

theorem ingest_uninterrupted_witness:
  "\<exists>s. s = ins_alone 4 accept_event (sent_twice 0) 0 (fresh_ingest toy_tables 0) \<and>
     it_stage (i_txn s 0) = IDone (Inr 2) \<and>
     i_tabs s = w_tabs (snd (db_insert_batch accept_event (sent_twice 0) (quiet_world toy_tables 0)))"
proof -
  let ?s = "ins_alone 4 accept_event (sent_twice 0) 0 (fresh_ingest toy_tables 0)"
  have four: "length (sent_twice 0) + 2 = 4" by (simp add: sent_twice_def)
  have s: "?s = ins_alone (length (sent_twice 0) + 2) accept_event (sent_twice 0) 0
      (fresh_ingest (w_tabs (quiet_world toy_tables 0)) (w_db (quiet_world toy_tables 0)))"
    unfolding four by simp
  have "fst (db_insert_batch accept_event (sent_twice 0) (quiet_world toy_tables 0)) = Inr 2"
    by (simp add: db_insert_batch_def tx_begin_def tx_exec_def tx_commit_def next_fault_quiet sent_twice_def toy_steps)
  with ingest_uninterrupted [OF _ s] show ?thesis by (intro exI [of _ ?s]) simp
qed

text \<open>Without a common order two batches can block each other: each has inserted the event the other comes
  to next, and only an error (PostgreSQL's deadlock detector picks a victim) ends it.  The victim's batch
  is rolled back as a whole and its client is answered 500, so that it sends the batch again.\<close>

lemma crossed_batches_block:
  "\<exists>s. i_run accept_event crossed [0, 1, 0, 1] (fresh_ingest toy_tables 0) = Some s \<and>
     i_waits accept_event crossed s 0 1 \<and> i_waits accept_event crossed s 1 0"
  by (simp add: toy_steps crossed_def i_waits_def)

end
