(* ===== verification/SchemaInit.thy ===== *)
theory SchemaInit
  imports Ingest
begin

text \<open>
  \<^verbatim>\<open>internal/modules/observability/schema.go\<close>: the embedded schemas are registered and compiled once at
  start, and any failure stops the process.  The compiler of the JSON Schema library is the
  parameter \<open>schema_lib\<close>, the embedded files are the map \<open>fs\<close>.
\<close>

definition event_schema_id :: string where
  "event_schema_id =
     ''https://github.com/shaomingbo/server-infra-toolkit/internal/modules/observability/contract/event.schema.json''"
definition batch_schema_id :: string where
  "batch_schema_id =
     ''https://github.com/shaomingbo/server-infra-toolkit/internal/modules/observability/contract/batch.schema.json''"

record ('c, 's) schema_lib =
  sl_new_compiler :: 'c
  sl_unmarshal :: "string \<Rightarrow> json option"
  sl_add_resource :: "'c \<Rightarrow> string \<Rightarrow> json \<Rightarrow> 'c option"
  sl_compile :: "'c \<Rightarrow> string \<Rightarrow> 's option"
  sl_validate :: "'s \<Rightarrow> json \<Rightarrow> bool"

datatype schema_panic =
    SchemaUnreadable string
  | SchemaUndecodable string
  | SchemaNotAdded string
  | SchemaNotCompiled string

definition add_embedded_resource ::
  "('c, 's) schema_lib \<Rightarrow> (string \<rightharpoonup> string) \<Rightarrow> 'c \<Rightarrow> string \<Rightarrow> string \<Rightarrow> schema_panic + 'c" where
  "add_embedded_resource lib fs c url path =
     (case fs path of
        None \<Rightarrow> Inl (SchemaUnreadable path)
      | Some raw \<Rightarrow>
          (case sl_unmarshal lib raw of
             None \<Rightarrow> Inl (SchemaUndecodable path)
           | Some doc \<Rightarrow>
               (case sl_add_resource lib c url doc of
                  None \<Rightarrow> Inl (SchemaNotAdded path)
                | Some c' \<Rightarrow> Inr c')))"

text \<open>\<^verbatim>\<open>init\<close>: the event schema and the batch schema, or the panic.\<close>

definition schema_init :: "('c, 's) schema_lib \<Rightarrow> (string \<rightharpoonup> string) \<Rightarrow> schema_panic + 's \<times> 's" where
  "schema_init lib fs =
     (case add_embedded_resource lib fs (sl_new_compiler lib) event_schema_id ''contract/event.schema.json'' of
        Inl p \<Rightarrow> Inl p
      | Inr c1 \<Rightarrow>
          (case add_embedded_resource lib fs c1 batch_schema_id ''contract/batch.schema.json'' of
             Inl p \<Rightarrow> Inl p
           | Inr c2 \<Rightarrow>
               (case sl_compile lib c2 event_schema_id of
                  None \<Rightarrow> Inl (SchemaNotCompiled ''event'')
                | Some ev \<Rightarrow>
                    (case sl_compile lib c2 batch_schema_id of
                       None \<Rightarrow> Inl (SchemaNotCompiled ''batch'')
                     | Some ba \<Rightarrow> Inr (ev, ba)))))"

text \<open>What the handler validates with.\<close>

definition compiled_lib :: "('c, 's) schema_lib \<Rightarrow> 's \<times> 's \<Rightarrow> ingest_lib" where
  "compiled_lib lib ss =
     \<lparr>il_unmarshal = sl_unmarshal lib, il_batch_ok = sl_validate lib (snd ss),
      il_event_ok = sl_validate lib (fst ss)\<rparr>"

text \<open>A process that comes up validates against the two embedded documents, each compiled under its
  own identifier.\<close>

lemma add_embedded_resource_Inr:
  assumes "add_embedded_resource lib fs c url path = Inr c'"
  obtains raw doc where "fs path = Some raw" and "sl_unmarshal lib raw = Some doc"
    and "sl_add_resource lib c url doc = Some c'"
  using assms by (auto simp: add_embedded_resource_def split: option.splits intro: that)

lemma schema_init_Inr:
  assumes "schema_init lib fs = Inr (ev, ba)"
  obtains raw_e raw_b doc_e doc_b c1 c2
  where "fs ''contract/event.schema.json'' = Some raw_e" and "sl_unmarshal lib raw_e = Some doc_e"
    and "fs ''contract/batch.schema.json'' = Some raw_b" and "sl_unmarshal lib raw_b = Some doc_b"
    and "sl_add_resource lib (sl_new_compiler lib) event_schema_id doc_e = Some c1"
    and "sl_add_resource lib c1 batch_schema_id doc_b = Some c2"
    and "sl_compile lib c2 event_schema_id = Some ev" and "sl_compile lib c2 batch_schema_id = Some ba"
proof -
  obtain c1 where a: "add_embedded_resource lib fs (sl_new_compiler lib) event_schema_id
      ''contract/event.schema.json'' = Inr c1"
    using assms by (auto simp: schema_init_def split: sum.splits)
  obtain c2 where b: "add_embedded_resource lib fs c1 batch_schema_id ''contract/batch.schema.json'' = Inr c2"
    using assms a by (auto simp: schema_init_def split: sum.splits)
  have "sl_compile lib c2 event_schema_id = Some ev" "sl_compile lib c2 batch_schema_id = Some ba"
    using assms a b by (auto simp: schema_init_def split: option.splits)
  with that show thesis by (metis a add_embedded_resource_Inr b)
qed

end
