(* ===== verification/Config.thy ===== *)
theory Config
  imports GoJson Sha256
begin

text \<open>
  \<^verbatim>\<open>internal/platform/config/config.go\<close>: loading the configuration from the environment, with the
  fail-closed coupling of the ingest endpoint to its accepted token hashes, the redacting secret,
  and the hash convention of the ingest token.  An environment is a function that gives the empty
  string for an unset variable, as \<^verbatim>\<open>os.Getenv\<close> does, after the best-effort load of \<^verbatim>\<open>.env\<close>.
\<close>

section \<open>Secrets\<close>

datatype secret = Secret string

definition redacted :: string where "redacted = ''[REDACTED]''"

definition secret_string :: "secret \<Rightarrow> string" where "secret_string s = redacted"
definition secret_marshal_json :: "secret \<Rightarrow> string" where "secret_marshal_json s = json_quote redacted"
definition secret_log_value :: "secret \<Rightarrow> string" where "secret_log_value s = redacted"

fun reveal :: "secret \<Rightarrow> string" where
  "reveal (Secret s) = s"

section \<open>Ingest-token hashes\<close>

type_synonym env = "string \<Rightarrow> string"

datatype config_error =
    MissingDSN
  | TooManyHashes nat
  | IllegalHash
  | EmptyInputHash
  | EnabledWithoutHashes

definition empty_input_sha256 :: string where
  "empty_input_sha256 = ''e3b0c44298fc1c149afbf4c8996fb92427ae41e4649b934ca495991b7852b855''"

text \<open>The regular expression of a digest: 64 lower-case hexadecimal digits.\<close>

definition sha256_hex :: "string \<Rightarrow> bool" where
  "sha256_hex s \<longleftrightarrow> length s = 64 \<and> list_all is_lower_hex s"

fun check_hashes :: "string list \<Rightarrow> config_error + string list" where
  "check_hashes [] = Inr []"
| "check_hashes (p # ps) =
     (let h = trim_space p in
      if \<not> sha256_hex h then Inl IllegalHash
      else if h = empty_input_sha256 then Inl EmptyInputHash
      else (case check_hashes ps of Inl e \<Rightarrow> Inl e | Inr hs \<Rightarrow> Inr (h # hs)))"

definition parse_ingest_token_hashes :: "string \<Rightarrow> config_error + string list" where
  "parse_ingest_token_hashes raw =
     (if trim_space raw = [] then Inr []
      else let parts = split_on (CHR '','') raw in
        if 2 < length parts then Inl (TooManyHashes (length parts)) else check_hashes parts)"

definition hash_ingest_token :: "string \<Rightarrow> string" where
  "hash_ingest_token token = hex_enc (sha256 token)"

section \<open>Loading\<close>

record config =
  cf_port :: string
  cf_version :: string
  cf_dsn :: secret
  cf_ingest_enabled :: bool
  cf_ingest_hashes :: "string list"

definition config_load :: "env \<Rightarrow> config_error + config" where
  "config_load env =
     (let port = (if env ''PORT'' = [] then ''8080'' else env ''PORT'');
          dsn = env ''NEON_DSN'';
          enabled = (env ''EVENTS_INGEST_ENABLED'' = ''true'') in
      if dsn = [] then Inl MissingDSN
      else (case parse_ingest_token_hashes (env ''EVENTS_INGEST_TOKEN_SHA256S'') of
          Inl e \<Rightarrow> Inl e
        | Inr hashes \<Rightarrow>
            if enabled \<and> hashes = [] then Inl EnabledWithoutHashes
            else Inr \<lparr>cf_port = port, cf_version = [], cf_dsn = Secret dsn,
                      cf_ingest_enabled = enabled, cf_ingest_hashes = hashes\<rparr>))"

section \<open>What a loaded configuration guarantees\<close>

lemma hash_of_nothing: "hash_ingest_token [] = empty_input_sha256"
  by (simp add: hash_ingest_token_def empty_input_sha256_def sha256_empty_hex)

lemma hash_shape: "sha256_hex (hash_ingest_token t)"
  by (simp add: sha256_hex_def hash_ingest_token_def hex_enc_lower)

lemma check_hashes_ok:
  "check_hashes ps = Inr hs \<Longrightarrow>
     length hs = length ps \<and> (\<forall>h \<in> set hs. sha256_hex h \<and> h \<noteq> empty_input_sha256)"
  by (induction ps arbitrary: hs) (auto simp: Let_def split: if_splits sum.splits)

lemma parsed_hashes:
  assumes "parse_ingest_token_hashes raw = Inr hs"
  shows "length hs \<le> 2" and "h \<in> set hs \<Longrightarrow> sha256_hex h \<and> h \<noteq> empty_input_sha256"
  using assms check_hashes_ok
  by (auto simp: parse_ingest_token_hashes_def Let_def split: if_splits)

lemma config_load_Inr:
  assumes "config_load env = Inr cfg"
  shows "parse_ingest_token_hashes (env ''EVENTS_INGEST_TOKEN_SHA256S'') = Inr (cf_ingest_hashes cfg)"
    and "cf_ingest_enabled cfg \<longleftrightarrow> env ''EVENTS_INGEST_ENABLED'' = ''true''"
    and "cf_ingest_enabled cfg \<Longrightarrow> cf_ingest_hashes cfg \<noteq> []"
    and "cf_dsn cfg = Secret (env ''NEON_DSN'')" and "env ''NEON_DSN'' \<noteq> []"
  using assms by (auto simp: config_load_def Let_def split: if_splits sum.splits)

lemma loaded_hashes:
  assumes "config_load env = Inr cfg"
  shows "length (cf_ingest_hashes cfg) \<le> 2"
    and "h \<in> set (cf_ingest_hashes cfg) \<Longrightarrow> sha256_hex h \<and> h \<noteq> hash_ingest_token []"
  using parsed_hashes [OF config_load_Inr(1) [OF assms]] by (simp_all add: hash_of_nothing)

section \<open>What a well-formed environment loads\<close>

lemma hash_graphic: "list_all graphic (hash_ingest_token t)" "CHR '','' \<notin> set (hash_ingest_token t)"
proof -
  have "list_all is_lower_hex (hash_ingest_token t)" using hash_shape [of t] by (simp add: sha256_hex_def)
  then show "list_all graphic (hash_ingest_token t)" "CHR '','' \<notin> set (hash_ingest_token t)"
    by (auto simp: list_all_iff is_lower_hex_def graphic_def)
qed

lemma hash_nonempty [simp]: "hash_ingest_token t \<noteq> []"
  using hash_shape [of t] by (auto simp: sha256_hex_def)

lemma check_own_hashes:
  "\<forall>t \<in> set ts. hash_ingest_token t \<noteq> hash_ingest_token [] \<Longrightarrow>
     check_hashes (map hash_ingest_token ts) = Inr (map hash_ingest_token ts)"
  by (induction ts)
     (simp_all add: trim_space_graphic [OF hash_graphic(1)] hash_shape hash_of_nothing)

lemma parse_own_hashes:
  assumes "ts \<noteq> []" and "length ts \<le> 2" and "\<forall>t \<in> set ts. hash_ingest_token t \<noteq> hash_ingest_token []"
  shows "parse_ingest_token_hashes (str_join '','' (map hash_ingest_token ts)) = Inr (map hash_ingest_token ts)"
proof -
  have "\<exists>a b. ts = [a] \<or> ts = [a, b]" using assms(1,2) by (cases ts rule: remdups_adj.cases) auto
  then have sp: "split_on (CHR '','') (str_join '','' (map hash_ingest_token ts)) = map hash_ingest_token ts"
    using split_on_append [OF hash_graphic(2)] by (auto simp: split_on_no_sep hash_graphic(2))
  have "list_all graphic (str_join '','' (map hash_ingest_token ts))"
    using \<open>\<exists>a b. ts = [a] \<or> ts = [a, b]\<close> hash_graphic(1) by (auto simp: graphic_def)
  then have "trim_space (str_join '','' (map hash_ingest_token ts)) \<noteq> []"
    using \<open>\<exists>a b. ts = [a] \<or> ts = [a, b]\<close> by (auto simp: trim_space_graphic)
  with check_own_hashes [OF assms(3)] assms(2) sp show ?thesis
    by (simp add: parse_ingest_token_hashes_def)
qed

end
