(* ===== verification/OfflineSig.thy ===== *)
theory OfflineSig
  imports Config Password
begin

text \<open>
  \<^verbatim>\<open>internal/platform/offlinesig\<close>: the canonical payload of a version-2 signature, the signing gate
  with its key allowlist, the parsing of the private key, and the pin of the embedded contract
  files.  Ed25519 is a parameter: \<open>ed_sign\<close> (\<^verbatim>\<open>ed25519.Sign\<close>) and \<open>ed_from_seed\<close>
  (\<^verbatim>\<open>ed25519.NewKeyFromSeed\<close>); a private key is its 64 bytes, seed and public half, and
  \<^verbatim>\<open>PrivateKey.Public\<close> copies the second half.
\<close>

section \<open>Errors\<close>

datatype sig_error =
    NonPrintableASCII string nat char
  | MissingDigestPrefix string
  | DigestLength nat
  | DigestNotHex char
  | UnknownKeyID string
  | KeyNotActive string string
  | KeyMismatch
  | PayloadRejected sig_error
  | KeyNotBase64
  | KeyLength nat

section \<open>The canonical payload\<close>

definition sig_v2_tag :: string where "sig_v2_tag = ''offline-package-sig-v2''"
definition lf :: char where "lf = CHR 0x0A"
definition digest_prefix :: string where "digest_prefix = ''sha256:''"
definition digest_hex_len :: nat where "digest_hex_len = 64"

record sig_fields =
  sf_version :: string
  sf_digest :: string
  sf_min_app_version :: string
  sf_file_manifest_hash :: string
  sf_rollback_floor :: string

definition printable :: "char \<Rightarrow> bool" where
  "printable c \<longleftrightarrow> 0x20 \<le> ord c \<and> ord c \<le> 0x7E"

fun hygiene_from :: "string \<Rightarrow> nat \<Rightarrow> string \<Rightarrow> sig_error option" where
  "hygiene_from name i [] = None"
| "hygiene_from name i (c # r) =
     (if printable c then hygiene_from name (Suc i) r else Some (NonPrintableASCII name i c))"

definition check_field_hygiene :: "string \<Rightarrow> string \<Rightarrow> sig_error option" where
  "check_field_hygiene name v = hygiene_from name 0 v"

text \<open>\<^verbatim>\<open>strings.ToLower\<close> on a checked, and so pure ASCII, digest.\<close>

definition normalize_digest :: "string \<Rightarrow> sig_error + string" where
  "normalize_digest digest =
     (case check_field_hygiene ''digest'' digest of
        Some e \<Rightarrow> Inl e
      | None \<Rightarrow>
          (case cut_prefix digest_prefix digest of
             None \<Rightarrow> Inl (MissingDigestPrefix digest)
           | Some hex \<Rightarrow>
               if length hex \<noteq> digest_hex_len then Inl (DigestLength (length hex))
               else let lower = map ascii_lower hex in
                 (case find (\<lambda>c. \<not> is_lower_hex c) lower of
                    Some c \<Rightarrow> Inl (DigestNotHex c)
                  | None \<Rightarrow> Inr (digest_prefix @ lower))))"

fun first_error :: "(string \<times> string) list \<Rightarrow> sig_error option" where
  "first_error [] = None"
| "first_error ((name, v) # r) =
     (case check_field_hygiene name v of Some e \<Rightarrow> Some e | None \<Rightarrow> first_error r)"

definition build_canonical_payload :: "sig_fields \<Rightarrow> sig_error + bytes" where
  "build_canonical_payload f =
     (case normalize_digest (sf_digest f) of
        Inl e \<Rightarrow> Inl e
      | Inr digest \<Rightarrow>
          (case first_error
                  [(''version'', sf_version f), (''minAppVersion'', sf_min_app_version f),
                   (''fileManifestHash'', sf_file_manifest_hash f),
                   (''rollbackFloor'', sf_rollback_floor f)] of
             Some e \<Rightarrow> Inl e
           | None \<Rightarrow>
               Inr (str_join [lf]
                 [sig_v2_tag, sf_version f, digest, sf_min_app_version f,
                  sf_file_manifest_hash f, sf_rollback_floor f])))"

section \<open>Signing\<close>

record ed25519 =
  ed_from_seed :: "bytes \<Rightarrow> bytes"
  ed_sign :: "bytes \<Rightarrow> bytes \<Rightarrow> bytes"

definition public_half :: "bytes \<Rightarrow> bytes" where
  "public_half priv = take 32 (drop 32 priv)"

definition sig_wire_prefix :: string where "sig_wire_prefix = ''base64:''"

definition sign_payload :: "ed25519 \<Rightarrow> bytes \<Rightarrow> bytes \<Rightarrow> string" where
  "sign_payload ed payload priv = sig_wire_prefix @ std_enc (ed_sign ed priv payload)"

definition encode_public_key :: "bytes \<Rightarrow> string" where
  "encode_public_key pub = std_enc pub"

definition status_minted :: string where "status_minted = ''minted''"
definition status_active :: string where "status_active = ''active''"

record key_state =
  ks_public :: bytes
  ks_status :: string

type_synonym allowlist = "string \<rightharpoonup> key_state"

definition schema_version :: int where "schema_version = 1"

record active_manifest =
  am_version :: string
  am_url :: string
  am_digest :: string
  am_signature :: string
  am_key_id :: string
  am_timestamp :: int
  am_min_app_version :: string
  am_schema_version :: int
  am_signature_v2 :: string

definition sign_active ::
  "ed25519 \<Rightarrow> active_manifest \<Rightarrow> sig_fields \<Rightarrow> bytes \<Rightarrow> allowlist \<Rightarrow> sig_error + active_manifest" where
  "sign_active ed base f priv allow =
     (case allow (am_key_id base) of
        None \<Rightarrow> Inl (UnknownKeyID (am_key_id base))
      | Some st \<Rightarrow>
          if ks_status st \<noteq> status_active then Inl (KeyNotActive (am_key_id base) (ks_status st))
          else if \<not> constant_time_eq (public_half priv) (ks_public st) then Inl KeyMismatch
          else (case build_canonical_payload f of
              Inl e \<Rightarrow> Inl (PayloadRejected e)
            | Inr payload \<Rightarrow>
                Inr (base\<lparr>am_schema_version := schema_version,
                          am_signature_v2 := sign_payload ed payload priv\<rparr>)))"

definition parse_private_key :: "ed25519 \<Rightarrow> secret \<Rightarrow> sig_error + bytes" where
  "parse_private_key ed s =
     (case std_dec (reveal s) of
        None \<Rightarrow> Inl KeyNotBase64
      | Some raw \<Rightarrow>
          if length raw = 32 then Inr (ed_from_seed ed raw)
          else if length raw = 64 then Inr raw
          else Inl (KeyLength (length raw)))"

section \<open>The pin of the contract files\<close>

text \<open>\<^verbatim>\<open>json.Unmarshal\<close> of the manifest into \<^verbatim>\<open>pinManifest\<close>: the map from file names to digests.
  Unknown members are skipped, \<^verbatim>\<open>null\<close> leaves a string as it is and empties a map, a second
  \<^verbatim>\<open>files\<close> object is merged.\<close>

fun decode_pin_entry :: "(string \<times> json) list \<Rightarrow> string \<Rightarrow> string option" where
  "decode_pin_entry [] d = Some d"
| "decode_pin_entry ((k, v) # ms) d =
     (if find_field [''sha256''] k = None then decode_pin_entry ms d
      else (case v of
          JStr s \<Rightarrow> decode_pin_entry ms s
        | JNull \<Rightarrow> decode_pin_entry ms d
        | _ \<Rightarrow> None))"

fun decode_pin_files :: "(string \<times> json) list \<Rightarrow> (string \<times> string) list \<Rightarrow> (string \<times> string) list option" where
  "decode_pin_files [] m = Some m"
| "decode_pin_files ((name, v) # ms) m =
     (case v of
        JObj es \<Rightarrow>
          (case decode_pin_entry es [] of
             None \<Rightarrow> None | Some d \<Rightarrow> decode_pin_files ms (put name d m))
      | JNull \<Rightarrow> decode_pin_files ms (put name [] m)
      | _ \<Rightarrow> None)"

fun decode_pin_members :: "(string \<times> json) list \<Rightarrow> (string \<times> string) list \<Rightarrow> (string \<times> string) list option" where
  "decode_pin_members [] m = Some m"
| "decode_pin_members ((k, v) # ms) m =
     (if find_field [''files''] k = None then decode_pin_members ms m
      else (case v of
          JObj fs \<Rightarrow>
            (case decode_pin_files fs m of None \<Rightarrow> None | Some m' \<Rightarrow> decode_pin_members ms m')
        | JNull \<Rightarrow> decode_pin_members ms []
        | _ \<Rightarrow> None))"

definition decode_pin :: "bytes \<Rightarrow> (string \<times> string) list option" where
  "decode_pin raw =
     (case json_parse raw of
        None \<Rightarrow> None
      | Some (v, r) \<Rightarrow>
          if skip_ws r \<noteq> [] then None
          else (case v of JObj ms \<Rightarrow> decode_pin_members ms [] | JNull \<Rightarrow> Some [] | _ \<Rightarrow> None))"

datatype pin_panic = PinUnreadable | PinUndecodable | PinEmpty | PinFileMissing string | PinMismatch string

definition contract_path :: "string \<Rightarrow> string" where
  "contract_path name = ''contract/'' @ name"

text \<open>The embedded files, by path.\<close>

definition embedded_sha256 :: "(string \<rightharpoonup> bytes) \<Rightarrow> string \<Rightarrow> string option" where
  "embedded_sha256 fs path = map_option (\<lambda>b. hex_enc (sha256 b)) (fs path)"

text \<open>A map is ranged over in some order; the order decides only which panic comes first.\<close>

fun pin_check :: "(string \<rightharpoonup> bytes) \<Rightarrow> (string \<times> string) list \<Rightarrow> pin_panic option" where
  "pin_check fs [] = None"
| "pin_check fs ((name, want) # r) =
     (case embedded_sha256 fs (contract_path name) of
        None \<Rightarrow> Some (PinFileMissing name)
      | Some got \<Rightarrow> if got \<noteq> want then Some (PinMismatch name) else pin_check fs r)"

definition pin_init :: "(string \<rightharpoonup> bytes) \<Rightarrow> pin_panic option" where
  "pin_init fs =
     (case fs (contract_path ''offline-package-v2-contract-pin.json'') of
        None \<Rightarrow> Some PinUnreadable
      | Some raw \<Rightarrow>
          (case decode_pin raw of
             None \<Rightarrow> Some PinUndecodable
           | Some fl \<Rightarrow> if fl = [] then Some PinEmpty else pin_check fs fl))"

lemma pin_check_None:
  "pin_check fs fl = None \<longleftrightarrow>
     (\<forall>(name, want) \<in> set fl. \<exists>b. fs (contract_path name) = Some b \<and> hex_enc (sha256 b) = want)"
proof (induction fl)
  case (Cons e fl)
  obtain name want where "e = (name, want)" by (cases e)
  with Cons show ?case
    by (cases "fs (contract_path name)") (simp_all add: embedded_sha256_def)
qed simp

lemma pin_init_None:
  "pin_init fs = None \<longleftrightarrow>
     (\<exists>raw fl. fs (contract_path ''offline-package-v2-contract-pin.json'') = Some raw \<and>
        decode_pin raw = Some fl \<and> fl \<noteq> [] \<and>
        (\<forall>(name, want) \<in> set fl. \<exists>b. fs (contract_path name) = Some b \<and> hex_enc (sha256 b) = want))"
  by (auto simp: pin_init_def pin_check_None split: option.splits)

section \<open>What the payload determines\<close>

lemma hygiene_from_None: "hygiene_from name i s = None \<longleftrightarrow> list_all printable s"
  by (induction s arbitrary: i) auto

lemma check_field_hygiene_None: "check_field_hygiene name s = None \<longleftrightarrow> list_all printable s"
  by (simp add: check_field_hygiene_def hygiene_from_None)

lemma first_error_None: "first_error fs = None \<longleftrightarrow> (\<forall>(name, v) \<in> set fs. list_all printable v)"
  by (induction fs) (auto simp: check_field_hygiene_None split: option.splits)

lemma printable_no_lf: "list_all printable s \<Longrightarrow> lf \<notin> set s"
  by (auto simp: list_all_iff printable_def lf_def)

lemma normalize_digest_Inr:
  assumes "normalize_digest d = Inr n"
  obtains hex where "d = digest_prefix @ hex" and "length hex = 64"
    and "n = digest_prefix @ map ascii_lower hex" and "list_all is_lower_hex (map ascii_lower hex)"
    and "list_all printable d"
  using assms
  by (auto simp: normalize_digest_def check_field_hygiene_None cut_prefix_iff find_None_all
      list_all_iff digest_hex_len_def Let_def split: option.splits if_splits)

lemma lower_hex_no_lf: "list_all is_lower_hex s \<Longrightarrow> lf \<notin> set s"
  by (auto simp: list_all_iff is_lower_hex_def lf_def hex_alphabet_def)

lemma ascii_lower_prefix: "map ascii_lower digest_prefix = digest_prefix"
  by code_simp

lemma prefix_no_lf: "lf \<notin> set digest_prefix"
  by (simp add: digest_prefix_def lf_def)

lemma normalize_digest_lower:
  assumes "normalize_digest d = Inr n"
  shows "n = map ascii_lower d \<and> lf \<notin> set n"
  using assms
proof (rule normalize_digest_Inr)
  fix hex
  assume "d = digest_prefix @ hex" "n = digest_prefix @ map ascii_lower hex"
    and "list_all is_lower_hex (map ascii_lower hex)"
  then show ?thesis
    using lower_hex_no_lf prefix_no_lf ascii_lower_prefix by (simp only: map_append set_append Un_iff) blast
qed

lemma build_Inr:
  assumes "build_canonical_payload f = Inr p"
  shows "p = str_join [lf]
      [sig_v2_tag, sf_version f, map ascii_lower (sf_digest f), sf_min_app_version f,
       sf_file_manifest_hash f, sf_rollback_floor f]"
    and "split_on lf p =
      [sig_v2_tag, sf_version f, map ascii_lower (sf_digest f), sf_min_app_version f,
       sf_file_manifest_hash f, sf_rollback_floor f]"
proof -
  obtain n where n: "normalize_digest (sf_digest f) = Inr n"
    and ok: "list_all printable (sf_version f)" "list_all printable (sf_min_app_version f)"
      "list_all printable (sf_file_manifest_hash f)" "list_all printable (sf_rollback_floor f)"
    and p: "p = str_join [lf] [sig_v2_tag, sf_version f, n, sf_min_app_version f,
       sf_file_manifest_hash f, sf_rollback_floor f]"
    using assms
    by (auto simp: build_canonical_payload_def first_error_None
        simp del: first_error.simps str_join.simps split: sum.splits option.splits)
  have tag: "lf \<notin> set sig_v2_tag" by (simp add: sig_v2_tag_def lf_def)
  have "split_on lf p = [sig_v2_tag, sf_version f, n, sf_min_app_version f,
       sf_file_manifest_hash f, sf_rollback_floor f]"
    unfolding p
    by (rule split_join_on)
       (use ok tag normalize_digest_lower [OF n] printable_no_lf in auto)
  with p normalize_digest_lower [OF n] show "p = str_join [lf]
      [sig_v2_tag, sf_version f, map ascii_lower (sf_digest f), sf_min_app_version f,
       sf_file_manifest_hash f, sf_rollback_floor f]"
    and "split_on lf p =
      [sig_v2_tag, sf_version f, map ascii_lower (sf_digest f), sf_min_app_version f,
       sf_file_manifest_hash f, sf_rollback_floor f]" by simp_all
qed

end
