(* ===== verification/SignCommand.thy ===== *)
theory SignCommand
  imports OfflineSig
begin

text \<open>
  \<^verbatim>\<open>cmd/api/signactive.go\<close>: the subcommand that signs an \<^verbatim>\<open>active.json\<close> from the environment and
  its flags, and what the app does with the result according to
  \<^verbatim>\<open>contract/v2-signature-contract.md\<close>.
\<close>

section \<open>The command\<close>

definition env_sign_private_key :: string where "env_sign_private_key = ''OFFLINE_SIGN_PRIVATE_KEY''"
definition env_sign_key_id :: string where "env_sign_key_id = ''OFFLINE_SIGN_KEY_ID''"
definition env_sign_active_key_ids :: string where "env_sign_active_key_ids = ''OFFLINE_SIGN_ACTIVE_KEY_IDS''"
definition env_sign_expected_public_key :: string where
  "env_sign_expected_public_key = ''OFFLINE_SIGN_EXPECTED_PUBLIC_KEY''"

datatype command_error =
    MissingEnv string
  | PublicKeyNotBase64
  | PublicKeyLength nat
  | SigningFailed sig_error
  | WriteFailed gerr

record sign_flags =
  sa_version :: string
  sa_digest :: string
  sa_min_app_version :: string
  sa_url :: string
  sa_v1_signature :: string
  sa_timestamp :: int
  sa_out :: string

definition active_status_for :: "string \<Rightarrow> string \<Rightarrow> string" where
  "active_status_for key_id active =
     (if list_ex (\<lambda>e. trim_space e = key_id) (split_on (CHR '','') active) then status_active
      else status_minted)"

definition load_expected_public_key :: "string \<Rightarrow> command_error + bytes" where
  "load_expected_public_key raw =
     (if raw = [] then Inl (MissingEnv env_sign_expected_public_key)
      else (case std_dec raw of
          None \<Rightarrow> Inl PublicKeyNotBase64
        | Some d \<Rightarrow> if length d \<noteq> 32 then Inl (PublicKeyLength (length d)) else Inr d))"

definition load_signing_key :: "ed25519 \<Rightarrow> env \<Rightarrow> command_error + bytes \<times> string \<times> allowlist" where
  "load_signing_key ed env =
     (let raw_key = env env_sign_private_key; key_id = env env_sign_key_id in
      if raw_key = [] then Inl (MissingEnv env_sign_private_key)
      else if key_id = [] then Inl (MissingEnv env_sign_key_id)
      else (case load_expected_public_key (env env_sign_expected_public_key) of
          Inl e \<Rightarrow> Inl e
        | Inr pub \<Rightarrow>
            (case parse_private_key ed (Secret raw_key) of
               Inl e \<Rightarrow> Inl (SigningFailed e)
             | Inr priv \<Rightarrow>
                 Inr (priv, key_id,
                   [key_id \<mapsto> \<lparr>ks_public = pub,
                      ks_status = active_status_for key_id (env env_sign_active_key_ids)\<rparr>]))))"

text \<open>\<^verbatim>\<open>json.MarshalIndent(manifest, "", "  ")\<close>.\<close>

definition manifest_members :: "active_manifest \<Rightarrow> (string \<times> string) list" where
  "manifest_members m =
     [(''version'', json_quote (am_version m)), (''url'', json_quote (am_url m)),
      (''digest'', json_quote (am_digest m)), (''signature'', json_quote (am_signature m)),
      (''keyId'', json_quote (am_key_id m)), (''timestamp'', itoa_int (am_timestamp m)),
      (''minAppVersion'', json_quote (am_min_app_version m)),
      (''schemaVersion'', itoa_int (am_schema_version m)),
      (''signatureV2'', json_quote (am_signature_v2 m))]"

definition marshal_indent_manifest :: "active_manifest \<Rightarrow> string" where
  "marshal_indent_manifest m =
     ''{'' @ [lf] @
     str_join (CHR '','' # [lf]) (map (\<lambda>(k, v). ''  '' @ json_quote k @ '': '' @ v) (manifest_members m))
     @ [lf] @ ''}''"

definition base_manifest :: "sign_flags \<Rightarrow> string \<Rightarrow> active_manifest" where
  "base_manifest fl key_id =
     \<lparr>am_version = sa_version fl, am_url = sa_url fl, am_digest = sa_digest fl,
      am_signature = sa_v1_signature fl, am_key_id = key_id, am_timestamp = sa_timestamp fl,
      am_min_app_version = sa_min_app_version fl, am_schema_version = 0, am_signature_v2 = []\<rparr>"

definition flag_fields :: "sign_flags \<Rightarrow> sig_fields" where
  "flag_fields fl =
     \<lparr>sf_version = sa_version fl, sf_digest = sa_digest fl, sf_min_app_version = sa_min_app_version fl,
      sf_file_manifest_hash = [], sf_rollback_floor = []\<rparr>"

text \<open>The result is where the bytes went (\<^const>\<open>None\<close> is standard output) and the bytes; \<open>write\<close> is
  the file system's or the stream's answer to writing them.\<close>

definition sign_dest :: "sign_flags \<Rightarrow> string option" where
  "sign_dest fl = (if sa_out fl = [] then None else Some (sa_out fl))"

definition run_sign_active ::
  "ed25519 \<Rightarrow> env \<Rightarrow> (string option \<Rightarrow> bytes \<Rightarrow> gerr option) \<Rightarrow> sign_flags \<Rightarrow>
     command_error + string option \<times> bytes" where
  "run_sign_active ed env write fl =
     (case load_signing_key ed env of
        Inl e \<Rightarrow> Inl e
      | Inr (priv, key_id, allow) \<Rightarrow>
          (case sign_active ed (base_manifest fl key_id) (flag_fields fl) priv allow of
             Inl e \<Rightarrow> Inl (SigningFailed e)
           | Inr m \<Rightarrow>
               let encoded = marshal_indent_manifest m @ [lf] in
               (case write (sign_dest fl) encoded of
                  Some e \<Rightarrow> Inl (WriteFailed e)
                | None \<Rightarrow> Inr (sign_dest fl, encoded))))"

section \<open>The app's side of the contract\<close>

text \<open>The app joins the manifest's own fields, the digest verbatim, with an empty tail, and verifies
  the signature under the key it ships for the key id.\<close>

definition app_payload :: "active_manifest \<Rightarrow> bytes" where
  "app_payload m =
     str_join [lf] [sig_v2_tag, am_version m, am_digest m, am_min_app_version m, [], []]"

definition app_accepts ::
  "(bytes \<Rightarrow> bytes \<Rightarrow> bytes \<Rightarrow> bool) \<Rightarrow> (string \<rightharpoonup> bytes) \<Rightarrow> active_manifest \<Rightarrow> bool" where
  "app_accepts verify keys m \<longleftrightarrow>
     (case keys (am_key_id m) of
        None \<Rightarrow> False
      | Some pub \<Rightarrow>
          (case cut_prefix sig_wire_prefix (am_signature_v2 m) of
             None \<Rightarrow> False
           | Some b \<Rightarrow>
               (case std_dec b of
                  None \<Rightarrow> False
                | Some sig \<Rightarrow>
                    lf \<notin> set (am_version m @ am_digest m @ am_min_app_version m) \<and>
                    verify pub (app_payload m) sig)))"

text \<open>Ed25519, as far as it is used: what is signed with a key made from a seed verifies under the
  public half of this key.\<close>

definition ed_laws :: "ed25519 \<Rightarrow> (bytes \<Rightarrow> bytes \<Rightarrow> bytes \<Rightarrow> bool) \<Rightarrow> bool" where
  "ed_laws ed verify \<longleftrightarrow>
     (\<forall>seed msg. length seed = 32 \<longrightarrow>
        verify (public_half (ed_from_seed ed seed)) msg (ed_sign ed (ed_from_seed ed seed) msg))"

section \<open>The signing gate\<close>

lemma sign_active_Inr:
  assumes "sign_active ed base f priv allow = Inr m"
  obtains st p where "allow (am_key_id base) = Some st" and "ks_status st = status_active"
    and "public_half priv = ks_public st" and "build_canonical_payload f = Inr p"
    and "m = base\<lparr>am_schema_version := schema_version, am_signature_v2 := sign_payload ed p priv\<rparr>"
  using assms by (auto simp: sign_active_def split: option.splits if_splits sum.splits)

lemma parse_private_key_Inr:
  assumes "parse_private_key ed s = Inr priv"
  obtains raw where "std_dec (reveal s) = Some raw"
    and "length raw = 32 \<and> priv = ed_from_seed ed raw \<or> length raw = 64 \<and> priv = raw"
  using assms by (auto simp: parse_private_key_def split: option.splits if_splits)

lemma load_signing_key_Inr:
  assumes "load_signing_key ed env = Inr (priv, key_id, allow)"
  obtains pub where "key_id = env env_sign_key_id" and "key_id \<noteq> []"
    and "std_dec (env env_sign_expected_public_key) = Some pub" and "length pub = 32"
    and "parse_private_key ed (Secret (env env_sign_private_key)) = Inr priv"
    and "allow = [key_id \<mapsto> \<lparr>ks_public = pub,
                   ks_status = active_status_for key_id (env env_sign_active_key_ids)\<rparr>]"
  using assms
  by (auto simp: load_signing_key_def load_expected_public_key_def Let_def
      split: if_splits sum.splits option.splits)

lemma run_sign_active_Inr:
  assumes "run_sign_active ed env write fl = Inr (dest, out)"
  obtains priv key_id allow m where "load_signing_key ed env = Inr (priv, key_id, allow)"
    and "sign_active ed (base_manifest fl key_id) (flag_fields fl) priv allow = Inr m"
    and "out = marshal_indent_manifest m @ [lf]" and "write dest out = None"
    and "dest = sign_dest fl"
proof -
  obtain priv key_id allow where l: "load_signing_key ed env = Inr (priv, key_id, allow)"
    using assms by (cases "load_signing_key ed env") (auto simp: run_sign_active_def)
  obtain m where m: "sign_active ed (base_manifest fl key_id) (flag_fields fl) priv allow = Inr m"
    using assms l
    by (cases "sign_active ed (base_manifest fl key_id) (flag_fields fl) priv allow")
       (auto simp: run_sign_active_def)
  have "write (sign_dest fl) (marshal_indent_manifest m @ [lf]) = None"
    and "dest = sign_dest fl"
    and "out = marshal_indent_manifest m @ [lf]"
    using assms unfolding run_sign_active_def l m sum.case prod.case Let_def
    by (auto split: option.splits)
  with l m that show thesis by simp
qed

text \<open>A signed manifest whose digest is in lower case is accepted.\<close>

lemma signed_accepted:
  assumes "build_canonical_payload f = Inr p"
    and "sf_version f = am_version m" "sf_digest f = am_digest m"
    and "sf_min_app_version f = am_min_app_version m"
    and "sf_file_manifest_hash f = []" "sf_rollback_floor f = []"
    and lower: "map ascii_lower (am_digest m) = am_digest m"
    and "am_signature_v2 m = sign_payload ed p priv"
    and "keys (am_key_id m) = Some pub" and "verify pub p (ed_sign ed priv p)"
  shows "app_accepts verify keys m"
proof -
  have p: "p = app_payload m" and split: "split_on lf p =
      [sig_v2_tag, am_version m, am_digest m, am_min_app_version m, [], []]"
    using build_Inr [OF assms(1)] assms(2-6) lower by (auto simp: app_payload_def)
  have "lf \<notin> set x" if "x \<in> set (split_on lf p)" for x
    using split_on_parts [OF that] .
  then have "lf \<notin> set (am_version m @ am_digest m @ am_min_app_version m)"
    unfolding split by simp
  with p assms(8-10) show ?thesis
    by (simp add: app_accepts_def sign_payload_def stdb64.dec_enc)
qed

end
