(* ===== verification/SignSpec.thy ===== *)
theory SignSpec
  imports SignCommand
begin

text \<open>
  What the signing subcommand guarantees: the payload determines the fields it was built from, and
  what the command emits verifies in the app under the published key; and the two inputs for which
  it does not.
\<close>

section \<open>A signature scheme for the witnesses\<close>

definition toy_ed :: ed25519 where
  "toy_ed = \<lparr>ed_from_seed = (\<lambda>s. s @ s), ed_sign = (\<lambda>priv msg. public_half priv @ msg)\<rparr>"

definition toy_ed_verify :: "bytes \<Rightarrow> bytes \<Rightarrow> bytes \<Rightarrow> bool" where
  "toy_ed_verify pub msg sig \<longleftrightarrow> sig = pub @ msg"

lemma toy_ed_laws: "ed_laws toy_ed toy_ed_verify"
  by (simp add: ed_laws_def toy_ed_def toy_ed_verify_def)

definition toy_seed :: bytes where "toy_seed = replicate 32 (CHR ''k'')"

definition toy_sign_env :: env where
  "toy_sign_env k =
     (if k = env_sign_private_key \<or> k = env_sign_expected_public_key then std_enc toy_seed
      else if k = env_sign_key_id then ''key-1''
      else if k = env_sign_active_key_ids then ''key-0, key-1''
      else [])"

definition toy_flags :: "string \<Rightarrow> sign_flags" where
  "toy_flags digest =
     \<lparr>sa_version = ''1.4.0'', sa_digest = digest, sa_min_app_version = ''3.2.0'', sa_url = ''u'',
      sa_v1_signature = ''v1'', sa_timestamp = 1, sa_out = []\<rparr>"

definition lower_digest :: string where
  "lower_digest = digest_prefix @ replicate 64 (CHR ''a'')"

definition upper_digest :: string where
  "upper_digest = digest_prefix @ replicate 64 (CHR ''A'')"

definition written :: "string option \<Rightarrow> bytes \<Rightarrow> gerr option" where
  "written dest out = None"

lemma toy_seed_std_nonempty: "std_enc toy_seed \<noteq> []"
  using stdb64.dec_enc [of toy_seed] by (auto simp: toy_seed_def std_dec_def b64_dec_def)

lemma env_names_distinct:
  "env_sign_private_key \<noteq> env_sign_key_id" "env_sign_private_key \<noteq> env_sign_active_key_ids"
  "env_sign_expected_public_key \<noteq> env_sign_key_id"
  "env_sign_expected_public_key \<noteq> env_sign_active_key_ids"
  "env_sign_key_id \<noteq> env_sign_active_key_ids"
  by (simp_all add: env_sign_private_key_def env_sign_key_id_def env_sign_active_key_ids_def
      env_sign_expected_public_key_def)

lemma toy_active: "active_status_for ''key-1'' ''key-0, key-1'' = status_active"
  by code_simp

lemma toy_load:
  "load_signing_key toy_ed toy_sign_env =
     Inr (toy_seed @ toy_seed, ''key-1'', [''key-1'' \<mapsto> \<lparr>ks_public = toy_seed, ks_status = status_active\<rparr>])"
proof -
  have env: "toy_sign_env env_sign_private_key = std_enc toy_seed"
    "toy_sign_env env_sign_expected_public_key = std_enc toy_seed"
    "toy_sign_env env_sign_key_id = ''key-1''" "toy_sign_env env_sign_active_key_ids = ''key-0, key-1''"
    using env_names_distinct by (auto simp: toy_sign_env_def)
  have "length toy_seed = 32" by (simp add: toy_seed_def)
  with env toy_active toy_seed_std_nonempty stdb64.dec_enc [of toy_seed] show ?thesis
    by (simp add: load_signing_key_def load_expected_public_key_def parse_private_key_def toy_ed_def Let_def)
qed

lemma toy_public_half: "public_half (toy_seed @ toy_seed) = toy_seed"
  by (simp add: public_half_def toy_seed_def)

lemma normalize_same_letters:
  assumes "ascii_lower c = CHR ''a''" and "printable c"
  shows "normalize_digest (digest_prefix @ replicate 64 c) = Inr lower_digest"
proof -
  have "list_all printable (digest_prefix @ replicate 64 c)"
    using assms(2) by (auto simp: list_all_iff digest_prefix_def printable_def)
  then have "check_field_hygiene ''digest'' (digest_prefix @ replicate 64 c) = None"
    by (simp only: check_field_hygiene_None)
  moreover have "is_lower_hex (CHR ''a'')" by code_simp
  then have "find (\<lambda>c. \<not> is_lower_hex c) (replicate 64 (CHR ''a'')) = None"
    by (auto simp: find_None_all)
  ultimately show ?thesis using assms(1)
    by (simp add: normalize_digest_def digest_hex_len_def lower_digest_def Let_def
        del: replicate.simps)
qed

lemma toy_payload_build:
  assumes "normalize_digest d = Inr lower_digest"
  shows "\<exists>p. build_canonical_payload (flag_fields (toy_flags d)) = Inr p"
proof -
  have "list_all printable ''1.4.0''" "list_all printable ''3.2.0''" by code_simp+
  then have "first_error [(''version'', ''1.4.0''), (''minAppVersion'', ''3.2.0''),
      (''fileManifestHash'', []), (''rollbackFloor'', [])] = None"
    by (simp add: first_error_None del: first_error.simps)
  with assms show ?thesis
    by (simp add: build_canonical_payload_def flag_fields_def toy_flags_def del: first_error.simps)
qed

lemma toy_sign:
  assumes "normalize_digest d = Inr lower_digest"
  shows "\<exists>m. sign_active toy_ed (base_manifest (toy_flags d) ''key-1'') (flag_fields (toy_flags d))
       (toy_seed @ toy_seed) [''key-1'' \<mapsto> \<lparr>ks_public = toy_seed, ks_status = status_active\<rparr>] = Inr m \<and>
     am_digest m = d"
  using toy_payload_build [OF assms]
  by (auto simp: sign_active_def base_manifest_def toy_public_half toy_flags_def)

lemma toy_run:
  assumes "normalize_digest d = Inr lower_digest"
  shows "\<exists>m. run_sign_active toy_ed toy_sign_env written (toy_flags d) =
     Inr (None, marshal_indent_manifest m @ [lf]) \<and> am_digest m = d"
  using toy_sign [OF assms]
  by (auto simp: run_sign_active_def toy_load written_def sign_dest_def toy_flags_def)

section \<open>Properties\<close>

text \<open>The reading of a payload back into its fields.\<close>

definition parse_payload :: "bytes \<Rightarrow> sig_fields option" where
  "parse_payload p =
     (case split_on lf p of
        [tag, v, d, a, h, r] \<Rightarrow>
          if tag = sig_v2_tag
          then Some \<lparr>sf_version = v, sf_digest = d, sf_min_app_version = a,
                     sf_file_manifest_hash = h, sf_rollback_floor = r\<rparr>
          else None
      | _ \<Rightarrow> None)"

text \<open>C25: The canonical payload determines its fields: whenever the payload is built at all, splitting
  it at the newlines gives the tag and exactly the five fields back, the digest in lower case.
  Hence two field tuples with the same payload agree in every field but the letter case of the
  digest, so no field can be smuggled across a boundary.\<close>

theorem payload_roundtrip:
  assumes "build_canonical_payload f = Inr p"
  shows "parse_payload p = Some (f\<lparr>sf_digest := map ascii_lower (sf_digest f)\<rparr>)"
  using build_Inr(2) [OF assms] by (auto simp: parse_payload_def)

theorem payload_roundtrip_witness:
  "\<exists>p. build_canonical_payload (flag_fields (toy_flags lower_digest)) = Inr p \<and>
     (\<exists>f. parse_payload p = Some f \<and> sf_version f = ''1.4.0'' \<and> sf_rollback_floor f = [])"
proof -
  have "normalize_digest lower_digest = Inr lower_digest"
    unfolding lower_digest_def by (rule normalize_same_letters [unfolded lower_digest_def]) code_simp+
  from toy_payload_build [OF this] obtain p where
    p: "build_canonical_payload (flag_fields (toy_flags lower_digest)) = Inr p" by blast
  from payload_roundtrip [OF p] p show ?thesis by (simp add: flag_fields_def toy_flags_def)
qed

text \<open>C31: What the signing command emits is what the app accepts: if it succeeds, it signed under a
  key id that the operator listed as active, with a private key whose public half is the published
  key, it wrote the manifest with the flags' fields verbatim, and the app that ships the published key for the
  key id accepts the manifest.  This is for a digest in lower case, and for a private key given as a seed or
  as 64 bytes that belong to their seed (the command checks neither: \<open>upper_digest_refused\<close>,
  \<open>foreign_seed_signs\<close>).\<close>

theorem sign_command_accepted:
  assumes "run_sign_active ed env write fl = Inr (dest, out)" and "ed_laws ed verify"
    and "map ascii_lower (sa_digest fl) = sa_digest fl"
    and "\<And>raw. std_dec (env env_sign_private_key) = Some raw \<Longrightarrow> length raw = 64 \<Longrightarrow>
           raw = ed_from_seed ed (take 32 raw)"
  shows "\<exists>m pub. out = marshal_indent_manifest m @ [lf] \<and> write dest out = None \<and>
    am_version m = sa_version fl \<and> am_digest m = sa_digest fl \<and>
    am_min_app_version m = sa_min_app_version fl \<and> am_key_id m = env env_sign_key_id \<and>
    active_status_for (am_key_id m) (env env_sign_active_key_ids) = status_active \<and>
    std_dec (env env_sign_expected_public_key) = Some pub \<and>
    app_accepts verify [env env_sign_key_id \<mapsto> pub] m"
proof -
  obtain priv key_id allow m where l: "load_signing_key ed env = Inr (priv, key_id, allow)"
    and s: "sign_active ed (base_manifest fl key_id) (flag_fields fl) priv allow = Inr m"
    and out: "out = marshal_indent_manifest m @ [lf]" "write dest out = None"
    using assms(1) by (rule run_sign_active_Inr)
  obtain pub where k: "key_id = env env_sign_key_id"
    and pub: "std_dec (env env_sign_expected_public_key) = Some pub"
    and pk: "parse_private_key ed (Secret (env env_sign_private_key)) = Inr priv"
    and allow: "allow = [key_id \<mapsto> \<lparr>ks_public = pub,
                   ks_status = active_status_for key_id (env env_sign_active_key_ids)\<rparr>]"
    using l by (rule load_signing_key_Inr)
  obtain st p where st: "allow (am_key_id (base_manifest fl key_id)) = Some st"
    "ks_status st = status_active" "public_half priv = ks_public st"
    and p: "build_canonical_payload (flag_fields fl) = Inr p"
    and m: "m = (base_manifest fl key_id)\<lparr>am_schema_version := schema_version,
              am_signature_v2 := sign_payload ed p priv\<rparr>"
    using s by (rule sign_active_Inr)
  have st': "public_half priv = pub" "active_status_for key_id (env env_sign_active_key_ids) = status_active"
    using st allow by (auto simp: base_manifest_def)
  obtain seed where "length seed = 32" "priv = ed_from_seed ed seed"
    by (rule parse_private_key_Inr [OF pk]) (use assms(4) that in force)
  then have "verify pub p (ed_sign ed priv p)" using assms(2) st'(1) by (auto simp: ed_laws_def)
  then have "app_accepts verify [env env_sign_key_id \<mapsto> pub] m"
    using assms(3) k m
    by (intro signed_accepted [OF p]) (auto simp: flag_fields_def base_manifest_def)
  then show ?thesis using out k m st'(2) pub by (auto simp: base_manifest_def)
qed

theorem sign_command_accepted_witness:
  "\<exists>m pub out. run_sign_active toy_ed toy_sign_env written (toy_flags lower_digest) = Inr (None, out) \<and>
     out = marshal_indent_manifest m @ [lf] \<and> app_accepts toy_ed_verify [''key-1'' \<mapsto> pub] m"
proof -
  have n: "normalize_digest lower_digest = Inr lower_digest"
    unfolding lower_digest_def by (rule normalize_same_letters [unfolded lower_digest_def]) code_simp+
  obtain m' where r: "run_sign_active toy_ed toy_sign_env written (toy_flags lower_digest) =
      Inr (None, marshal_indent_manifest m' @ [lf])"
    using toy_run [OF n] by blast
  have key: "toy_sign_env env_sign_key_id = ''key-1''" "toy_sign_env env_sign_private_key = std_enc toy_seed"
    using env_names_distinct by (auto simp: toy_sign_env_def)
  have lower: "map ascii_lower (sa_digest (toy_flags lower_digest)) = sa_digest (toy_flags lower_digest)"
    by code_simp
  have "raw = ed_from_seed toy_ed (take 32 raw)"
    if "std_dec (toy_sign_env env_sign_private_key) = Some raw" "length raw = 64" for raw
    using that key stdb64.dec_enc [of toy_seed] by (simp add: toy_seed_def)
  from sign_command_accepted [OF r toy_ed_laws lower this] key r show ?thesis by auto
qed

section \<open>Two inputs the command signs in vain\<close>

text \<open>A digest in upper case is signed in lower case and emitted as it was given: the app joins the
  emitted one, so its payload differs from the signed one.\<close>

lemma upper_digest_payload:
  assumes "build_canonical_payload f = Inr p" and "sf_version f = am_version m"
    and "sf_digest f = am_digest m" and "map ascii_lower (am_digest m) \<noteq> am_digest m"
  shows "app_payload m \<noteq> p"
proof
  assume "app_payload m = p"
  then have "am_digest m @ lf # am_min_app_version m @ [lf, lf] =
      map ascii_lower (am_digest m) @ lf # sf_min_app_version f @ lf # sf_file_manifest_hash f @
        lf # sf_rollback_floor f"
    using build_Inr(1) [OF assms(1)] assms(2,3) by (simp add: app_payload_def)
  then have "am_digest m = map ascii_lower (am_digest m)"
    by (rule append_eq_append_conv [THEN iffD1, THEN conjunct1, rotated]) simp
  with assms(4) show False by simp
qed

lemma upper_digest_refused:
  "\<exists>m. run_sign_active toy_ed toy_sign_env written (toy_flags upper_digest) =
     Inr (None, marshal_indent_manifest m @ [lf]) \<and>
   \<not> app_accepts toy_ed_verify [''key-1'' \<mapsto> toy_seed] m"
proof -
  have n: "normalize_digest upper_digest = Inr lower_digest"
    unfolding upper_digest_def by (rule normalize_same_letters) code_simp+
  obtain m where m: "sign_active toy_ed (base_manifest (toy_flags upper_digest) ''key-1'')
      (flag_fields (toy_flags upper_digest)) (toy_seed @ toy_seed)
      [''key-1'' \<mapsto> \<lparr>ks_public = toy_seed, ks_status = status_active\<rparr>] = Inr m"
    using toy_sign [OF n] by blast
  then have run: "run_sign_active toy_ed toy_sign_env written (toy_flags upper_digest) =
     Inr (None, marshal_indent_manifest m @ [lf])"
    by (simp add: run_sign_active_def toy_load written_def sign_dest_def toy_flags_def)
  from m obtain p where p: "build_canonical_payload (flag_fields (toy_flags upper_digest)) = Inr p"
    and sig: "m = (base_manifest (toy_flags upper_digest) ''key-1'')\<lparr>am_schema_version := schema_version,
              am_signature_v2 := sign_payload toy_ed p (toy_seed @ toy_seed)\<rparr>"
    by (rule sign_active_Inr)
  have up: "map ascii_lower upper_digest \<noteq> upper_digest" by code_simp
  have f: "sf_version (flag_fields (toy_flags upper_digest)) = am_version m"
    "sf_digest (flag_fields (toy_flags upper_digest)) = am_digest m"
    "am_digest m = upper_digest" "am_key_id m = ''key-1''"
    by (simp_all add: sig flag_fields_def base_manifest_def toy_flags_def)
  have "app_payload m \<noteq> p"
    by (rule upper_digest_payload [OF p f(1,2)]) (simp only: f(3) up not_False_eq_True)
  then have "toy_seed @ p \<noteq> toy_seed @ app_payload m" by simp
  moreover have "am_signature_v2 m = sig_wire_prefix @ std_enc (toy_seed @ p)"
    by (simp add: sig sign_payload_def toy_ed_def toy_public_half)
  ultimately have "\<not> app_accepts toy_ed_verify [''key-1'' \<mapsto> toy_seed] m"
    by (simp add: app_accepts_def stdb64.dec_enc toy_ed_verify_def f(4))
  with run show ?thesis by blast
qed

text \<open>A 64-byte private key of which the second half is the published key and the first half is
  another seed passes the gate: only the stored half is compared.\<close>

lemma foreign_seed_signs:
  assumes "length pub = 32" and "length seed = 32" and "build_canonical_payload f = Inr p"
    and "allow (am_key_id base) = Some \<lparr>ks_public = pub, ks_status = status_active\<rparr>"
  shows "\<exists>m. sign_active ed base f (seed @ pub) allow = Inr m \<and>
    am_signature_v2 m = sign_payload ed p (seed @ pub)"
  using assms by (simp add: sign_active_def public_half_def)

end
