(* ===== verification/HttpShell.thy ===== *)
theory HttpShell
  imports Database Wire
begin

text \<open>
  \<^verbatim>\<open>internal/http\<close>: the response writer and its recorder, the three middlewares and the order they
  are chained in, the routes of the server and their dispatch.

  A handler is what it does to its writer: a list of writer operations, and whether it returns or
  panics after them.  The writer underneath commits the status and the headers at the first
  \<^verbatim>\<open>WriteHeader\<close> of a final status (or write of a body) and keeps them; an informational status goes out at
  once and commits nothing.
\<close>

section \<open>Requests, writers, handlers\<close>

record request =
  rq_method :: string
  rq_path :: string
  rq_header :: "string \<Rightarrow> string"
  rq_body :: body

text \<open>A request context: of its values the program only uses the request id.\<close>

type_synonym ctx_id = "string option"

datatype wr_op =
    SetHeader string string
  | WriteHeader nat
  | WriteBody string

text \<open>The recorder of \<^verbatim>\<open>middleware.go\<close> with the writer it wraps: \<open>rc_header\<close> is the header map,
  \<open>rc_sent\<close> the committed status and headers, \<open>rc_out\<close> the body bytes that the writer accepted.\<close>

record recorder =
  rc_header :: "string \<Rightarrow> string"
  rc_status :: nat
  rc_wrote :: bool
  rc_sent :: "(nat \<times> (string \<Rightarrow> string)) option"
  rc_out :: string

datatype outcome = Returns | Panics

text \<open>A handler sees the context, the headers already set on the response, the request.\<close>

type_synonym handler_fn =
  "ctx_id \<Rightarrow> (string \<Rightarrow> string) \<Rightarrow> request \<Rightarrow> world \<Rightarrow> wr_op list \<times> outcome \<times> world"
type_synonym middleware_fn =
  "ctx_id \<Rightarrow> request \<Rightarrow> recorder \<Rightarrow> world \<Rightarrow> outcome \<times> recorder \<times> world"

definition fresh_recorder :: recorder where
  "fresh_recorder =
     \<lparr>rc_header = (\<lambda>_. []), rc_status = 0, rc_wrote = False, rc_sent = None, rc_out = []\<rparr>"

text \<open>The writer of \<^verbatim>\<open>net/http\<close>: the first final status wins.  The statuses 100 to 199, except 101, are sent
  at once and leave the response uncommitted; a body is only taken for a status that has one.\<close>

definition informational :: "nat \<Rightarrow> bool" where
  "informational s \<longleftrightarrow> 100 \<le> s \<and> s \<le> 199 \<and> s \<noteq> 101"

definition body_allowed :: "nat \<Rightarrow> bool" where
  "body_allowed s \<longleftrightarrow> \<not> (100 \<le> s \<and> s \<le> 199) \<and> s \<noteq> 204 \<and> s \<noteq> 304"

definition under_write_header :: "nat \<Rightarrow> recorder \<Rightarrow> recorder" where
  "under_write_header s r =
     (if rc_sent r = None \<and> \<not> informational s then r\<lparr>rc_sent := Some (s, rc_header r)\<rparr> else r)"

definition under_write :: "string \<Rightarrow> recorder \<Rightarrow> recorder" where
  "under_write b r =
     (let r1 = under_write_header 200 r in
      case rc_sent r1 of
        None \<Rightarrow> r1
      | Some (s, _) \<Rightarrow> if body_allowed s then r1\<lparr>rc_out := rc_out r1 @ b\<rparr> else r1)"

definition rec_write_header :: "nat \<Rightarrow> recorder \<Rightarrow> recorder" where
  "rec_write_header s r =
     (if rc_wrote r then r
      else under_write_header s (r\<lparr>rc_status := s, rc_wrote := True\<rparr>))"

definition rec_write :: "string \<Rightarrow> recorder \<Rightarrow> recorder" where
  "rec_write b r =
     under_write b (if rc_wrote r then r else r\<lparr>rc_status := 200, rc_wrote := True\<rparr>)"

definition set_header :: "string \<Rightarrow> string \<Rightarrow> recorder \<Rightarrow> recorder" where
  "set_header k v r = r\<lparr>rc_header := (rc_header r)(k := v)\<rparr>"

fun write_op :: "wr_op \<Rightarrow> recorder \<Rightarrow> recorder" where
  "write_op (SetHeader k v) r = set_header k v r"
| "write_op (WriteHeader s) r = rec_write_header s r"
| "write_op (WriteBody b) r = rec_write b r"

definition write_ops :: "wr_op list \<Rightarrow> recorder \<Rightarrow> recorder" where
  "write_ops ops r = fold write_op ops r"

text \<open>The response values of the handlers, as what they do to the writer.\<close>

definition response_ops :: "response \<Rightarrow> wr_op list" where
  "response_ops rsp =
     map (\<lambda>(k, v). SetHeader k v) (rsp_headers rsp) @ [WriteHeader (rsp_status rsp), WriteBody (rsp_body rsp)]"

section \<open>Middleware\<close>

definition request_id_header :: string where "request_id_header = ''X-Request-Id''"

definition request_id_from_context :: "ctx_id \<Rightarrow> string" where
  "request_id_from_context c = (case c of None \<Rightarrow> [] | Some i \<Rightarrow> i)"

text \<open>\<^verbatim>\<open>newRequestID\<close>; \<^const>\<open>None\<close> is its panic.\<close>

definition new_request_id :: "world \<Rightarrow> string option \<times> world" where
  "new_request_id w =
     (case random_bytes 16 w of (Inl _, w') \<Rightarrow> (None, w') | (Inr bs, w') \<Rightarrow> (Some (hex_enc bs), w'))"

text \<open>\<^verbatim>\<open>internal/platform/log\<close>: one line per request, one per recovered panic; the panic value itself is
  not modelled.\<close>

definition log_request :: "string \<Rightarrow> string \<Rightarrow> string \<Rightarrow> nat \<Rightarrow> duration \<Rightarrow> string \<Rightarrow> world \<Rightarrow> world" where
  "log_request rid m path status latency version =
     emit (LogRequest rid m path status (latency div millisecond) version)"

definition log_panic :: "string \<Rightarrow> string \<Rightarrow> string \<Rightarrow> world \<Rightarrow> world" where
  "log_panic rid m path = emit (LogPanic rid m path)"

declare log_request_def [simp] log_panic_def [simp]

definition run_handler :: "handler_fn \<Rightarrow> middleware_fn" where
  "run_handler h c rq r w = (case h c (rc_header r) rq w of (ops, out, w') \<Rightarrow> (out, write_ops ops r, w'))"

definition recover_middleware :: "middleware_fn \<Rightarrow> middleware_fn" where
  "recover_middleware next c rq r w =
     (case next c rq r w of
        (Returns, r1, w1) \<Rightarrow> (Returns, r1, w1)
      | (Panics, r1, w1) \<Rightarrow>
          let rid = rc_header r1 request_id_header;
              w2 = log_panic rid (rq_method rq) (rq_path rq) w1 in
          if rc_wrote r1 then (Returns, r1, w2)
          else (Returns,
                write_ops (response_ops (http_write_error 500 ''internal'' ''internal server error'' rid)) r1,
                w2))"

definition request_id_middleware :: "middleware_fn \<Rightarrow> middleware_fn" where
  "request_id_middleware next c rq r w =
     (if rq_header rq request_id_header = [] then
        (case new_request_id w of
           (None, w1) \<Rightarrow> (Panics, r, w1)
         | (Some i, w1) \<Rightarrow> next (Some i) rq (set_header request_id_header i r) w1)
      else next (Some (rq_header rq request_id_header)) rq
             (set_header request_id_header (rq_header rq request_id_header) r) w)"

definition access_log_middleware :: "string \<Rightarrow> middleware_fn \<Rightarrow> middleware_fn" where
  "access_log_middleware version next c rq r w =
     (case next c rq r w of
        (out, r1, w1) \<Rightarrow>
          let seen = (if rc_wrote r1 then rc_status r1 else 0);
              status = (if seen = 0 then (case out of Panics \<Rightarrow> 500 | Returns \<Rightarrow> 200) else seen) in
          (out, r1,
           log_request (request_id_from_context c) (rq_method rq) (rq_path rq) status
             (w_app w1 - w_app w) version w1))"

definition chain :: "string \<Rightarrow> handler_fn \<Rightarrow> middleware_fn" where
  "chain version h =
     recover_middleware (request_id_middleware (access_log_middleware version (run_handler h)))"

section \<open>Routes\<close>

record route =
  ro_method :: string
  ro_path :: string
  ro_handler :: handler_fn

definition livez_handler :: "string \<Rightarrow> handler_fn" where
  "livez_handler version c hs rq w =
     (response_ops \<lparr>rsp_status = 200, rsp_headers = content_type_json,
        rsp_body = ''{'' @ json_field ''status'' (json_quote ''ok'') @ '','' @
                   json_field ''version'' (json_quote version) @ ''}'' @ [CHR 0x0A]\<rparr>,
      Returns, w)"

definition not_found_handler :: handler_fn where
  "not_found_handler c hs rq w =
     (response_ops (http_write_error 404 ''not_found'' ''resource not found'' (request_id_from_context c)),
      Returns, w)"

text \<open>\<^verbatim>\<open>http.ServeMux\<close> for patterns of a method and an exact path plus the catch-all: the pattern
  \<^verbatim>\<open>GET\<close> also serves \<^verbatim>\<open>HEAD\<close>.  \<open>redirect\<close> is what the mux answers itself for a path that is not
  in clean form, \<^const>\<open>None\<close> for a clean one.\<close>

definition method_matches :: "string \<Rightarrow> string \<Rightarrow> bool" where
  "method_matches pattern m \<longleftrightarrow> pattern = m \<or> (pattern = ''GET'' \<and> m = ''HEAD'')"

definition route_matches :: "request \<Rightarrow> route \<Rightarrow> bool" where
  "route_matches rq ro \<longleftrightarrow> method_matches (ro_method ro) (rq_method rq) \<and> ro_path ro = rq_path rq"

definition mux_serve ::
  "(request \<Rightarrow> wr_op list option) \<Rightarrow> route list \<Rightarrow> handler_fn \<Rightarrow> handler_fn" where
  "mux_serve redirect routes fallback c hs rq w =
     (case redirect rq of
        Some ops \<Rightarrow> (ops, Returns, w)
      | None \<Rightarrow>
          (case find (route_matches rq) routes of
             Some ro \<Rightarrow> ro_handler ro c hs rq w
           | None \<Rightarrow> fallback c hs rq w))"

definition new_server ::
  "(request \<Rightarrow> wr_op list option) \<Rightarrow> string \<Rightarrow> route list list \<Rightarrow> middleware_fn" where
  "new_server redirect version registrars =
     chain version
       (mux_serve redirect
          (\<lparr>ro_method = ''GET'', ro_path = ''/livez'', ro_handler = livez_handler version\<rparr> #
           concat registrars)
          not_found_handler)"

section \<open>The recorder\<close>

text \<open>As long as no informational status was written, the recorder agrees with the writer it wraps: it
  has recorded a status exactly when one was committed, and the same one.\<close>

definition rec_ok :: "recorder \<Rightarrow> bool" where
  "rec_ok r \<longleftrightarrow>
     (rc_wrote r \<longleftrightarrow> rc_sent r \<noteq> None) \<and>
     (case rc_sent r of None \<Rightarrow> rc_out r = [] | Some (s, _) \<Rightarrow> rc_status r = s)"

text \<open>Final statuses that \<^verbatim>\<open>net/http\<close> does not panic on.\<close>

definition valid_op :: "wr_op \<Rightarrow> bool" where
  "valid_op op \<longleftrightarrow> (case op of WriteHeader s \<Rightarrow> 100 \<le> s \<and> s \<le> 999 \<and> \<not> informational s | _ \<Rightarrow> True)"

definition valid_ops :: "wr_op list \<Rightarrow> bool" where
  "valid_ops ops \<longleftrightarrow> list_all valid_op ops"

lemmas writer_defs = set_header_def rec_write_header_def rec_write_def under_write_def under_write_header_def

lemma informational_200 [simp]: "\<not> informational 200" "\<not> informational 500" "body_allowed 200" "body_allowed 500"
  by (simp_all add: informational_def body_allowed_def)

lemma rec_ok_fresh [simp]: "rec_ok fresh_recorder"
  by (simp add: rec_ok_def fresh_recorder_def)

lemma rec_ok_op: "rec_ok r \<Longrightarrow> valid_op op \<Longrightarrow> rec_ok (write_op op r)"
  by (cases op) (auto simp: rec_ok_def valid_op_def writer_defs Let_def split: option.splits prod.splits)

lemma rec_ok_ops: "rec_ok r \<Longrightarrow> valid_ops ops \<Longrightarrow> rec_ok (write_ops ops r)"
  unfolding write_ops_def valid_ops_def by (induction ops arbitrary: r) (auto simp: rec_ok_op)

text \<open>What is committed stays.\<close>

lemma sent_kept_op: "rc_sent r = Some x \<Longrightarrow> rc_sent (write_op op r) = Some x"
  by (cases op) (auto simp: writer_defs Let_def split: prod.splits)

lemma sent_kept: "rc_sent r = Some x \<Longrightarrow> rc_sent (write_ops ops r) = Some x"
  unfolding write_ops_def by (induction ops arbitrary: r) (auto simp: sent_kept_op)

lemma write_ops_append: "write_ops (a @ b) r = write_ops b (write_ops a r)"
  by (simp add: write_ops_def)

lemma write_ops_headers:
  "rc_wrote (write_ops (map (\<lambda>(k, v). SetHeader k v) hs) r) = rc_wrote r"
  "rc_sent (write_ops (map (\<lambda>(k, v). SetHeader k v) hs) r) = rc_sent r"
  "rc_out (write_ops (map (\<lambda>(k, v). SetHeader k v) hs) r) = rc_out r"
  unfolding write_ops_def by (induction hs arbitrary: r) (auto simp: set_header_def)

lemma header_kept_op:
  "rc_header (write_op op r) k =
     (case op of SetHeader k' v \<Rightarrow> if k = k' then v else rc_header r k | _ \<Rightarrow> rc_header r k)"
  by (cases op) (auto simp: writer_defs Let_def split: option.splits)

text \<open>A whole response on a writer that nothing was written to.\<close>

lemma response_sent:
  assumes "\<not> rc_wrote r" and "rc_sent r = None" and "body_allowed (rsp_status rsp)"
  shows "\<exists>hs. rc_sent (write_ops (response_ops rsp) r) = Some (rsp_status rsp, hs)"
    and "rc_out (write_ops (response_ops rsp) r) = rc_out r @ rsp_body rsp"
    and "rc_wrote (write_ops (response_ops rsp) r)"
proof -
  have "\<not> informational (rsp_status rsp)"
    using assms(3) by (auto simp: informational_def body_allowed_def)
  with assms show "\<exists>hs. rc_sent (write_ops (response_ops rsp) r) = Some (rsp_status rsp, hs)"
    "rc_out (write_ops (response_ops rsp) r) = rc_out r @ rsp_body rsp"
    "rc_wrote (write_ops (response_ops rsp) r)"
    by (simp_all add: response_ops_def write_ops_append)
       (simp_all add: write_ops_def write_ops_headers [unfolded write_ops_def] writer_defs Let_def)
qed

section \<open>The chain\<close>

text \<open>The id a request goes by: the inbound header, or sixteen random bytes in hexadecimal.\<close>

definition request_id_of :: "request \<Rightarrow> world \<Rightarrow> string option \<times> world" where
  "request_id_of rq w =
     (if rq_header rq request_id_header = [] then new_request_id w
      else (Some (rq_header rq request_id_header), w))"

definition final_status :: "recorder \<Rightarrow> nat" where
  "final_status r = (case rc_sent r of None \<Rightarrow> 200 | Some (s, _) \<Rightarrow> s)"

definition committed :: "wr_op list \<Rightarrow> bool" where
  "committed ops \<longleftrightarrow> list_ex (\<lambda>op. case op of SetHeader _ _ \<Rightarrow> False | _ \<Rightarrow> True) ops"

lemma wrote_op: "rc_wrote (write_op op r) \<longleftrightarrow> rc_wrote r \<or> (case op of SetHeader _ _ \<Rightarrow> False | _ \<Rightarrow> True)"
  by (cases op) (auto simp: writer_defs Let_def split: option.splits)

lemma wrote_ops: "rc_wrote (write_ops ops r) \<longleftrightarrow> rc_wrote r \<or> committed ops"
  unfolding write_ops_def committed_def by (induction ops arbitrary: r) (auto simp: wrote_op)

lemma valid_status:
  assumes "valid_ops ops" and "rec_ok r" and "\<not> rc_wrote r \<or> rc_status r \<noteq> 0"
    and "rc_wrote (write_ops ops r)"
  shows "rc_status (write_ops ops r) \<noteq> 0"
  using assms
proof (induction ops arbitrary: r)
  case (Cons op ops)
  have "\<not> rc_wrote (write_op op r) \<or> rc_status (write_op op r) \<noteq> 0"
    using Cons.prems(1-3)
    by (cases op)
       (auto simp: valid_ops_def valid_op_def writer_defs Let_def split: option.splits)
  with Cons rec_ok_op [OF Cons.prems(2), of op] show ?case
    by (auto simp: write_ops_def valid_ops_def)
qed (simp add: write_ops_def)

text \<open>The request as the handler under the chain is run.\<close>

definition entry_recorder :: "string \<Rightarrow> recorder" where
  "entry_recorder i = set_header request_id_header i fresh_recorder"

lemma entry_recorder_simps [simp]:
  "\<not> rc_wrote (entry_recorder i)" "rc_sent (entry_recorder i) = None" "rc_out (entry_recorder i) = []"
  "rec_ok (entry_recorder i)" "rc_header (entry_recorder i) request_id_header = i"
  by (simp_all add: entry_recorder_def set_header_def fresh_recorder_def rec_ok_def)

lemma chain_run:
  assumes "request_id_of rq w = (Some i, w1)"
    and "h (Some i) (rc_header (entry_recorder i)) rq w1 = (ops, out, w2)"
  shows "chain version h None rq fresh_recorder w =
    (let r = write_ops ops (entry_recorder i);
         seen = (if rc_wrote r then rc_status r else 0);
         status = (if seen = 0 then (case out of Panics \<Rightarrow> 500 | Returns \<Rightarrow> 200) else seen);
         w3 = emit (LogRequest i (rq_method rq) (rq_path rq) status
                ((w_app w2 - w_app w1) div millisecond) version) w2;
         rid = rc_header r request_id_header;
         w4 = emit (LogPanic rid (rq_method rq) (rq_path rq)) w3 in
     case out of
       Returns \<Rightarrow> (Returns, r, w3)
     | Panics \<Rightarrow>
         if rc_wrote r then (Returns, r, w4)
         else (Returns, write_ops (response_ops
                 (http_write_error 500 ''internal'' ''internal server error'' rid)) r, w4))"
proof -
  have "request_id_middleware f None rq fresh_recorder w = f (Some i) rq (entry_recorder i) w1" for f
    using assms(1)
    by (auto simp: request_id_middleware_def request_id_of_def entry_recorder_def split: if_splits)
  then show ?thesis using assms(2)
    by (cases out)
       (simp_all add: chain_def recover_middleware_def access_log_middleware_def run_handler_def
          request_id_from_context_def Let_def)
qed

lemma chain_no_id:
  assumes "request_id_of rq w = (None, w1)"
  shows "chain version h None rq fresh_recorder w =
    (Returns, write_ops (response_ops (http_write_error 500 ''internal'' ''internal server error'' [])) fresh_recorder,
     emit (LogPanic [] (rq_method rq) (rq_path rq)) w1)"
  using assms
  by (simp add: chain_def recover_middleware_def request_id_middleware_def request_id_of_def Let_def
      fresh_recorder_def split: if_splits)

text \<open>The answer to a request whose handler is \<open>(ops, out)\<close>.\<close>

definition answered_by :: "string \<Rightarrow> wr_op list \<Rightarrow> outcome \<Rightarrow> recorder \<Rightarrow> bool" where
  "answered_by i ops out r \<longleftrightarrow>
     (if out = Returns \<or> committed ops then r = write_ops ops (entry_recorder i)
      else (\<exists>rid hs. rid = rc_header (write_ops ops (entry_recorder i)) request_id_header \<and>
        rc_sent r = Some (500, hs) \<and>
        rc_out r = rsp_body (http_write_error 500 ''internal'' ''internal server error'' rid)))"

lemma chain_id:
  assumes "request_id_of rq w = (Some i, w1)"
    and "h (Some i) (rc_header (entry_recorder i)) rq w1 = (ops, out, w2)" and "valid_ops ops"
    and "chain version h None rq fresh_recorder w = (o', r, w')"
  shows "o' = Returns \<and> answered_by i ops out r \<and>
    (\<exists>ms panic. w_trace w' = w_trace w2 @
        LogRequest i (rq_method rq) (rq_path rq) (final_status r) ms version # panic \<and>
      length panic = (if out = Panics then 1 else 0)) \<and>
    w_tabs w' = w_tabs w2"
proof -
  let ?r = "write_ops ops (entry_recorder i)"
  let ?rid = "rc_header ?r request_id_header"
  let ?e = "http_write_error 500 ''internal'' ''internal server error'' ?rid"
  have ok: "rec_ok ?r" by (rule rec_ok_ops) (simp_all add: assms(3))
  have wrote: "rc_wrote ?r \<longleftrightarrow> committed ops" by (simp add: wrote_ops)
  have status: "rc_status ?r \<noteq> 0 \<and> final_status ?r = rc_status ?r" if "rc_wrote ?r"
    using valid_status [OF assms(3) _ _ that] ok that
    by (auto simp: final_status_def rec_ok_def split: option.splits)
  have none: "rc_sent ?r = None \<and> rc_out ?r = [] \<and> final_status ?r = 200" if "\<not> rc_wrote ?r"
    using ok that by (auto simp: final_status_def rec_ok_def split: option.splits)
  note run = chain_run [where h = h and version = version, OF assms(1,2), unfolded assms(4) Let_def]
  show ?thesis
  proof (cases out)
    case Returns
    with run status none show ?thesis by (cases "rc_wrote ?r") (auto simp: answered_by_def)
  next
    case Panics
    show ?thesis
    proof (cases "rc_wrote ?r")
      case True
      with Panics run status wrote show ?thesis by (auto simp: answered_by_def)
    next
      case False
      with none have u: "\<not> rc_wrote ?r" "rc_sent ?r = None" by auto
      from response_sent [OF u, of ?e] none [OF False] obtain hs where
        "rc_sent (write_ops (response_ops ?e) ?r) = Some (500, hs)"
        "rc_out (write_ops (response_ops ?e) ?r) = rsp_body ?e"
        by (auto simp: http_write_error_def)
      with False Panics run wrote show ?thesis by (auto simp: final_status_def answered_by_def)
    qed
  qed
qed

text \<open>C17: Every request is answered exactly once, and one that has an id is logged once.  For any handler
  behind the chain that writes no informational status (100 to 199, except 101; no handler of the program
  writes one), also one that panics at any point of its response: nothing escapes the outermost
  middleware; if the handler had committed a response, or returned, exactly its own response stands; if it
  panicked before committing anything, the answer is the 500 envelope with the request id; and the access
  log gets exactly one line, with the id and with the very status that went out, followed by one panic
  line if there was a panic.  A request without an id for which the random source fails does not reach the
  handler: it is answered with the 500 envelope without an id and leaves one panic line and no access line.\<close>

theorem chain_answers_once:
  assumes "request_id_of rq w = (rid, w1)"
    and "\<And>i. rid = Some i \<Longrightarrow> h (Some i) (rc_header (entry_recorder i)) rq w1 = (ops, out, w2) \<and> valid_ops ops"
    and "chain version h None rq fresh_recorder w = (o', r, w')"
  shows "o' = Returns \<and>
    (case rid of
       None \<Rightarrow> (\<exists>hs. rc_sent r = Some (500, hs)) \<and>
         rc_out r = rsp_body (http_write_error 500 ''internal'' ''internal server error'' []) \<and>
         w_trace w' = w_trace w1 @ [LogPanic [] (rq_method rq) (rq_path rq)] \<and> w_tabs w' = w_tabs w1
     | Some i \<Rightarrow> answered_by i ops out r \<and>
         (\<exists>ms panic. w_trace w' = w_trace w2 @
             LogRequest i (rq_method rq) (rq_path rq) (final_status r) ms version # panic \<and>
           length panic = (if out = Panics then 1 else 0)) \<and>
         w_tabs w' = w_tabs w2)"
proof (cases rid)
  case None
  let ?e = "http_write_error 500 ''internal'' ''internal server error'' []"
  have "rsp_status ?e = 500" by (simp add: http_write_error_def)
  with response_sent [of fresh_recorder ?e]
  have "\<exists>hs. rc_sent (write_ops (response_ops ?e) fresh_recorder) = Some (500, hs)"
    "rc_out (write_ops (response_ops ?e) fresh_recorder) = rsp_body ?e"
    by (simp_all add: fresh_recorder_def)
  with chain_no_id [OF assms(1) [unfolded None], of version h] None assms(3) show ?thesis by auto
next
  case (Some i)
  with chain_id [where h = h, OF _ _ _ assms(3), of i w1 ops out w2] assms(1,2) show ?thesis by simp
qed

text \<open>A handler that sets a header and panics.\<close>

definition crashing :: handler_fn where
  "crashing c hs rq w = ([SetHeader ''Content-Type'' ''text/plain''], Panics, w)"

definition toy_request :: "string \<Rightarrow> string \<Rightarrow> request" where
  "toy_request m p =
     \<lparr>rq_method = m, rq_path = p,
      rq_header = (\<lambda>k. if k = ''X-Request-Id'' then ''req-1'' else []),
      rq_body = \<lparr>b_data = [], b_err = None\<rparr>\<rparr>"

definition empty_world :: world where
  "empty_world =
     \<lparr>w_tabs = \<lparr>users = [], refresh_tokens = [], access_tokens = [], events = []\<rparr>, w_db = 0, w_app = 0,
      w_script = [], w_rand = [], w_ids = [], w_trace = []\<rparr>"

theorem chain_answers_once_witness:
  "\<exists>o' r w'. chain ''v'' crashing None (toy_request ''GET'' ''/x'') fresh_recorder empty_world = (o', r, w') \<and>
     o' = Returns \<and> (\<exists>hs. rc_sent r = Some (500, hs))"
proof -
  let ?w = empty_world
  obtain o' r w' where c: "chain ''v'' crashing None (toy_request ''GET'' ''/x'') fresh_recorder ?w = (o', r, w')"
    by (metis prod_cases3)
  have "request_id_of (toy_request ''GET'' ''/x'') ?w = (Some ''req-1'', ?w)"
    by (simp add: request_id_of_def toy_request_def request_id_header_def)
  from chain_answers_once [OF this _ c, of "[SetHeader ''Content-Type'' ''text/plain'']" Panics ?w] show ?thesis
    using c by (auto simp: crashing_def valid_ops_def valid_op_def committed_def answered_by_def)
qed

text \<open>
  With an informational status the recorder is wrong: it takes the status for the response.  A handler
  that sends early hints and then answers 404 is logged as 103, and its 404 is swallowed by the recorder,
  so that 200 goes out with its body; one that panics after the hints gets no 500 envelope.
\<close>

definition hinting :: "outcome \<Rightarrow> handler_fn" where
  "hinting out c hs rq w =
     (if out = Panics then [WriteHeader 103] else [WriteHeader 103, WriteHeader 404, WriteBody ''gone''], out, w)"

lemma informational_status_misrecorded:
  "\<exists>hs r w' ms. chain ''v'' (hinting Returns) None (toy_request ''GET'' ''/x'') fresh_recorder empty_world = (Returns, r, w') \<and>
     rc_sent r = Some (200, hs) \<and> rc_out r = ''gone'' \<and>
     w_trace w' = [LogRequest ''req-1'' ''GET'' ''/x'' 103 ms ''v'']"
  "\<exists>r w'. chain ''v'' (hinting Panics) None (toy_request ''GET'' ''/x'') fresh_recorder empty_world = (Returns, r, w') \<and>
     rc_sent r = None \<and> rc_out r = []"
proof -
  have i: "request_id_of (toy_request ''GET'' ''/x'') empty_world = (Some ''req-1'', empty_world)"
    by (simp add: request_id_of_def toy_request_def request_id_header_def)
  have h: "hinting out c hs rq w =
      (if out = Panics then [WriteHeader 103] else [WriteHeader 103, WriteHeader 404, WriteBody ''gone''], out, w)" for out c hs rq w
    by (simp add: hinting_def)
  note defs = write_ops_def entry_recorder_def fresh_recorder_def writer_defs informational_def body_allowed_def
    Let_def toy_request_def empty_world_def emit_def
  show "\<exists>hs r w' ms. chain ''v'' (hinting Returns) None (toy_request ''GET'' ''/x'') fresh_recorder empty_world = (Returns, r, w') \<and>
     rc_sent r = Some (200, hs) \<and> rc_out r = ''gone'' \<and>
     w_trace w' = [LogRequest ''req-1'' ''GET'' ''/x'' 103 ms ''v'']"
    unfolding chain_run [where h = "hinting Returns", OF i h] by (simp add: defs)
  show "\<exists>r w'. chain ''v'' (hinting Panics) None (toy_request ''GET'' ''/x'') fresh_recorder empty_world = (Returns, r, w') \<and>
     rc_sent r = None \<and> rc_out r = []"
    unfolding chain_run [where h = "hinting Panics", OF i h] by (simp add: defs)
qed

end
