(* ===== verification/IngestAuth.thy ===== *)
theory IngestAuth
  imports HttpShell Config Password
begin

text \<open>
  \<^verbatim>\<open>internal/http/ingest_auth.go\<close>: the verifier in front of \<^verbatim>\<open>POST /v1/events\<close>.  It hashes the
  token header, compares it with every configured hash, and on a mismatch answers one generic 401
  without running what it guards.
\<close>

definition ingest_token_header :: string where "ingest_token_header = ''X-Ingest-Token''"
definition ingest_unauthorized_message :: string where "ingest_unauthorized_message = ''unauthorized''"

definition log_ingest_auth_rejected :: "string \<Rightarrow> world \<Rightarrow> world" where
  "log_ingest_auth_rejected rid = emit (LogIngestRejected rid)"

text \<open>Every candidate is compared, also after a match.\<close>

definition ingest_token_matches :: "string \<Rightarrow> string list \<Rightarrow> bool" where
  "ingest_token_matches presented accepted =
     foldl (\<lambda>matched h. if constant_time_eq presented h then True else matched) False accepted"

definition ingest_verifier :: "string list \<Rightarrow> handler_fn \<Rightarrow> handler_fn" where
  "ingest_verifier accepted guarded c hs rq w =
     (let presented = hash_ingest_token (rq_header rq ingest_token_header) in
      if \<not> ingest_token_matches presented accepted then
        (let rid = request_id_from_context c in
         (response_ops (http_write_error 401 ''unauthorized'' ingest_unauthorized_message rid),
          Returns, log_ingest_auth_rejected rid w))
      else guarded c hs rq w)"

lemma foldl_matched: "foldl (\<lambda>m h. if P h then True else m) b hs \<longleftrightarrow> b \<or> list_ex P hs"
  by (induction hs arbitrary: b) auto

lemma ingest_token_matches_iff: "ingest_token_matches presented accepted \<longleftrightarrow> presented \<in> set accepted"
  by (auto simp: ingest_token_matches_def foldl_matched list_ex_iff)

text \<open>The token decides, and nothing else of the request.\<close>

definition token_accepted :: "string list \<Rightarrow> request \<Rightarrow> bool" where
  "token_accepted accepted rq \<longleftrightarrow> hash_ingest_token (rq_header rq ingest_token_header) \<in> set accepted"

lemma ingest_verifier_cases:
  "ingest_verifier accepted guarded c hs rq w =
     (if token_accepted accepted rq then guarded c hs rq w
      else (response_ops (http_write_error 401 ''unauthorized'' ''unauthorized''
              (request_id_from_context c)), Returns,
            emit (LogIngestRejected (request_id_from_context c)) w))"
  by (simp add: ingest_verifier_def token_accepted_def ingest_token_matches_iff Let_def
      ingest_unauthorized_message_def log_ingest_auth_rejected_def)

text \<open>A request without the header passes no loaded configuration.\<close>

lemma no_header_rejected:
  assumes "config_load env = Inr cfg" and "rq_header rq ingest_token_header = []"
  shows "\<not> token_accepted (cf_ingest_hashes cfg) rq"
  using loaded_hashes(2) [OF assms(1)] assms(2) by (auto simp: token_accepted_def)

end
