(* ===== verification/Server.thy ===== *)
theory Server
  imports IngestAuth Ingest Refresh Pool
begin

text \<open>
  \<^verbatim>\<open>cmd/api/main.go\<close>: the choice of the mode, the wiring of the server (routes of the modules, the
  ingest verifier in front of the events route, the feature flag), the seed and unlock commands,
  and the time budgets of the shutdown.
\<close>

section \<open>Routes of the modules\<close>

text \<open>A handler of a module reads the request id off the response header.\<close>

definition module_handler :: "(string \<Rightarrow> body \<Rightarrow> world \<Rightarrow> response \<times> world) \<Rightarrow> handler_fn" where
  "module_handler f c hs rq w =
     (case f (hs request_id_header) (rq_body rq) w of (rsp, w') \<Rightarrow> (response_ops rsp, Returns, w'))"

definition login_path :: string where "login_path = ''/v1/auth/login''"
definition refresh_path :: string where "refresh_path = ''/v1/auth/refresh''"
definition events_path :: string where "events_path = ''/v1/events''"

definition auth_routes :: "handler \<Rightarrow> route list" where
  "auth_routes h =
     [\<lparr>ro_method = ''POST'', ro_path = login_path, ro_handler = module_handler (login h)\<rparr>,
      \<lparr>ro_method = ''POST'', ro_path = refresh_path, ro_handler = module_handler refresh\<rparr>]"

definition ingest_handler :: "ingest_lib \<Rightarrow> obs_handler \<Rightarrow> handler_fn" where
  "ingest_handler lib h c hs rq w = module_handler (ingest lib h (rq_path rq)) c hs rq w"

definition obs_routes :: "ingest_lib \<Rightarrow> obs_handler \<Rightarrow> route list" where
  "obs_routes lib h =
     [\<lparr>ro_method = ''POST'', ro_path = events_path, ro_handler = ingest_handler lib h\<rparr>]"

section \<open>The wiring\<close>

text \<open>The sub-mux has no catch-all of its own; \<open>std_not_found\<close> is what \<^verbatim>\<open>net/http\<close> answers then.\<close>

definition ingest_verifier_registrar ::
  "(request \<Rightarrow> wr_op list option) \<Rightarrow> handler_fn \<Rightarrow> (handler_fn \<Rightarrow> handler_fn) \<Rightarrow> route list \<Rightarrow> route list" where
  "ingest_verifier_registrar redirect std_not_found verifier inner =
     [\<lparr>ro_method = ''POST'', ro_path = events_path,
       ro_handler = verifier (mux_serve redirect inner std_not_found)\<rparr>]"

record app =
  app_auth :: handler
  app_obs :: obs_handler
  app_lib :: ingest_lib
  app_redirect :: "request \<Rightarrow> wr_op list option"
  app_std_not_found :: handler_fn

definition effective_version :: "string \<Rightarrow> env \<Rightarrow> string" where
  "effective_version version env =
     (if version = ''dev'' \<and> env ''K_REVISION'' \<noteq> [] then env ''K_REVISION'' else version)"

definition registrars :: "app \<Rightarrow> config \<Rightarrow> route list list" where
  "registrars a cfg =
     auth_routes (app_auth a) #
     (if cf_ingest_enabled cfg
      then [ingest_verifier_registrar (app_redirect a) (app_std_not_found a)
              (ingest_verifier (cf_ingest_hashes cfg)) (obs_routes (app_lib a) (app_obs a))]
      else [])"

definition serve_app :: "app \<Rightarrow> config \<Rightarrow> request \<Rightarrow> world \<Rightarrow> outcome \<times> recorder \<times> world" where
  "serve_app a cfg rq w =
     new_server (app_redirect a) (cf_version cfg) (registrars a cfg) None rq fresh_recorder w"

text \<open>\<^verbatim>\<open>run\<close> up to the listener: the configuration, the pool, and the server's handler.\<close>

datatype run_error = ConfigRefused config_error | PoolRefused gerr

definition run_setup ::
  "(string \<Rightarrow> gerr + 'pool) \<Rightarrow> string \<Rightarrow> env \<Rightarrow> ('pool \<Rightarrow> app) \<Rightarrow>
     run_error + config \<times> (request \<Rightarrow> world \<Rightarrow> outcome \<times> recorder \<times> world)" where
  "run_setup open_pool version env build =
     (case config_load env of
        Inl e \<Rightarrow> Inl (ConfigRefused e)
      | Inr cfg0 \<Rightarrow>
          let cfg = cfg0\<lparr>cf_version := effective_version version env\<rparr> in
          (case open_pool (reveal (cf_dsn cfg)) of
             Inl e \<Rightarrow> Inl (PoolRefused e)
           | Inr pool \<Rightarrow> Inr (cfg, serve_app (build pool) cfg)))"

section \<open>The modes\<close>

datatype mode = SmokeMode | SeedMode | UnlockMode | SignActiveMode | ServeMode

definition select_mode :: "bool \<Rightarrow> bool \<Rightarrow> bool \<Rightarrow> bool \<Rightarrow> mode" where
  "select_mode smoke_flag seed unlock sign =
     (if smoke_flag then SmokeMode else if seed then SeedMode else if unlock then UnlockMode
      else if sign then SignActiveMode else ServeMode)"

text \<open>\<^verbatim>\<open>runSmoke\<close>.\<close>

datatype smoke_error = SmokeConfig config_error | SmokeFailed gerr

definition run_smoke ::
  "(string \<Rightarrow> gerr + 'conn) \<Rightarrow> ('conn \<Rightarrow> gerr option) \<Rightarrow> env \<Rightarrow> smoke_error option \<times> 'conn option" where
  "run_smoke connect select_one env =
     (case config_load env of
        Inl e \<Rightarrow> (Some (SmokeConfig e), None)
      | Inr cfg \<Rightarrow> (case smoke connect select_one (reveal (cf_dsn cfg)) of
          (err, conn) \<Rightarrow> (map_option SmokeFailed err, conn)))"

datatype admin_error =
    CredentialsMissing
  | HashFailed gerr
  | AdminConfig config_error
  | AdminPool gerr
  | CreateFailed gerr
  | LookupFailed gerr
  | ClearFailed gerr

text \<open>\<^verbatim>\<open>runSeed\<close>: the name of the user created.\<close>

definition run_seed ::
  "(string \<Rightarrow> string) \<Rightarrow> kdf \<Rightarrow> (string \<Rightarrow> gerr + 'pool) \<Rightarrow> env \<Rightarrow> world \<Rightarrow> (admin_error + string) \<times> world" where
  "run_seed pl kdf open_pool env w =
     (let username = env ''SEED_USERNAME''; password = env ''SEED_PASSWORD'' in
      if username = [] \<or> password = [] then (Inl CredentialsMissing, w)
      else (case hash_password kdf password w of
          (Inl e, w1) \<Rightarrow> (Inl (HashFailed e), w1)
        | (Inr hash, w1) \<Rightarrow>
            (case config_load env of
               Inl e \<Rightarrow> (Inl (AdminConfig e), w1)
             | Inr cfg \<Rightarrow>
                 (case open_pool (reveal (cf_dsn cfg)) of
                    Inl e \<Rightarrow> (Inl (AdminPool e), w1)
                  | Inr _ \<Rightarrow>
                      (let (i, w2) = next_id w1 in
                       case exec_stmt (WInsert ''CreateUser'') (create_user pl i username hash) w2 of
                         (Inl e, w3) \<Rightarrow> (Inl (CreateFailed e), w3)
                       | (Inr u, w3) \<Rightarrow> (Inr (u_username u), w3))))))"

text \<open>\<^verbatim>\<open>runUnlock\<close>: the name of the user whose lockout was cleared.\<close>

definition run_unlock ::
  "(string \<Rightarrow> string) \<Rightarrow> (string \<Rightarrow> gerr + 'pool) \<Rightarrow> env \<Rightarrow> world \<Rightarrow> (admin_error + string) \<times> world" where
  "run_unlock pl open_pool env w =
     (let username = env ''UNLOCK_USERNAME'' in
      if username = [] then (Inl CredentialsMissing, w)
      else (case config_load env of
          Inl e \<Rightarrow> (Inl (AdminConfig e), w)
        | Inr cfg \<Rightarrow>
            (case open_pool (reveal (cf_dsn cfg)) of
               Inl e \<Rightarrow> (Inl (AdminPool e), w)
             | Inr _ \<Rightarrow>
                 (case exec_stmt (WSelect ''GetUserByUsername'') (get_user_by_username pl username) w of
                    (Inl e, w1) \<Rightarrow> (Inl (LookupFailed e), w1)
                  | (Inr u, w1) \<Rightarrow>
                      (case exec_stmt (WUpdate ''SetUserLock'') (set_user_lock (u_id u) 0 None) w1 of
                         (Inl e, w2) \<Rightarrow> (Inl (ClearFailed e), w2)
                       | (Inr _, w2) \<Rightarrow> (Inr (u_username u), w2))))))"

section \<open>Shutdown\<close>

definition http_drain_budget :: duration where "http_drain_budget = 5 * second"
definition pool_close_budget :: duration where "pool_close_budget = 2 * second"
definition cloud_run_grace_period :: duration where "cloud_run_grace_period = 10 * second"
definition error_path_pool_close_grace :: duration where "error_path_pool_close_grace = 5 * second"

text \<open>How long something takes, \<^const>\<open>None\<close> when it never ends; what is left of it within a budget.\<close>

definition within :: "nat option \<Rightarrow> duration \<Rightarrow> duration" where
  "within takes budget = (case takes of None \<Rightarrow> budget | Some d \<Rightarrow> min (int d) budget)"

text \<open>\<^verbatim>\<open>closePoolWithGrace\<close>: when it returns.\<close>

definition close_pool_with_grace :: "nat option \<Rightarrow> duration \<Rightarrow> time \<Rightarrow> time" where
  "close_pool_with_grace close_takes grace now = now + within close_takes grace"

text \<open>\<^verbatim>\<open>gracefulShutdown\<close>: the error of \<^verbatim>\<open>Shutdown\<close>, when the pool starts to close, when it returns.\<close>

definition graceful_shutdown :: "nat option \<Rightarrow> nat option \<Rightarrow> time \<Rightarrow> gerr option \<times> time \<times> time" where
  "graceful_shutdown drain_takes close_takes now =
     (let drained = now + within drain_takes http_drain_budget;
          err = (case drain_takes of
                   None \<Rightarrow> Some DeadlineExceeded
                 | Some d \<Rightarrow> if int d \<le> http_drain_budget then None else Some DeadlineExceeded)
      in (err, drained, close_pool_with_grace close_takes pool_close_budget drained))"

text \<open>The last \<^verbatim>\<open>select\<close> of \<^verbatim>\<open>run\<close>: the listener stopped by itself, with \<^verbatim>\<open>http.ErrServerClosed\<close> or with another
  error, or a signal came in.\<close>

datatype server_end = ListenerClosed | ListenerFailed gerr | Signalled

definition run_end :: "server_end \<Rightarrow> nat option \<Rightarrow> nat option \<Rightarrow> time \<Rightarrow> gerr option \<times> time" where
  "run_end ev drain_takes close_takes now =
     (case ev of
        ListenerClosed \<Rightarrow> (None, now)
      | ListenerFailed e \<Rightarrow> (Some e, close_pool_with_grace close_takes error_path_pool_close_grace now)
      | Signalled \<Rightarrow> (case graceful_shutdown drain_takes close_takes now of (err, _, t) \<Rightarrow> (err, t)))"

lemma shutdown_fits:
  assumes "graceful_shutdown drain_takes close_takes now = (err, closing, done)"
  shows "closing \<le> done" and "done \<le> now + cloud_run_grace_period"
    and "err = None \<longleftrightarrow> (\<exists>d. drain_takes = Some d \<and> closing = now + int d)"
  using assms
  by (auto simp: graceful_shutdown_def close_pool_with_grace_def within_def Let_def duration_defs
      http_drain_budget_def pool_close_budget_def cloud_run_grace_period_def min_def
      split: option.splits if_splits)

text \<open>However the server ends, the process is not held longer than the platform waits.\<close>

lemma run_end_fits: "snd (run_end ev drain_takes close_takes now) \<le> now + cloud_run_grace_period"
proof (cases ev)
  case Signalled
  obtain err closing t where "graceful_shutdown drain_takes close_takes now = (err, closing, t)"
    by (metis prod_cases3)
  with shutdown_fits(2) [OF this] Signalled show ?thesis by (simp add: run_end_def)
qed (auto simp: run_end_def close_pool_with_grace_def within_def duration_defs min_def
    error_path_pool_close_grace_def cloud_run_grace_period_def split: option.splits)

section \<open>What a request meets\<close>

definition app_mux :: "app \<Rightarrow> config \<Rightarrow> handler_fn" where
  "app_mux a cfg =
     mux_serve (app_redirect a)
       (\<lparr>ro_method = ''GET'', ro_path = ''/livez'', ro_handler = livez_handler (cf_version cfg)\<rparr> #
        concat (registrars a cfg))
       not_found_handler"

lemma serve_app_chain: "serve_app a cfg rq w = chain (cf_version cfg) (app_mux a cfg) None rq fresh_recorder w"
  by (simp add: serve_app_def new_server_def app_mux_def)

lemmas path_defs = login_path_def refresh_path_def events_path_def

lemma mux_login:
  assumes "app_redirect a rq = None" and "rq_method rq = ''POST''" and "rq_path rq = login_path"
  shows "app_mux a cfg c hs rq w = module_handler (login (app_auth a)) c hs rq w"
  using assms
  by (simp add: app_mux_def mux_serve_def registrars_def auth_routes_def route_matches_def
      method_matches_def path_defs)

lemma mux_refresh:
  assumes "app_redirect a rq = None" and "rq_method rq = ''POST''" and "rq_path rq = refresh_path"
  shows "app_mux a cfg c hs rq w = module_handler refresh c hs rq w"
  using assms
  by (simp add: app_mux_def mux_serve_def registrars_def auth_routes_def route_matches_def
      method_matches_def path_defs)

lemma mux_events:
  assumes "app_redirect a rq = None" and "rq_method rq = ''POST''" and "rq_path rq = events_path"
  shows "app_mux a cfg c hs rq w =
    (if cf_ingest_enabled cfg
     then ingest_verifier (cf_ingest_hashes cfg) (ingest_handler (app_lib a) (app_obs a)) c hs rq w
     else not_found_handler c hs rq w)"
proof -
  have sub: "mux_serve (app_redirect a) (obs_routes (app_lib a) (app_obs a)) (app_std_not_found a) c hs rq w =
      ingest_handler (app_lib a) (app_obs a) c hs rq w"
    using assms by (simp add: mux_serve_def obs_routes_def route_matches_def method_matches_def)
  show ?thesis using assms sub
    by (simp add: app_mux_def mux_serve_def [where routes = "_ # _"] registrars_def auth_routes_def
        route_matches_def method_matches_def ingest_verifier_registrar_def path_defs ingest_verifier_cases)
qed

text \<open>A handler that answers with one response value, seen through the whole stack.\<close>

lemma stack_response:
  assumes "request_id_of rq w = (Some i, w1)"
    and "h (Some i) (rc_header (entry_recorder i)) rq w1 = (response_ops rsp, Returns, w2)"
    and "chain version h None rq fresh_recorder w = (out, r, w')" and "body_allowed (rsp_status rsp)"
  shows "out = Returns \<and> (\<exists>hs. rc_sent r = Some (rsp_status rsp, hs)) \<and> rc_out r = rsp_body rsp \<and>
    w_tabs w' = w_tabs w2 \<and> (\<exists>line. w_trace w' = w_trace w2 @ [line])"
proof -
  have "out = Returns \<and> r = write_ops (response_ops rsp) (entry_recorder i) \<and>
      w_tabs w' = w_tabs w2 \<and> (\<exists>line. w_trace w' = w_trace w2 @ [line])"
    using chain_run [where h = h and version = version, OF assms(1,2)] assms(3)
    by (auto simp: Let_def)
  with response_sent [of "entry_recorder i" rsp] assms(4) show ?thesis by auto
qed

lemma request_id_frame: "request_id_of rq w = (i, w1) \<Longrightarrow> w_tabs w1 = w_tabs w \<and> w_trace w1 = w_trace w"
  by (auto simp: request_id_of_def new_request_id_def random_bytes_def
      split: if_splits prod.splits sum.splits list.splits option.splits)

end
