(* ===== verification/ServerSpec.thy ===== *)
theory ServerSpec
  imports Server Fixture
begin

text \<open>
  The assembled server: what a request to a route of a module meets between the socket and the
  module's own handler.
\<close>

section \<open>A deployment to try\<close>

text \<open>The feature is on with one digest, of which nobody knows the token.\<close>

definition toy_env :: env where
  "toy_env k =
     (if k = ''NEON_DSN'' then ''postgres://db'' else if k = ''EVENTS_INGEST_ENABLED'' then ''true''
      else if k = ''EVENTS_INGEST_TOKEN_SHA256S''
      then ''0123456789abcdef0123456789abcdef0123456789abcdef0123456789abcdef''
      else if k = ''K_REVISION'' then ''rev-7'' else [])"

definition toy_app :: "unit \<Rightarrow> app" where
  "toy_app _ =
     \<lparr>app_auth = new_handler id toy_kdf [] id, app_obs = new_obs_handler (\<lambda>_. None),
      app_lib = \<lparr>il_unmarshal = (\<lambda>_. None), il_batch_ok = (\<lambda>_. True), il_event_ok = (\<lambda>_. True)\<rparr>,
      app_redirect = (\<lambda>_. None), app_std_not_found = not_found_handler\<rparr>"

definition toy_cfg :: config where
  "toy_cfg =
     \<lparr>cf_port = ''8080'', cf_version = ''rev-7'', cf_dsn = Secret ''postgres://db'', cf_ingest_enabled = True,
      cf_ingest_hashes = [''0123456789abcdef0123456789abcdef0123456789abcdef0123456789abcdef'']\<rparr>"

lemma toy_env_simps [simp]:
  "toy_env ''NEON_DSN'' = ''postgres://db''" "toy_env ''EVENTS_INGEST_ENABLED'' = ''true''"
  by (simp_all add: toy_env_def)

lemma toy_setup:
  "run_setup (\<lambda>_. Inr ()) ''dev'' toy_env toy_app = Inr (toy_cfg, serve_app (toy_app ()) toy_cfg)"
proof -
  have "config_load toy_env = Inr (toy_cfg\<lparr>cf_version := []\<rparr>)" by code_simp
  then show ?thesis
    by (simp add: run_setup_def toy_cfg_def effective_version_def toy_env_def Let_def)
qed

lemma toy_request_simps [simp]:
  "rq_method (toy_request m p) = m" "rq_path (toy_request m p) = p"
  "request_id_of (toy_request m p) w = (Some ''req-1'', w)"
  "rq_header (toy_request m p) ingest_token_header = []"
  by (simp_all add: toy_request_def request_id_of_def request_id_header_def ingest_token_header_def)

section \<open>A server that came up\<close>

lemma run_setup_Inr:
  assumes "run_setup open_pool version env build = Inr (cfg, srv)" and "open_pool (env ''NEON_DSN'') = Inr pool"
  obtains cfg0 where "config_load env = Inr cfg0" and "cfg = cfg0\<lparr>cf_version := effective_version version env\<rparr>"
    and "srv = serve_app (build pool) cfg"
  using assms
  by (auto simp: run_setup_def Let_def config_load_Inr(4) split: sum.splits intro: that)

lemma run_setup_ingest:
  assumes "run_setup open_pool version env build = Inr (cfg, srv)" and "open_pool (env ''NEON_DSN'') = Inr pool"
  shows "cf_ingest_enabled cfg \<longleftrightarrow> env ''EVENTS_INGEST_ENABLED'' = ''true''"
    and "rq_header rq ingest_token_header = [] \<Longrightarrow> \<not> token_accepted (cf_ingest_hashes cfg) rq"
    and "length (cf_ingest_hashes cfg) \<le> 2"
  using run_setup_Inr [OF assms] config_load_Inr(2) no_header_rejected loaded_hashes(1) by fastforce+

text \<open>The answer of a response value through the whole stack.\<close>

lemma served:
  assumes "app_mux a cfg (Some i) (rc_header (entry_recorder i)) rq w1 = (response_ops rsp, Returns, w2)"
    and "request_id_of rq w = (Some i, w1)" and "serve_app a cfg rq w = (out, r, w')"
    and "body_allowed (rsp_status rsp)"
  shows "out = Returns \<and> (\<exists>hs. rc_sent r = Some (rsp_status rsp, hs)) \<and> rc_out r = rsp_body rsp \<and>
    w_tabs w' = w_tabs w2 \<and> (\<exists>line. w_trace w' = w_trace w2 @ [line])"
  using stack_response [where h = "app_mux a cfg" and version = "cf_version cfg", OF assms(2,1)] assms(3,4) by (simp add: serve_app_chain)

text \<open>Every answer of a module has a status that carries a body.\<close>

lemma module_statuses:
  "login h rid b w = (rsp, w') \<Longrightarrow> body_allowed (rsp_status rsp)"
  "refresh rid b w = (rsp, w') \<Longrightarrow> body_allowed (rsp_status rsp)"
  "ingest lib oh path rid b w = (rsp, w') \<Longrightarrow> body_allowed (rsp_status rsp)"
proof -
  have m: "s \<in> {200, 400, 401, 413, 429, 500} \<Longrightarrow> body_allowed s" for s by (auto simp: body_allowed_def)
  show "body_allowed (rsp_status rsp)" if "login h rid b w = (rsp, w')"
    using that by (intro m) (auto simp: login_def split: option.splits prod.splits if_splits sum.splits)
  show "body_allowed (rsp_status rsp)" if "refresh rid b w = (rsp, w')"
    using that by (intro m) (auto elim: refresh_cases)
  show "body_allowed (rsp_status rsp)" if "ingest lib oh path rid b w = (rsp, w')"
    using that by (intro m) (auto simp: ingest_def Let_def rate_limited_def
        split: prod.splits if_splits sum.splits dest!: screen_Inl)
qed

lemma http_write_error_status [simp]: "rsp_status (http_write_error s c m rid) = s"
  by (simp add: http_write_error_def)

text \<open>What stands before the ingest handler on a deployment with this environment.\<close>

definition ingest_open :: "env \<Rightarrow> config \<Rightarrow> request \<Rightarrow> bool" where
  "ingest_open env cfg rq \<longleftrightarrow>
     env ''EVENTS_INGEST_ENABLED'' = ''true'' \<and> rq_header rq ingest_token_header \<noteq> [] \<and>
     hash_ingest_token (rq_header rq ingest_token_header) \<in> set (cf_ingest_hashes cfg)"

definition ingest_refusal :: "env \<Rightarrow> string \<Rightarrow> response" where
  "ingest_refusal env rid =
     (if env ''EVENTS_INGEST_ENABLED'' = ''true'' then http_write_error 401 ''unauthorized'' ''unauthorized'' rid
      else http_write_error 404 ''not_found'' ''resource not found'' rid)"

lemma ingest_open_iff:
  assumes "run_setup open_pool version env build = Inr (cfg, srv)" and "open_pool (env ''NEON_DSN'') = Inr pool"
  shows "ingest_open env cfg rq \<longleftrightarrow> cf_ingest_enabled cfg \<and> token_accepted (cf_ingest_hashes cfg) rq"
  using run_setup_ingest(1,2) [OF assms] by (auto simp: ingest_open_def token_accepted_def)

text \<open>C4: Nothing reaches the events without a configured token.  On every server that came up, a
  \<^verbatim>\<open>POST /v1/events\<close> whose \<^verbatim>\<open>X-Ingest-Token\<close> is absent or empty, or does not hash to one of the at most two
  configured digests, is answered with the fixed 401 envelope, and with the fixed 404 envelope when
  the feature is off, whatever its body; no table changes, no statement is run, and the rejection
  is logged once, before the access-log line.\<close>

theorem events_need_token:
  assumes "run_setup open_pool version env build = Inr (cfg, srv)" and "open_pool (env ''NEON_DSN'') = Inr pool"
    and "app_redirect (build pool) rq = None" and "rq_method rq = ''POST''" and "rq_path rq = events_path"
    and "\<not> ingest_open env cfg rq"
    and "request_id_of rq w = (Some i, w1)" and "srv rq w = (out, r, w')"
  shows "out = Returns \<and> (\<exists>hs. rc_sent r = Some (rsp_status (ingest_refusal env i), hs)) \<and>
    rc_out r = rsp_body (ingest_refusal env i) \<and> w_tabs w' = w_tabs w \<and>
    length (cf_ingest_hashes cfg) \<le> 2 \<and>
    (\<exists>line. w_trace w' = w_trace w @
       (if env ''EVENTS_INGEST_ENABLED'' = ''true'' then [LogIngestRejected i] else []) @ [line])"
proof -
  let ?en = "env ''EVENTS_INGEST_ENABLED'' = ''true''"
  let ?w2 = "if ?en then emit (LogIngestRejected i) w1 else w1"
  have "\<not> (cf_ingest_enabled cfg \<and> token_accepted (cf_ingest_hashes cfg) rq)"
    using assms(6) ingest_open_iff [OF assms(1,2)] by simp
  then have m: "app_mux (build pool) cfg (Some i) (rc_header (entry_recorder i)) rq w1 =
      (response_ops (ingest_refusal env i), Returns, ?w2)"
    using run_setup_ingest(1) [OF assms(1,2)]
    by (cases ?en) (simp_all add: mux_events [OF assms(3-5)] ingest_verifier_cases
        not_found_handler_def ingest_refusal_def request_id_from_context_def)
  obtain cfg0 where srv: "srv = serve_app (build pool) cfg" using run_setup_Inr [OF assms(1,2)] by metis
  have "w_trace ?w2 = w_trace w @ (if ?en then [LogIngestRejected i] else [])" "w_tabs ?w2 = w_tabs w"
    using request_id_frame [OF assms(7)] by simp_all
  moreover have "body_allowed (rsp_status (ingest_refusal env i))"
    by (simp add: ingest_refusal_def body_allowed_def)
  ultimately show ?thesis
    using served [OF m assms(7) assms(8) [unfolded srv]] run_setup_ingest(3) [OF assms(1,2)]
    by (metis append_assoc)
qed

theorem events_need_token_witness:
  "\<exists>out r w'. serve_app (toy_app ()) toy_cfg (toy_request ''POST'' events_path) empty_world = (out, r, w') \<and>
     (\<exists>hs. rc_sent r = Some (401, hs)) \<and> w_tabs w' = w_tabs empty_world"
proof -
  obtain out r w' where "serve_app (toy_app ()) toy_cfg (toy_request ''POST'' events_path) empty_world = (out, r, w')"
    by (metis prod_cases3)
  with events_need_token [OF toy_setup, of "()" "toy_request ''POST'' events_path" empty_world "''req-1''"
      empty_world out r w'] show ?thesis
    by (auto simp: toy_app_def ingest_open_def ingest_refusal_def)
qed

text \<open>C34: The stack adds nothing and hides nothing.  On every server that came up, a POST to the login
  path, the refresh path, or with an accepted token to the events path is answered with exactly the
  status and body the module's handler gives for the request id, leaves the tables exactly as the
  handler leaves them, and adds one access-log line; the id is the inbound \<^verbatim>\<open>X-Request-Id\<close> if it is there.\<close>

theorem stack_transparent:
  assumes "run_setup open_pool version env build = Inr (cfg, srv)" and "open_pool (env ''NEON_DSN'') = Inr pool"
    and "app_redirect (build pool) rq = None" and "rq_method rq = ''POST''"
    and "request_id_of rq w = (Some i, w1)"
    and "(rq_path rq, f) = (login_path, login (app_auth (build pool))) \<or> (rq_path rq, f) = (refresh_path, refresh) \<or>
      (rq_path rq, f) = (events_path, ingest (app_lib (build pool)) (app_obs (build pool)) events_path) \<and>
      ingest_open env cfg rq"
    and "f i (rq_body rq) w1 = (rsp, w2)" and "srv rq w = (out, r, w')"
  shows "out = Returns \<and> (\<exists>hs. rc_sent r = Some (rsp_status rsp, hs)) \<and> rc_out r = rsp_body rsp \<and>
    w_tabs w1 = w_tabs w \<and> w_tabs w' = w_tabs w2 \<and> (\<exists>line. w_trace w' = w_trace w2 @ [line]) \<and>
    (rq_header rq request_id_header \<noteq> [] \<longrightarrow> i = rq_header rq request_id_header)"
proof -
  have "app_mux (build pool) cfg c hs rq v = module_handler f c hs rq v" for c hs v
    using assms(6)
  proof (elim disjE conjE)
    assume "(rq_path rq, f) = (login_path, login (app_auth (build pool)))"
    then show ?thesis by (simp add: mux_login [OF assms(3,4)])
  next
    assume "(rq_path rq, f) = (refresh_path, refresh)"
    then show ?thesis by (simp add: mux_refresh [OF assms(3,4)])
  next
    assume e: "(rq_path rq, f) = (events_path, ingest (app_lib (build pool)) (app_obs (build pool)) events_path)"
      and "ingest_open env cfg rq"
    with ingest_open_iff [OF assms(1,2)]
    have "cf_ingest_enabled cfg" "token_accepted (cf_ingest_hashes cfg) rq" by simp_all
    with e show ?thesis by (simp add: mux_events [OF assms(3,4)] ingest_verifier_cases ingest_handler_def)
  qed
  then have m: "app_mux (build pool) cfg (Some i) (rc_header (entry_recorder i)) rq w1 =
      (response_ops rsp, Returns, w2)"
    using assms(7) by (simp add: module_handler_def)
  obtain cfg0 where srv: "srv = serve_app (build pool) cfg" using run_setup_Inr [OF assms(1,2)] by metis
  have "rq_header rq request_id_header \<noteq> [] \<longrightarrow> i = rq_header rq request_id_header"
    using assms(5) by (auto simp: request_id_of_def)
  moreover have "body_allowed (rsp_status rsp)" using assms(6,7) module_statuses by auto
  ultimately show ?thesis
    using served [OF m assms(5) assms(8) [unfolded srv]] request_id_frame [OF assms(5)] by simp
qed

theorem stack_transparent_witness:
  "\<exists>out r w'. serve_app (toy_app ()) toy_cfg (toy_request ''POST'' refresh_path) empty_world = (out, r, w') \<and>
     (\<exists>hs. rc_sent r = Some (400, hs)) \<and> w_tabs w' = w_tabs empty_world"
proof -
  obtain out r w' where s: "serve_app (toy_app ()) toy_cfg (toy_request ''POST'' refresh_path) empty_world = (out, r, w')"
    by (metis prod_cases3)
  have "decode_refresh_request \<lparr>b_data = [], b_err = None\<rparr> = None" by code_simp
  then have "refresh ''req-1'' (rq_body (toy_request ''POST'' refresh_path)) empty_world =
      (bad_request ''req-1'', empty_world)"
    by (simp add: refresh_def toy_request_def)
  with stack_transparent [OF toy_setup _ _ _ _ _ _ s, of "()" "''req-1''" empty_world refresh] s show ?thesis
    by (auto simp: toy_app_def)
qed

text \<open>C20: The operator's tokens open the events.  With a DSN, the feature on, and the SHA-256 digests of one or
  two tokens listed in the environment (tokens whose digest is not that of the empty string), the
  configuration loads and the server comes up as soon as the pool does; it accepts exactly the digests
  of these tokens, and a \<^verbatim>\<open>POST /v1/events\<close> that carries one of the tokens reaches the ingest handler.\<close>

theorem operator_tokens_accepted:
  assumes "env ''NEON_DSN'' \<noteq> []" and "env ''EVENTS_INGEST_ENABLED'' = ''true''"
    and "env ''EVENTS_INGEST_TOKEN_SHA256S'' = str_join '','' (map hash_ingest_token ts)"
    and "ts \<noteq> []" and "length ts \<le> 2" and "\<forall>t \<in> set ts. hash_ingest_token t \<noteq> hash_ingest_token []"
    and "open_pool (env ''NEON_DSN'') = Inr pool"
  shows "\<exists>cfg. run_setup open_pool version env build = Inr (cfg, serve_app (build pool) cfg) \<and>
    cf_ingest_hashes cfg = map hash_ingest_token ts \<and>
    (\<forall>rq c hs w. app_redirect (build pool) rq = None \<and> rq_method rq = ''POST'' \<and> rq_path rq = events_path \<and>
       rq_header rq ingest_token_header \<in> set ts \<longrightarrow>
       app_mux (build pool) cfg c hs rq w =
         module_handler (ingest (app_lib (build pool)) (app_obs (build pool)) events_path) c hs rq w)"
proof -
  let ?cfg = "\<lparr>cf_port = (if env ''PORT'' = [] then ''8080'' else env ''PORT''),
    cf_version = effective_version version env, cf_dsn = Secret (env ''NEON_DSN''), cf_ingest_enabled = True,
    cf_ingest_hashes = map hash_ingest_token ts\<rparr>"
  have "run_setup open_pool version env build = Inr (?cfg, serve_app (build pool) ?cfg)"
    using assms parse_own_hashes [OF assms(4-6)] by (simp add: run_setup_def config_load_def Let_def)
  moreover have "app_mux (build pool) ?cfg c hs rq w =
      module_handler (ingest (app_lib (build pool)) (app_obs (build pool)) events_path) c hs rq w"
    if "app_redirect (build pool) rq = None" "rq_method rq = ''POST''" "rq_path rq = events_path"
      "rq_header rq ingest_token_header \<in> set ts" for rq c hs w
    using that by (simp add: mux_events ingest_verifier_cases token_accepted_def ingest_handler_def)
  ultimately show ?thesis by (intro exI [of _ ?cfg]) simp
qed

theorem operator_tokens_accepted_witness:
  "\<exists>cfg. run_setup (\<lambda>_. Inr ()) ''dev''
       (toy_env(''EVENTS_INGEST_TOKEN_SHA256S'' := str_join '','' (map hash_ingest_token [''abc'']))) toy_app =
     Inr (cfg, serve_app (toy_app ()) cfg) \<and> cf_ingest_hashes cfg = [hash_ingest_token ''abc'']"
proof -
  have "hash_ingest_token ''abc'' \<noteq> hash_ingest_token []" by code_simp
  with operator_tokens_accepted [of "toy_env(''EVENTS_INGEST_TOKEN_SHA256S'' := str_join '','' (map hash_ingest_token [''abc'']))"
      "[''abc'']" "\<lambda>_. Inr ()" "()" "''dev''" toy_app]
  show ?thesis by (simp add: toy_env_def) blast
qed

end
