(* ===== verification/AdminSpec.thy ===== *)
theory AdminSpec
  imports Server LoginSpec Queries
begin

text \<open>
  The administrative commands of \<^verbatim>\<open>cmd/api/main.go\<close> together with the login they serve: a seeded user
  can log in, and so can a user that was unlocked.
\<close>

section \<open>A login that nothing hinders\<close>

text \<open>No failure ahead, and values from the random source and the id supply that are not in use.\<close>

definition ready :: "world \<Rightarrow> bool" where
  "ready v \<longleftrightarrow> w_script v = [] \<and>
     (\<exists>i j ids raw sel ver fam rs. w_ids v = i # j # ids \<and>
        w_rand v = Some raw # Some sel # Some ver # Some fam # rs \<and>
        length raw = 32 \<and> length sel = 16 \<and> length ver = 16 \<and> length fam = 16 \<and>
        (\<forall>q \<in> set (access_tokens (w_tabs v)). at_id q \<noteq> i \<and> at_token_hash q \<noteq> sha256 raw) \<and>
        (\<forall>q \<in> set (refresh_tokens (w_tabs v)). rt_id q \<noteq> j \<and> rt_selector q \<noteq> raw_url_enc sel))"

text \<open>The answer is a session of the user \<open>u\<close>.\<close>

definition session_for :: "user_row \<Rightarrow> world \<Rightarrow> response \<Rightarrow> bool" where
  "session_for u v rsp \<longleftrightarrow> (\<exists>a r. rsp = session_response (session_of (u_id u) a r (w_app v)))"

lemma ready_login:
  assumes "ready v" and "decode_login_request b = Some req"
    and "find (\<lambda>u. pl (u_username u) = pl (to_lower ul (lr_username req))) (users (w_tabs v)) = Some u"
    and "\<not> still_locked (u_locked_until u) (w_db v)" and "u_status u = ''active''"
    and "verify_hash kdf (credential_plain (lr_password req)) (u_password_hash u) = Inr True"
  shows "session_for u v (fst (login (new_handler pl kdf d ul) rid b v))"
proof -
  from assms(1) obtain i j ids raw sel ver fam rs where "w_script v = []" "w_ids v = i # j # ids"
    "w_rand v = Some raw # Some sel # Some ver # Some fam # rs"
    "length raw = 32" "length sel = 16" "length ver = 16" "length fam = 16"
    "\<forall>q \<in> set (access_tokens (w_tabs v)). at_id q \<noteq> i \<and> at_token_hash q \<noteq> sha256 raw"
    "\<forall>q \<in> set (refresh_tokens (w_tabs v)). rt_id q \<noteq> j \<and> rt_selector q \<noteq> raw_url_enc sel"
    unfolding ready_def by blast
  from login_quiet [OF assms(2-6) this, THEN conjunct1] show ?thesis
    unfolding session_for_def by blast
qed

section \<open>Seeding\<close>

lemma hash_password_verifies:
  assumes "kdf_length_ok kdf" and "hash_password kdf pw w = (Inr h, w')"
  shows "verify_hash kdf pw h = Inr True" and "w_tabs w' = w_tabs w"
proof -
  obtain salt w0 where r: "random_bytes (salt_length current_params) w = (Inr salt, w0)"
    and h: "h = encode_hash kdf pw salt current_params" and w': "w' = emit WArgon2 w0"
    using assms(2) by (auto simp: hash_password_def split: prod.splits sum.splits)
  have t: "w_tabs w' = w_tabs w"
    using r w' by (auto simp: random_bytes_def split: list.splits option.splits)
  from random_bytes_length [OF r] h
  hash_decodes [OF assms(1)] show "verify_hash kdf pw h = Inr True"
    by (simp add: verify_hash_def encode_hash_def current_params_def)
  show "w_tabs w' = w_tabs w" by (rule t)
qed

lemma run_seed_Inr:
  assumes "kdf_length_ok kdf" and "run_seed pl kdf open_pool env w = (Inr n, w')"
  obtains u where "w_tabs w' = (w_tabs w)\<lparr>users := users (w_tabs w) @ [u]\<rparr>" and "u_username u = n"
    and "n = env ''SEED_USERNAME''" and "u_status u = ''active''" and "u_locked_until u = None"
    and "verify_hash kdf (env ''SEED_PASSWORD'') (u_password_hash u) = Inr True"
    and "find (\<lambda>v. pl (u_username v) = pl n) (users (w_tabs w')) = Some u"
proof -
  obtain h w1 cfg where h: "hash_password kdf (env ''SEED_PASSWORD'') w = (Inr h, w1)"
    using assms(2) by (auto simp: run_seed_def Let_def split: if_splits prod.splits sum.splits)
  obtain u where e: "qr_create_user (pool_queries pl (\<lambda>_. None)) (env ''SEED_USERNAME'') h w1 = (Inr u, w')"
    and n: "n = u_username u"
    using assms(2) h
    by (auto simp: run_seed_def pool_methods Let_def split: if_splits prod.splits sum.splits)
  note c = pool_provider.created_user [OF e [unfolded pool_queries_def]]
  with n hash_password_verifies [OF assms(1) h] show thesis by (intro that [of u]) auto
qed

text \<open>C35: A seeded user can log in, and nobody else appears.  If \<^verbatim>\<open>-seed\<close> reports success, whatever the
  database did on the way, exactly one user was added, with the given name, active and unlocked and
  with only a hash of the password; and a login with that name (in any case the lookup identifies) and
  that password is answered with a session of exactly this user.\<close>

theorem seeded_user_logs_in:
  assumes "kdf_length_ok kdf" and "run_seed pl kdf open_pool env w = (Inr n, w1)"
    and "w_tabs v = w_tabs w1" and "ready v" and "decode_login_request b = Some req"
    and "pl (to_lower ul (lr_username req)) = pl (env ''SEED_USERNAME'')"
    and "credential_plain (lr_password req) = env ''SEED_PASSWORD''"
  shows "\<exists>u. w_tabs w1 = (w_tabs w)\<lparr>users := users (w_tabs w) @ [u]\<rparr> \<and> u_username u = n \<and>
    n = env ''SEED_USERNAME'' \<and> session_for u v (fst (login (new_handler pl kdf d ul) rid b v))"
proof -
  obtain u where u: "w_tabs w1 = (w_tabs w)\<lparr>users := users (w_tabs w) @ [u]\<rparr>" "u_username u = n"
      "n = env ''SEED_USERNAME''"
    and l: "u_status u = ''active''" "u_locked_until u = None"
      "verify_hash kdf (env ''SEED_PASSWORD'') (u_password_hash u) = Inr True"
      "find (\<lambda>v. pl (u_username v) = pl n) (users (w_tabs w1)) = Some u"
    by (rule run_seed_Inr [OF assms(1,2)])
  have f: "find (\<lambda>u. pl (u_username u) = pl (to_lower ul (lr_username req))) (users (w_tabs v)) = Some u"
    unfolding assms(3,6) using l(4) u(3) by simp
  have "session_for u v (fst (login (new_handler pl kdf d ul) rid b v))"
    by (rule ready_login [OF assms(4,5) f _ l(1)]) (simp_all add: l assms(7) still_locked_def)
  with u show ?thesis by blast
qed

text \<open>Both commands on the fixture's tables, and the quiet worlds in which the logins follow.\<close>

definition admin_env :: env where
  "admin_env k =
     (if k = ''NEON_DSN'' then ''postgres://db'' else if k = ''SEED_USERNAME'' then ''carol''
      else if k = ''SEED_PASSWORD'' then ''secret'' else if k = ''UNLOCK_USERNAME'' then ''bob'' else [])"

lemma admin_env_simps [simp]:
  "admin_env ''SEED_USERNAME'' = ''carol''" "admin_env ''SEED_PASSWORD'' = ''secret''"
  "admin_env ''UNLOCK_USERNAME'' = ''bob''" "admin_env ''NEON_DSN'' = ''postgres://db''"
  by (simp_all add: admin_env_def)

lemma admin_config:
  "config_load admin_env = Inr \<lparr>cf_port = ''8080'', cf_version = [], cf_dsn = Secret ''postgres://db'',
     cf_ingest_enabled = False, cf_ingest_hashes = []\<rparr>"
  by code_simp

definition after_admin :: "tables \<Rightarrow> world" where
  "after_admin t = toy_world\<lparr>w_tabs := t\<rparr>"

lemma after_admin_ready:
  assumes "access_tokens t = []" and "refresh_tokens t = []"
  shows "ready (after_admin t)" and "w_tabs (after_admin t) = t"
  using assms by (simp_all add: ready_def after_admin_def toy_world_def)

definition carol_body :: body where
  \<open>carol_body = \<lparr>b_data = ''{"username":"Carol","password":"secret"}'', b_err = None\<rparr>\<close>

lemma carol_body_decodes:
  "decode_login_request carol_body = Some \<lparr>lr_username = ''Carol'', lr_password = Credential ''secret''\<rparr>"
  "to_lower (\<lambda>s. s) ''Carol'' = ''carol''"
  by code_simp+

lemma toy_seed_run:
  "\<exists>w1. run_seed (\<lambda>s. s) toy_kdf (\<lambda>_. Inr ()) admin_env (quiet_world toy_tables 0) = (Inr ''carol'', w1)"
  using admin_config
  by (auto simp: run_seed_def hash_password_def random_bytes_def next_id_def exec_stmt_def
      next_fault_quiet create_user_def toy_tables_def fixture_users alice_id_def bob_id_def Let_def)

theorem seeded_user_logs_in_witness:
  "\<exists>w1 u. run_seed (\<lambda>s. s) toy_kdf (\<lambda>_. Inr ()) admin_env (quiet_world toy_tables 0) = (Inr ''carol'', w1) \<and>
     session_for u (after_admin (w_tabs w1))
       (fst (login (new_handler (\<lambda>s. s) toy_kdf (toy_hash ''dummy'') (\<lambda>s. s)) ''r'' carol_body
          (after_admin (w_tabs w1))))"
proof -
  obtain w1 where s: "run_seed (\<lambda>s. s) toy_kdf (\<lambda>_. Inr ()) admin_env (quiet_world toy_tables 0) =
      (Inr ''carol'', w1)"
    using toy_seed_run by blast
  obtain u where "w_tabs w1 = (w_tabs (quiet_world toy_tables 0))
      \<lparr>users := users (w_tabs (quiet_world toy_tables 0)) @ [u]\<rparr>"
    by (rule run_seed_Inr [OF toy_kdf_length s])
  then have r: "access_tokens (w_tabs w1) = []" "refresh_tokens (w_tabs w1) = []"
    by (simp_all add: toy_tables_def)
  have "\<exists>u. session_for u (after_admin (w_tabs w1))
       (fst (login (new_handler (\<lambda>s. s) toy_kdf (toy_hash ''dummy'') (\<lambda>s. s)) ''r'' carol_body
          (after_admin (w_tabs w1))))"
    using seeded_user_logs_in [OF toy_kdf_length s after_admin_ready(2,1) [OF r] carol_body_decodes(1),
        of "\<lambda>s. s" "toy_hash ''dummy''" "''r''"]
    by (simp add: carol_body_decodes(2)) blast
  with s show ?thesis by blast
qed

section \<open>Unlocking\<close>

lemma unlock_clears:
  assumes "run_unlock pl open_pool env w = (Inr n, w')"
  obtains u now where "find (\<lambda>u. pl (u_username u) = pl (env ''UNLOCK_USERNAME'')) (users (w_tabs w)) = Some u"
    and "n = u_username u" and "w_tabs w' = cleared (u_id u) now (w_tabs w)"
proof -
  obtain u w1 r where s: "exec_stmt (WSelect ''GetUserByUsername'')
      (get_user_by_username pl (env ''UNLOCK_USERNAME'')) w = (Inr u, w1)"
    and e: "exec_stmt (WUpdate ''SetUserLock'') (set_user_lock (u_id u) 0 None) w1 = (Inr r, w')"
    and n: "n = u_username u"
    using assms by (auto simp: run_unlock_def Let_def split: if_splits sum.splits prod.splits)
  obtain now where "get_user_by_username pl (env ''UNLOCK_USERNAME'') now (w_tabs w) = (Inr u, w_tabs w1)"
    using s by (rule exec_stmt_Inr)
  then obtain v where v: "find (\<lambda>u. pl (u_username u) = pl (env ''UNLOCK_USERNAME'')) (users (w_tabs w)) = Some v"
    "u = with_db_now v now" "w_tabs w1 = w_tabs w"
    unfolding get_user_by_username_def one_row_def
    by (cases "find (\<lambda>u. pl (u_username u) = pl (env ''UNLOCK_USERNAME'')) (users (w_tabs w))") simp_all
  obtain t where "set_user_lock (u_id u) 0 None t (w_tabs w1) = (Inr r, w_tabs w')"
    using e by (rule exec_stmt_Inr)
  then have "w_tabs w' = cleared (u_id v) t (w_tabs w)" using v(2,3) by (simp add: cleared_def)
  moreover have "n = u_username v" using n v(2) by simp
  ultimately show thesis using that [OF v(1)] by simp
qed

text \<open>C36: An unlocked user can log in again.  If \<^verbatim>\<open>-unlock\<close> reports success, whatever the database did on
  the way, only the rows of that user were touched, and the next login of this user, if it is
  active and gives its password, is answered with a session, however long the lock was to last.\<close>

theorem unlocked_user_logs_in:
  assumes "run_unlock pl open_pool env w = (Inr n, w1)"
    and "w_tabs v = w_tabs w1" and "ready v" and "decode_login_request b = Some req"
    and "pl (to_lower ul (lr_username req)) = pl (env ''UNLOCK_USERNAME'')"
    and "\<And>u. u \<in> set (users (w_tabs w)) \<Longrightarrow> u_username u = n \<Longrightarrow> u_status u = ''active'' \<and>
      verify_hash kdf (credential_plain (lr_password req)) (u_password_hash u) = Inr True"
  shows "\<exists>u now. u \<in> set (users (w_tabs w)) \<and> u_username u = n \<and>
    w_tabs w1 = cleared (u_id u) now (w_tabs w) \<and>
    session_for u v (fst (login (new_handler pl kdf d ul) rid b v))"
proof -
  obtain u now where
    u: "find (\<lambda>u. pl (u_username u) = pl (env ''UNLOCK_USERNAME'')) (users (w_tabs w)) = Some u"
    "n = u_username u" "w_tabs w1 = cleared (u_id u) now (w_tabs w)"
    by (rule unlock_clears [OF assms(1)])
  from find_SomeD [OF u(1)] have "u \<in> set (users (w_tabs w))" by simp
  with assms(6) u(2) have a: "u_status u = ''active''"
    "verify_hash kdf (credential_plain (lr_password req)) (u_password_hash u) = Inr True" by blast+
  let ?u = "u\<lparr>u_failed_attempts := 0, u_locked_until := None, u_updated_at := now\<rparr>"
  have "find (\<lambda>u. pl (u_username u) = pl (to_lower ul (lr_username req))) (users (w_tabs v)) = Some ?u"
    unfolding assms(2,5) u(3) using u(1) by (simp add: cleared_def set_user_lock_def find_update_where)
  from ready_login [OF assms(3,4) this, of kdf d rid] a
  have "session_for ?u v (fst (login (new_handler pl kdf d ul) rid b v))"
    by (simp add: still_locked_def)
  then have "session_for u v (fst (login (new_handler pl kdf d ul) rid b v))"
    by (simp add: session_for_def)
  with u \<open>u \<in> set (users (w_tabs w))\<close> show ?thesis by blast
qed

lemma toy_unlock_run:
  "\<exists>w1. run_unlock (\<lambda>s. s) (\<lambda>_. Inr ()) admin_env (quiet_world toy_tables 0) = (Inr ''bob'', w1)"
  using admin_config
  by (auto simp: run_unlock_def exec_stmt_def next_fault_quiet get_user_by_username_def one_row_def
      set_user_lock_def toy_tables_def fixture_users Let_def)

theorem unlocked_user_logs_in_witness:
  "\<exists>w1 u. run_unlock (\<lambda>s. s) (\<lambda>_. Inr ()) admin_env (quiet_world toy_tables 0) = (Inr ''bob'', w1) \<and>
     session_for u (after_admin (w_tabs w1)) (fst (login toy_handler ''r'' toy_bob_body (after_admin (w_tabs w1))))"
proof -
  obtain w1 where s: "run_unlock (\<lambda>s. s) (\<lambda>_. Inr ()) admin_env (quiet_world toy_tables 0) = (Inr ''bob'', w1)"
    using toy_unlock_run by blast
  obtain u :: user_row and now where "w_tabs w1 = cleared (u_id u) now (w_tabs (quiet_world toy_tables 0))"
    by (rule unlock_clears [OF s])
  then have r: "access_tokens (w_tabs w1) = []" "refresh_tokens (w_tabs w1) = []"
    by (simp_all add: toy_tables_def)
  have bob: "u_status u = ''active'' \<and> verify_hash toy_kdf (credential_plain (lr_password
      \<lparr>lr_username = ''bob'', lr_password = Credential ''hunter2''\<rparr>)) (u_password_hash u) = Inr True"
    if "u \<in> set (users (w_tabs (quiet_world toy_tables 0)))" and "u_username u = ''bob''" for u
    using that by (auto simp: toy_tables_def fixture_users)
  have name: "to_lower (\<lambda>s. s) (lr_username \<lparr>lr_username = ''bob'', lr_password = Credential ''hunter2''\<rparr>) =
      admin_env ''UNLOCK_USERNAME''"
    by (simp add: toy_lower_bob)
  obtain u where "session_for u (after_admin (w_tabs w1))
      (fst (login toy_handler ''r'' toy_bob_body (after_admin (w_tabs w1))))"
    using unlocked_user_logs_in [where d = "toy_hash ''dummy''" and rid = "''r''",
        OF s after_admin_ready(2,1) [OF r] toy_bob_body_decodes name bob, folded toy_handler_def]
    by blast
  with s show ?thesis by blast
qed

end
