(* ===== verification/CommandLine.thy ===== *)
theory CommandLine
  imports Server SignCommand "HOL-Library.Multiset"
begin

text \<open>
  The command line of \<^verbatim>\<open>cmd/api\<close>: the flags that \<^verbatim>\<open>main\<close> and \<^verbatim>\<open>registerSignActiveFlags\<close> register
  (\<^verbatim>\<open>main.go\<close>, \<^verbatim>\<open>signactive.go\<close>), \<^verbatim>\<open>flag.Parse\<close> on them as the standard library does it, and the choice
  of the mode that follows.
\<close>

section \<open>Values of flags\<close>

text \<open>\<^verbatim>\<open>strconv.ParseBool\<close>.\<close>

definition parse_bool :: "string \<Rightarrow> bool option" where
  "parse_bool s =
     (if s \<in> {''1'', ''t'', ''T'', ''true'', ''TRUE'', ''True''} then Some True
      else if s \<in> {''0'', ''f'', ''F'', ''false'', ''FALSE'', ''False''} then Some False
      else None)"

text \<open>\<^verbatim>\<open>strconv.ParseInt(s, 0, 64)\<close>: an optional sign, a prefix that names the base, digits, and
  underscores between digits (a prefix counts as one).\<close>

definition int_base :: "string \<Rightarrow> nat \<times> string \<times> bool" where
  "int_base s =
     (if s = [] \<or> hd s \<noteq> CHR ''0'' then (10, s, False)
      else if 3 \<le> length s \<and> ascii_lower (s ! 1) = CHR ''b'' then (2, drop 2 s, True)
      else if 3 \<le> length s \<and> ascii_lower (s ! 1) = CHR ''o'' then (8, drop 2 s, True)
      else if 3 \<le> length s \<and> ascii_lower (s ! 1) = CHR ''x'' then (16, drop 2 s, True)
      else (8, tl s, True))"

text \<open>The digits behind the prefix; \<open>seen\<close> says that the character before counts as a digit.\<close>

fun int_digits :: "nat \<Rightarrow> bool \<Rightarrow> string \<Rightarrow> nat \<Rightarrow> nat option" where
  "int_digits b seen [] v = (if seen then Some v else None)"
| "int_digits b seen (c # s) v =
     (if c = CHR ''_'' then (if seen \<and> s \<noteq> [] then int_digits b False s v else None)
      else (case hex_val c of
          None \<Rightarrow> None
        | Some d \<Rightarrow> if d < b then int_digits b True s (b * v + d) else None))"

definition parse_int_any :: "string \<Rightarrow> int option" where
  "parse_int_any s =
     (let neg = (s \<noteq> [] \<and> hd s = CHR ''-'');
          t = (if s \<noteq> [] \<and> (hd s = CHR ''-'' \<or> hd s = CHR ''+'') then tl s else s)
      in if t = [] then None
         else case int_base t of (b, u, seen) \<Rightarrow>
           (case int_digits b seen u 0 of
              None \<Rightarrow> None
            | Some n \<Rightarrow>
                let v = (if neg then - int n else int n)
                in if - (2 ^ 63) \<le> v \<and> v < 2 ^ 63 then Some v else None))"

section \<open>The flags of the program\<close>

datatype flag_kind = BoolFlag | StringFlag | IntFlag

definition command_flags :: "(string \<times> flag_kind) list" where
  "command_flags =
     [(''smoke'', BoolFlag), (''seed'', BoolFlag), (''unlock'', BoolFlag), (''sign-active'', BoolFlag),
      (''version'', StringFlag), (''digest'', StringFlag), (''min-app-version'', StringFlag),
      (''url'', StringFlag), (''v1-signature'', StringFlag), (''timestamp'', IntFlag), (''o'', StringFlag)]"

record options =
  op_smoke :: bool
  op_seed :: bool
  op_unlock :: bool
  op_sign_active :: bool
  op_sign :: sign_flags

definition default_flags :: sign_flags where
  "default_flags =
     \<lparr>sa_version = [], sa_digest = [], sa_min_app_version = [], sa_url = [], sa_v1_signature = [],
      sa_timestamp = 0, sa_out = []\<rparr>"

definition default_options :: options where
  "default_options =
     \<lparr>op_smoke = False, op_seed = False, op_unlock = False, op_sign_active = False,
      op_sign = default_flags\<rparr>"

definition set_bool :: "string \<Rightarrow> bool \<Rightarrow> options \<Rightarrow> options" where
  "set_bool n b o' =
     (if n = ''smoke'' then o'\<lparr>op_smoke := b\<rparr>
      else if n = ''seed'' then o'\<lparr>op_seed := b\<rparr>
      else if n = ''unlock'' then o'\<lparr>op_unlock := b\<rparr>
      else o'\<lparr>op_sign_active := b\<rparr>)"

definition set_string :: "string \<Rightarrow> string \<Rightarrow> sign_flags \<Rightarrow> sign_flags" where
  "set_string n v f =
     (if n = ''version'' then f\<lparr>sa_version := v\<rparr>
      else if n = ''digest'' then f\<lparr>sa_digest := v\<rparr>
      else if n = ''min-app-version'' then f\<lparr>sa_min_app_version := v\<rparr>
      else if n = ''url'' then f\<lparr>sa_url := v\<rparr>
      else if n = ''v1-signature'' then f\<lparr>sa_v1_signature := v\<rparr>
      else f\<lparr>sa_out := v\<rparr>)"

text \<open>\<^verbatim>\<open>Value.Set\<close>; \<^const>\<open>None\<close> is its error.\<close>

definition set_flag :: "flag_kind \<Rightarrow> string \<Rightarrow> string \<Rightarrow> options \<Rightarrow> options option" where
  "set_flag k n v o' =
     (case k of
        BoolFlag \<Rightarrow> map_option (\<lambda>b. set_bool n b o') (parse_bool v)
      | StringFlag \<Rightarrow> Some (o'\<lparr>op_sign := set_string n v (op_sign o')\<rparr>)
      | IntFlag \<Rightarrow> map_option (\<lambda>i. o'\<lparr>op_sign := (op_sign o')\<lparr>sa_timestamp := i\<rparr>\<rparr>) (parse_int_any v))"

section \<open>Parsing\<close>

datatype flag_error =
    HelpAsked
  | BadFlagSyntax string
  | NotDefined string
  | NeedsArgument string
  | InvalidValue string string

text \<open>The name and the value behind the first equals sign.\<close>

definition split_value :: "string \<Rightarrow> string \<times> string option" where
  "split_value s =
     (let n = takeWhile (\<lambda>c. c \<noteq> CHR ''='') s; r = drop (length n) s
      in (n, if r = [] then None else Some (tl r)))"

text \<open>Parsing stops at the first argument that is no flag, and behind \<^verbatim>\<open>--\<close>; what is left is never
  looked at.\<close>

fun parse_flags :: "string list \<Rightarrow> options \<Rightarrow> flag_error + options \<times> string list" where
  "parse_flags [] o' = Inr (o', [])"
| "parse_flags (s # args) o' =
     (if length s < 2 \<or> hd s \<noteq> CHR ''-'' then Inr (o', s # args)
      else if s = ''--'' then Inr (o', args)
      else
        let name = (if s ! 1 = CHR ''-'' then drop 2 s else drop 1 s) in
        if name = [] \<or> hd name = CHR ''-'' \<or> hd name = CHR ''='' then Inl (BadFlagSyntax s)
        else (case split_value name of (n, value) \<Rightarrow>
          (case map_of command_flags n of
             None \<Rightarrow> Inl (if n = ''help'' \<or> n = ''h'' then HelpAsked else NotDefined n)
           | Some k \<Rightarrow>
               (case (if k = BoolFlag \<and> value = None then Some ''true'' else value) of
                  Some v \<Rightarrow>
                    (case set_flag k n v o' of
                       None \<Rightarrow> Inl (InvalidValue n v)
                     | Some o1 \<Rightarrow> parse_flags args o1)
                | None \<Rightarrow>
                    (case args of
                       [] \<Rightarrow> Inl (NeedsArgument n)
                     | v # args' \<Rightarrow>
                         (case set_flag k n v o' of
                            None \<Rightarrow> Inl (InvalidValue n v)
                          | Some o1 \<Rightarrow> parse_flags args' o1))))))"

text \<open>\<^verbatim>\<open>main\<close> up to the choice of what runs; an error of \<^verbatim>\<open>flag.Parse\<close> ends the process.\<close>

definition command_line :: "string list \<Rightarrow> flag_error + mode \<times> sign_flags" where
  "command_line args =
     map_sum id (\<lambda>(o', _). (select_mode (op_smoke o') (op_seed o') (op_unlock o') (op_sign_active o'), op_sign o'))
       (parse_flags args default_options)"

section \<open>Numbers\<close>

lemma hex_digit: "GoFmt.is_digit c \<Longrightarrow> hex_val c = Some (ord c - 48) \<and> ord c - 48 < 10 \<and> c \<noteq> CHR ''_''"
  by (auto simp: hex_val_def GoFmt.is_digit_def)

lemma int_digits_decimal:
  "list_all GoFmt.is_digit s \<Longrightarrow> s \<noteq> [] \<or> seen \<Longrightarrow>
     int_digits 10 seen s v = Some (foldl (\<lambda>a c. 10 * a + (ord c - 48)) v s)"
  by (induction s arbitrary: v seen) (auto simp: hex_digit)

lemma itoa_hd_zero: "hd (itoa n) = CHR ''0'' \<Longrightarrow> n = 0"
proof (induction n rule: itoa.induct)
  case (1 n)
  show ?case
  proof (cases "n < 10")
    case True
    with 1(2) have "chr (48 + n) = CHR ''0''" by (simp add: itoa.simps)
    with True show ?thesis by (simp add: chr_eq_iff)
  next
    case False
    with 1(2) have "hd (itoa (n div 10)) = CHR ''0''"
      by (subst (asm) itoa.simps) simp
    with 1(1) False show ?thesis by simp
  qed
qed

lemma parse_unsigned: "int_digits b u t 0 = Some n" if "int_base (itoa n) = (b, t, u)"
proof (cases "n = 0")
  case True
  moreover have "chr 48 = CHR ''0''" by code_simp
  ultimately show ?thesis using that by (simp add: itoa.simps [of 0] int_base_def)
next
  case False
  with itoa_hd_zero have "int_base (itoa n) = (10, itoa n, False)" by (auto simp: int_base_def)
  with that have "b = 10" "t = itoa n" "\<not> u" by auto
  then show ?thesis
    using int_digits_decimal [OF itoa_digits, of n False 0] parse_itoa [of n] by (simp add: parse_nat_def)
qed

lemma parse_int_unsigned:
  "parse_int_any (itoa n) = (if int n < 2 ^ 63 then Some (int n) else None)"
  "parse_int_any (CHR ''-'' # itoa n) = (if int n \<le> 2 ^ 63 then Some (- int n) else None)"
proof -
  obtain c t where c: "itoa n = c # t" "GoFmt.is_digit c" by (rule itoa_Cons)
  then have "c \<noteq> CHR ''-''" "c \<noteq> CHR ''+''" by (auto simp: GoFmt.is_digit_def)
  note c = c(1) this
  obtain b u seen where b: "int_base (itoa n) = (b, u, seen)" by (metis prod_cases3)
  note d = parse_unsigned [OF b]
  show "parse_int_any (itoa n) = (if int n < 2 ^ 63 then Some (int n) else None)"
    using c b d by (simp add: parse_int_any_def)
  show "parse_int_any (CHR ''-'' # itoa n) = (if int n \<le> 2 ^ 63 then Some (- int n) else None)"
    using c b d by (simp add: parse_int_any_def)
qed

lemma parse_int_itoa:
  assumes "- (2 ^ 63) \<le> i" and "i < 2 ^ 63"
  shows "parse_int_any (itoa_int i) = Some i"
  using assms by (simp add: itoa_int_def parse_int_unsigned)

section \<open>What is written can be read\<close>

text \<open>The ways to spell a flag with a value.\<close>

definition spell :: "bool \<Rightarrow> bool \<Rightarrow> string \<Rightarrow> string \<Rightarrow> string list" where
  "spell two joined n v =
     (let p = (if two then ''--'' else ''-'') @ n in if joined then [p @ ''='' @ v] else [p, v])"

definition flag_values :: "sign_flags \<Rightarrow> (string \<times> string) list" where
  "flag_values f =
     [(''version'', sa_version f), (''digest'', sa_digest f), (''min-app-version'', sa_min_app_version f),
      (''url'', sa_url f), (''v1-signature'', sa_v1_signature f), (''timestamp'', itoa_int (sa_timestamp f)),
      (''o'', sa_out f)]"

lemma split_equals: "CHR ''='' \<notin> set n \<Longrightarrow> split_value (n @ CHR ''='' # v) = (n, Some v)"
proof -
  assume a: "CHR ''='' \<notin> set n"
  then have "takeWhile (\<lambda>c. c \<noteq> CHR ''='') (n @ CHR ''='' # v) = n"
    by (subst takeWhile_append2) auto
  then show ?thesis by (simp add: split_value_def)
qed

lemma split_bare: "CHR ''='' \<notin> set n \<Longrightarrow> split_value n = (n, None)"
proof -
  assume "CHR ''='' \<notin> set n"
  then have "\<forall>c \<in> set n. c \<noteq> CHR ''=''" by auto
  then have tw: "takeWhile (\<lambda>c. c \<noteq> CHR ''='') n = n" by (simp only: takeWhile_eq_all_conv)
  show ?thesis unfolding split_value_def Let_def tw by simp
qed

lemma parse_spelled:
  assumes "map_of command_flags n = Some k" and "k \<noteq> BoolFlag" and "CHR ''='' \<notin> set n"
    and "n = c # n'" and "c \<noteq> CHR ''-''"
  shows "parse_flags (spell two joined n v @ args) o' =
    (case set_flag k n v o' of None \<Rightarrow> Inl (InvalidValue n v) | Some o1 \<Rightarrow> parse_flags args o1)"
proof -
  have c: "c \<noteq> CHR ''=''" using assms(3,4) by auto
  note sp = split_equals [OF assms(3), of v] split_bare [OF assms(3)]
  have j: "parse_flags ((p @ n @ CHR ''='' # v) # args) o' =
      (case set_flag k n v o' of None \<Rightarrow> Inl (InvalidValue n v) | Some o1 \<Rightarrow> parse_flags args o1)"
    and b: "parse_flags ((p @ n) # v # args) o' =
      (case set_flag k n v o' of None \<Rightarrow> Inl (InvalidValue n v) | Some o1 \<Rightarrow> parse_flags args o1)"
    if "p = ''-'' \<or> p = ''--''" for p
    using that assms(1,2,5) c sp unfolding assms(4) by (auto simp: Let_def)
  show ?thesis
    using j [of "''-''"] j [of "''--''"] b [of "''-''"] b [of "''--''"]
    by (cases two; cases joined) (simp_all add: spell_def Let_def)
qed

lemma parse_sign_active: "parse_flags (''-sign-active'' # args) o' = parse_flags args (o'\<lparr>op_sign_active := True\<rparr>)"
proof -
  have "split_value ''sign-active'' = (''sign-active'', None)" by (rule split_bare) simp
  then show ?thesis by (simp add: command_flags_def set_flag_def parse_bool_def set_bool_def Let_def)
qed

declare parse_flags.simps [simp del]

definition assign :: "string \<times> string \<Rightarrow> options \<Rightarrow> options" where
  "assign nv o' =
     (if fst nv = ''timestamp'' then o'\<lparr>op_sign := (op_sign o')\<lparr>sa_timestamp := the (parse_int_any (snd nv))\<rparr>\<rparr>
      else o'\<lparr>op_sign := set_string (fst nv) (snd nv) (op_sign o')\<rparr>)"

lemma flag_names:
  assumes "nv \<in> set (flag_values f)" and "- (2 ^ 63) \<le> sa_timestamp f" and "sa_timestamp f < 2 ^ 63"
  shows "parse_flags (spell two joined (fst nv) (snd nv) @ args) o' = parse_flags args (assign nv o')"
proof -
  have n: "\<exists>k. map_of command_flags (fst nv) = Some k \<and> k \<noteq> BoolFlag \<and>
      set_flag k (fst nv) (snd nv) o' = Some (assign nv o')"
    using assms(1) parse_int_itoa [OF assms(2,3)] unfolding flag_values_def set_simps
    by (elim insertE emptyE; simp add: command_flags_def set_flag_def assign_def)
  have c: "CHR ''='' \<notin> set (fst nv) \<and> (\<exists>c n'. fst nv = c # n' \<and> c \<noteq> CHR ''-'')"
    using assms(1) by (auto simp: flag_values_def)
  from n obtain k where k: "map_of command_flags (fst nv) = Some k" "k \<noteq> BoolFlag"
    "set_flag k (fst nv) (snd nv) o' = Some (assign nv o')" by blast
  from c obtain c n' where c: "CHR ''='' \<notin> set (fst nv)" "fst nv = c # n'" "c \<noteq> CHR ''-''" by blast
  show ?thesis using parse_spelled [OF k(1,2) c] k(3) by simp
qed

lemma parse_spelled_all:
  assumes "- (2 ^ 63) \<le> sa_timestamp f" and "sa_timestamp f < 2 ^ 63" and "set nvs \<subseteq> set (flag_values f)"
  shows "parse_flags (concat (map (\<lambda>(n, v). spell (two n) (joined n) n v) nvs) @ args) o' =
    parse_flags args (fold assign nvs o')"
  using assms(3)
proof (induction nvs arbitrary: o')
  case (Cons nv nvs)
  obtain n v where nv: "nv = (n, v)" by (cases nv)
  with Cons.prems flag_names [OF _ assms(1,2), of nv "two n" "joined n"] Cons.IH show ?case by simp
qed simp

lemma assign_commute:
  assumes "nv \<in> set (flag_values f)" and "nv' \<in> set (flag_values f)"
  shows "assign nv \<circ> assign nv' = assign nv' \<circ> assign nv"
  using assms unfolding flag_values_def set_simps
  by (elim insertE emptyE; simp add: fun_eq_iff assign_def set_string_def)

lemma assign_all:
  assumes "- (2 ^ 63) \<le> sa_timestamp f" and "sa_timestamp f < 2 ^ 63"
  shows "fold assign (flag_values f) o' = o'\<lparr>op_sign := f\<rparr>"
  using assms by (simp add: flag_values_def assign_def set_string_def parse_int_itoa)

text \<open>C40: the operator's flags arrive as typed.  Written in any order, each with one or two dashes, behind
  an equals sign or as an argument of its own (also when it begins with a dash or is empty), the seven
  values of a signing run are read back exactly, the time stamp over the whole range of \<^verbatim>\<open>int64\<close>, and
  the signing command is what runs.\<close>

theorem command_line_roundtrip:
  assumes "mset nvs = mset (flag_values f)" and "- (2 ^ 63) \<le> sa_timestamp f" and "sa_timestamp f < 2 ^ 63"
  shows "command_line (''-sign-active'' # concat (map (\<lambda>(n, v). spell (two n) (joined n) n v) nvs)) =
    Inr (SignActiveMode, f)"
proof -
  have s: "set nvs \<subseteq> set (flag_values f)" using mset_eq_setD [OF assms(1)] by simp
  have "fold assign nvs = fold assign (flag_values f)"
    by (rule fold_multiset_equiv) (use assms(1) s assign_commute in \<open>blast+\<close>)
  with assign_all [OF assms(2,3)] parse_spelled_all [OF assms(2,3) s, of two joined "[]"] show ?thesis
    by (simp add: command_line_def parse_sign_active default_options_def select_mode_def parse_flags.simps(1))
qed

theorem command_line_roundtrip_witness:
  "command_line [''-sign-active'', ''-o'', ''-'', ''--version=1.4.0'', ''-digest'', ''sha256:ab'',
      ''-min-app-version'', ''1.0.0'', ''-url=https://x?a=b'', ''-v1-signature'', [], ''--timestamp=-7''] =
     Inr (SignActiveMode,
       \<lparr>sa_version = ''1.4.0'', sa_digest = ''sha256:ab'', sa_min_app_version = ''1.0.0'',
        sa_url = ''https://x?a=b'', sa_v1_signature = [], sa_timestamp = - 7, sa_out = ''-''\<rparr>)"
proof -
  define f where "f = \<lparr>sa_version = ''1.4.0'', sa_digest = ''sha256:ab'', sa_min_app_version = ''1.0.0'',
        sa_url = ''https://x?a=b'', sa_v1_signature = [], sa_timestamp = - 7, sa_out = ''-''\<rparr>"
  let ?nvs = "(''o'', ''-'') # take 6 (flag_values f)"
  have m: "mset ?nvs = mset (flag_values f)" by (simp add: flag_values_def f_def)
  have seven: "itoa_int (- 7) = ''-7''" by code_simp
  show ?thesis
    using command_line_roundtrip [OF m, of "\<lambda>n. n \<in> {''version'', ''timestamp''}"
        "\<lambda>n. n \<in> {''version'', ''url'', ''timestamp''}"]
    by (simp add: f_def flag_values_def spell_def seven)
qed

text \<open>Flags that are all read leave the rest of the line to be read in the state they produced; an operand
  ends the flags: whatever comes behind it is ignored, also when it looks like a flag.\<close>

lemma parse_flags_append:
  assumes "parse_flags args o' = Inr (o1, [])" and "''--'' \<notin> set args"
  shows "parse_flags (args @ rest) o' = parse_flags rest o1"
  using assms
proof (induction args o' rule: parse_flags.induct)
  case (1 o')
  then show ?case by (simp add: parse_flags.simps)
next
  case (2 s args o')
  define name where "name = (if s ! 1 = CHR ''-'' then drop 2 s else drop 1 s)"
  obtain n val where sv: "split_value name = (n, val)" by (cases "split_value name")
  define arg where "arg k = (if k = BoolFlag \<and> val = None then Some ''true'' else val)" for k
  have g: "\<not> (length s < 2 \<or> hd s \<noteq> CHR ''-'')" "s \<noteq> ''--''"
    "\<not> (name = [] \<or> hd name = CHR ''-'' \<or> hd name = CHR ''='')"
    using 2(3,4) by (auto simp: parse_flags.simps name_def Let_def split: if_splits)
  note step = parse_flags.simps(2) [of s, unfolded Let_def, folded name_def, unfolded sv prod.case, folded arg_def]
  obtain k where k: "map_of command_flags n = Some k"
    using 2(3) g by (auto simp: step split: option.splits)
  show ?case
  proof (cases "arg k")
    case (Some v)
    with 2(3) g k obtain o2 where o2: "set_flag k n v o' = Some o2" "parse_flags args o2 = Inr (o1, [])"
      by (auto simp: step split: option.splits)
    have "parse_flags (args @ rest) o2 = parse_flags rest o1"
      by (rule 2(2) [OF g(1,2) name_def g(3) sv [symmetric] k Some [unfolded arg_def] o2])
        (use 2(4) in auto)
    with g k Some o2 show ?thesis by (simp add: step)
  next
    case None
    with 2(3) g k obtain v args' where a: "args = v # args'" by (auto simp: step split: list.splits)
    with None 2(3) g k obtain o2 where o2: "set_flag k n v o' = Some o2" "parse_flags args' o2 = Inr (o1, [])"
      by (auto simp: step split: option.splits)
    have "parse_flags (args' @ rest) o2 = parse_flags rest o1"
      by (rule 2(1) [OF g(1,2) name_def g(3) sv [symmetric] k None [unfolded arg_def] a o2])
        (use 2(4) a in auto)
    with g k None a o2 show ?thesis by (simp add: step)
  qed
qed

lemma operand_ends_flags:
  assumes "parse_flags args o' = Inr (o1, [])" and "''--'' \<notin> set args"
    and "length a < 2 \<or> hd a \<noteq> CHR ''-''"
  shows "parse_flags (args @ a # rest) o' = Inr (o1, a # rest)"
  using parse_flags_append [OF assms(1,2)] assms(3) by (simp add: parse_flags.simps)

end
