(* ===== verification/Listener.thy ===== *)
theory Listener
  imports Server RetrySpec
begin

text \<open>
  The \<^verbatim>\<open>http.Server\<close> that \<^verbatim>\<open>run\<close> of \<^verbatim>\<open>cmd/api/main.go\<close> builds, and what its write timeout leaves of the
  retry budget of \<^verbatim>\<open>internal/platform/db/retry.go\<close>.
\<close>

record http_server =
  sv_addr :: string
  sv_handler :: "request \<Rightarrow> world \<Rightarrow> outcome \<times> recorder \<times> world"
  sv_read_header_timeout :: duration
  sv_read_timeout :: duration
  sv_write_timeout :: duration
  sv_idle_timeout :: duration

definition listener :: "app \<Rightarrow> config \<Rightarrow> http_server" where
  "listener a cfg =
     \<lparr>sv_addr = '':'' @ cf_port cfg, sv_handler = serve_app a cfg,
      sv_read_header_timeout = 5 * second, sv_read_timeout = 15 * second,
      sv_write_timeout = 15 * second, sv_idle_timeout = 60 * second\<rparr>"

text \<open>Every timeout is set, so no slow client holds a connection for ever, and the header's is the
  shortest.\<close>

lemma listener_timeouts:
  "0 < sv_read_header_timeout (listener a cfg)"
  "sv_read_header_timeout (listener a cfg) \<le> sv_read_timeout (listener a cfg)"
  "0 < sv_write_timeout (listener a cfg)" "0 < sv_idle_timeout (listener a cfg)"
  by (simp_all add: listener_def duration_defs)

text \<open>The headroom the comments of \<^verbatim>\<open>retry.go\<close> compute: a request whose first call of the pool comes at
  \<open>now\<close> gets its result 5 s before the write timeout would cut it off, less what pgx takes to notice
  a context that is done.\<close>

lemma one_call_leaves_headroom:
  assumes "pool_call safe rt op f zero ctx now w = ((r, err), ctx', c')" and "honours g f" and "0 \<le> g"
  shows "clock c' + (5 * second - g) \<le> now + sv_write_timeout (listener a cfg)"
  using pool_call_time [OF assms] by (simp add: listener_def duration_defs)

text \<open>The budget is that of one call, and a request makes several: a login looks the user up and then
  writes, each through the pool.  When the database takes 8 s for each, both calls succeed within their
  budgets, and the write timeout has passed before the handler can answer.\<close>

definition drowsy :: "(string option, nat) pgx_op" where
  "drowsy ctx t n = ((Some ''row'', None), Suc n, t + 8 * second)"

lemma two_calls_leave_none:
  "\<exists>r1 ctx1 c1 r2 ctx2 c2.
     pool_call unsafe exact_runtime ''query'' drowsy None background 0 0 = ((Some r1, None), ctx1, c1) \<and>
     pool_call unsafe exact_runtime ''query'' drowsy None background (clock c1) (remote c1) =
       ((Some r2, None), ctx2, c2) \<and>
     clock c1 < 0 + total_budget \<and> clock c2 < clock c1 + total_budget \<and>
     0 + sv_write_timeout (listener a cfg) < clock c2"
  by (simp add: pool_call_def retry_def retry_loop.simps run_op_def drowsy_def with_timeout_def
      listener_def toy_retry_defs Let_def)

end
