(* ===== verification/Schema.thy ===== *)
theory Schema
  imports AuthSystem AdminSpec ServerSpec Lockout
begin

text \<open>
  The constraints of \<^verbatim>\<open>db/migrations\<close> (keys, unique indexes, foreign keys, \<^verbatim>\<open>NOT NULL\<close>, column widths) as a
  predicate on the tables, and the interface \<open>table_invariant\<close> between the statements and everything that
  runs them: what every writing statement of the program keeps, every request through the whole server
  and every command keeps, whatever fails on the way.
\<close>

section \<open>The constraints\<close>

text \<open>\<^verbatim>\<open>00002_auth.sql\<close>; \<open>pl\<close> is PostgreSQL's \<^verbatim>\<open>lower\<close>, and columns that are \<^verbatim>\<open>NOT NULL\<close> without an option type
  need no condition.\<close>

definition users_schema :: "(string \<Rightarrow> string) \<Rightarrow> tables \<Rightarrow> bool" where
  "users_schema pl t \<longleftrightarrow>
     distinct (map u_id (users t)) \<and> distinct (map (\<lambda>u. pl (u_username u)) (users t)) \<and>
     list_all (\<lambda>u. - max_int4 - 1 \<le> u_failed_attempts u \<and> u_failed_attempts u \<le> max_int4) (users t)"

definition refresh_tokens_schema :: "tables \<Rightarrow> bool" where
  "refresh_tokens_schema t \<longleftrightarrow>
     distinct (map rt_id (refresh_tokens t)) \<and> distinct (map rt_selector (refresh_tokens t)) \<and>
     list_all (\<lambda>r. rt_user_id r \<in> u_id ` set (users t) \<and> rt_expires_at r \<noteq> None) (refresh_tokens t)"

definition access_tokens_schema :: "tables \<Rightarrow> bool" where
  "access_tokens_schema t \<longleftrightarrow>
     distinct (map at_id (access_tokens t)) \<and> distinct (map at_token_hash (access_tokens t)) \<and>
     list_all (\<lambda>a. at_user_id a \<in> u_id ` set (users t) \<and> at_expires_at a \<noteq> None) (access_tokens t)"

text \<open>\<^verbatim>\<open>00003_events.sql\<close>.\<close>

definition events_schema :: "tables \<Rightarrow> bool" where
  "events_schema t \<longleftrightarrow> distinct (map event_key (events t))"

definition schema_ok :: "(string \<Rightarrow> string) \<Rightarrow> tables \<Rightarrow> bool" where
  "schema_ok pl t \<longleftrightarrow>
     users_schema pl t \<and> refresh_tokens_schema t \<and> access_tokens_schema t \<and> events_schema t"

section \<open>What keeps a predicate on the tables\<close>

definition keeps :: "(tables \<Rightarrow> bool) \<Rightarrow> 'a stmt \<Rightarrow> bool" where
  "keeps P st \<longleftrightarrow> (\<forall>now t. P t \<longrightarrow> P (snd (st now t)))"

lemma keeps_read_only: "read_only st \<Longrightarrow> keeps P st"
  by (simp add: keeps_def read_only_def)

lemma exec_keeps:
  assumes "exec_stmt k st w = (r, w')" and "keeps P st" and "P (w_tabs w)"
  shows "P (w_tabs w')"
  using exec_stmt_pred [OF assms(1), where P = "\<lambda>t t'. P t'"] assms(2,3) by (simp add: keeps_def)

lemma tx_exec_keeps:
  assumes "tx_exec k st x w = (r, x', w')" and "keeps P st" and "P (tx_tabs x)"
  shows "P (tx_tabs x') \<and> w_tabs w' = w_tabs w"
proof -
  have f: "w_tabs w' = w_tabs w" using tx_exec_frame [OF assms(1)] by blast
  show ?thesis
  proof (cases r)
    case (Inl e)
    with tx_exec_Inl [OF assms(1) [unfolded Inl]] assms(3) f show ?thesis by simp
  next
    case (Inr a)
    from tx_exec_Inr [OF assms(1) [unfolded Inr]]
    have "tx_tabs x' = snd (st (tx_now x) (tx_tabs x))" by simp
    with assms(2,3) f show ?thesis by (simp add: keeps_def)
  qed
qed

lemma tx_commit_keeps:
  "tx_commit x w = (r, w') \<Longrightarrow> P (tx_tabs x) \<Longrightarrow> P (w_tabs w) \<Longrightarrow> P (w_tabs w')"
  by (cases r) (auto dest!: tx_commit_Inl tx_commit_Inr)

text \<open>What is minted, is of the right shape, and minting touches no table.\<close>

lemma mint_D:
  "new_access_token w = (Inl e, w') \<Longrightarrow> w_tabs w' = w_tabs w"
  "new_access_token w = (Inr a, w') \<Longrightarrow> w_tabs w' = w_tabs w \<and> (\<exists>raw. a = access_of raw)"
  "new_refresh_token w = (Inl e, w') \<Longrightarrow> w_tabs w' = w_tabs w"
  "new_refresh_token w = (Inr r, w') \<Longrightarrow> w_tabs w' = w_tabs w \<and> (\<exists>sel ver. r = refresh_of sel ver)"
  "new_token_family w = (f, w') \<Longrightarrow> w_tabs w' = w_tabs w"
  using mint_same [of w _ w', unfolded same_but_rand_def] new_access_token_Inr [of w a w']
    new_refresh_token_Inr [of w r w']
  by metis+

section \<open>The interface\<close>

text \<open>A row of a batch, as the handler builds it.\<close>

definition row_built :: "insert_event_params \<Rightarrow> bool" where
  "row_built c \<longleftrightarrow> (\<exists>raw rows. build_rows raw = Some rows \<and> c \<in> set rows)"

text \<open>The laws are about the statements with the arguments the program gives them: a hash that \<open>hash_ok\<close>
  holds of, the threshold of the lockout, the rows of a minted session, the rows built of a batch.  Only
  with such arguments do the statements keep what the database does not enforce.\<close>

locale table_invariant =
  fixes P :: "tables \<Rightarrow> bool" and pl :: "string \<Rightarrow> string" and refuses :: "insert_event_params \<Rightarrow> gerr option"
    and hash_ok :: "string \<Rightarrow> bool"
  assumes create_keeps: "hash_ok hash \<Longrightarrow> keeps P (create_user pl i name hash)"
    and failure_keeps: "keeps P (record_login_failure i lockout_threshold d)"
    and reset_keeps: "keeps P (set_user_lock i 0 None)"
    and touch_keeps: "keeps P (touch_user_timing i)"
    and access_keeps: "minted_rows rows \<Longrightarrow> keeps P (insert_access_token i (sr_access rows))"
    and token_keeps: "minted_rows rows \<Longrightarrow> keeps P (insert_refresh_token i (sr_refresh rows))"
    and mark_keeps: "keeps P (mark_refresh_token_used i)"
    and revoke_keeps: "keeps P (revoke_token_family i)"
    and event_keeps: "row_built c \<Longrightarrow> keeps P (insert_event refuses c)"
begin

text \<open>Inside a transaction, statement by statement.\<close>

lemmas in_tx = tx_exec_keeps [where P = P, OF _ keeps_read_only]
  tx_exec_keeps [where P = P, OF _ access_keeps] tx_exec_keeps [where P = P, OF _ token_keeps]
  tx_exec_keeps [where P = P, OF _ mark_keeps] tx_exec_keeps [where P = P, OF _ revoke_keeps]
  tx_exec_keeps [where P = P, OF _ event_keeps]

lemmas at_commit = tx_commit_keeps [where P = P]

lemma store_keeps:
  "db_user_by_username pl name w = (r1, w') \<Longrightarrow> P (w_tabs w) \<Longrightarrow> P (w_tabs w')"
  "db_record_login_failure i lockout_threshold d w = (r2, w') \<Longrightarrow> P (w_tabs w) \<Longrightarrow> P (w_tabs w')"
  "db_reset_login_failures i w = (r3, w') \<Longrightarrow> P (w_tabs w) \<Longrightarrow> P (w_tabs w')"
  "db_touch_user_timing i w = (r3, w') \<Longrightarrow> P (w_tabs w) \<Longrightarrow> P (w_tabs w')"
  unfolding db_user_by_username_def db_record_login_failure_def db_reset_login_failures_def
    db_touch_user_timing_def
  by (erule exec_keeps; simp add: keeps_read_only failure_keeps reset_keeps touch_keeps)+

lemma inserts_keep:
  "q_insert_access_token (sr_access rows) x w = (r1, x', w') \<Longrightarrow> minted_rows rows \<Longrightarrow> P (tx_tabs x) \<Longrightarrow>
     P (tx_tabs x') \<and> w_tabs w' = w_tabs w"
  "q_insert_refresh_token (sr_refresh rows) x w = (r2, x', w') \<Longrightarrow> minted_rows rows \<Longrightarrow> P (tx_tabs x) \<Longrightarrow>
     P (tx_tabs x') \<and> w_tabs w' = w_tabs w"
  by (auto simp: q_insert_access_token_def q_insert_refresh_token_def Let_def split: prod.splits
      dest!: next_id_D in_tx(2,3))

lemma begin_keeps: "tx_begin w = (Inr x, w') \<Longrightarrow> P (w_tabs w) \<Longrightarrow> P (tx_tabs x) \<and> w_tabs w' = w_tabs w"
  using tx_begin_Inr tx_begin_frame by metis

lemma begin_fails: "tx_begin w = (Inl e, w') \<Longrightarrow> w_tabs w' = w_tabs w"
  using tx_begin_frame by blast

lemma persist_keeps:
  assumes "db_persist_session rows w = (r, w')" and "minted_rows rows" and "P (w_tabs w)"
  shows "P (w_tabs w')"
  using assms
  by (auto simp: db_persist_session_def split: prod.splits sum.splits
      dest!: begin_keeps begin_fails inserts_keep intro: at_commit)

subsection \<open>Login and the Bearer check\<close>

lemma check_keeps:
  assumes "check_user (new_handler pl kdf d ul) rid u pw w = (r, w')" and "P (w_tabs w)"
  shows "P (w_tabs w')"
  using assms
  by (auto simp: check_user_def new_handler_def db_store_def touch_and_reject_def count_and_reject_def
      log_account_locked_def verify_run_frame split: if_splits prod.splits sum.splits
      dest!: verify_run_frame(1) dest: store_keeps(2-4))

lemma verify_keeps:
  assumes "verify_credentials (new_handler pl kdf d ul) rid n c w = (r, w')" and "P (w_tabs w)"
  shows "P (w_tabs w')"
  using assms
  by (auto simp: verify_credentials_def new_handler_def [unfolded db_store_def] touch_and_reject_def
      verify_run_frame split: if_splits prod.splits sum.splits
      dest!: store_keeps(1) dest: store_keeps(4) check_keeps [unfolded new_handler_def db_store_def])

lemma issue_keeps:
  assumes "issue_session (new_handler pl kdf d ul) i w = (r, w')" and "P (w_tabs w)"
  shows "P (w_tabs w')"
  using assms
  by (auto simp: issue_session_def new_handler_def db_store_def split: prod.splits sum.splits
      dest!: mint_D dest: persist_keeps intro: minted_rows_for)

lemma login_keeps:
  assumes "login (new_handler pl kdf d ul) rid b w = (rsp, w')" and "P (w_tabs w)"
  shows "P (w_tabs w')"
proof -
  have l: "h_limiter (new_handler pl kdf d ul) = noop_rate_limiter" by (simp add: new_handler_def)
  from assms show ?thesis
    by (auto simp: login_def l noop_rate_limiter_def split: option.splits if_splits prod.splits sum.splits
        dest!: verify_keeps issue_keeps)
qed

lemma bearer_keeps: "authenticate authz w = (r, w') \<Longrightarrow> P (w_tabs w) \<Longrightarrow> P (w_tabs w')"
  using authenticate_tabs by simp

subsection \<open>Refresh\<close>

lemma mint_keeps:
  assumes "rotate_mint row now x w = (r, w')" and "P (tx_tabs x)" and "P (w_tabs w)"
  shows "P (w_tabs w')"
  using assms
  by (auto simp: rotate_mint_def fail_def rotation_rows_def split: prod.splits sum.splits
      dest!: in_tx(4) mint_D inserts_keep [OF _ minted_rows_for] dest: at_commit)

lemma family_keeps:
  assumes "revoke_family row x w = (r, w')" and "P (tx_tabs x)" and "P (w_tabs w)"
  shows "P (w_tabs w')"
  using assms
  by (auto simp: revoke_family_def fail_def split: prod.splits sum.splits
      dest!: in_tx(5) dest: at_commit)

lemma row_keeps:
  assumes "rotate_row row v x w = (r, w')" and "P (tx_tabs x)" and "P (w_tabs w)"
  shows "P (w_tabs w')"
  using assms
  by (auto simp: rotate_row_def rotate_unused_def reject_def fail_def
      split: option.splits if_splits prod.splits sum.splits
      dest!: in_tx(1) [OF _ read_only_queries(2)] dest: mint_keeps family_keeps)

lemma rotate_keeps:
  assumes "rotate_refresh s v w = (r, w')" and "P (w_tabs w)"
  shows "P (w_tabs w')"
  using assms
  by (auto simp: rotate_refresh_def reject_def fail_def split: prod.splits sum.splits if_splits
      dest!: begin_keeps begin_fails
        in_tx(1) [OF _ read_only_queries(3)]
        in_tx(1) [OF _ read_only_queries(4)]
        in_tx(1) [OF _ read_only_queries(5)] dest: row_keeps)

lemma refresh_keeps:
  assumes "refresh rid b w = (rsp, w')" and "P (w_tabs w)"
  shows "P (w_tabs w')"
  using assms
  by (auto simp: refresh_def split: option.splits prod.splits if_splits sum.splits dest!: rotate_keeps)

subsection \<open>Ingestion\<close>

lemma rows_keep:
  "insert_rows refuses as n x w = (r, x', w') \<Longrightarrow> list_all row_built as \<Longrightarrow> P (tx_tabs x) \<Longrightarrow>
     P (tx_tabs x') \<and> w_tabs w' = w_tabs w"
proof (induction as arbitrary: n x w)
  case (Cons a as)
  from Cons.prems show ?case
    by (auto split: prod.splits sum.splits dest!: in_tx(6) Cons.IH)
qed simp

lemma batch_keeps:
  assumes "db_insert_batch refuses as w = (r, w')" and "list_all row_built as" and "P (w_tabs w)"
  shows "P (w_tabs w')"
  using assms
  by (auto simp: db_insert_batch_def split: prod.splits sum.splits
      dest!: begin_keeps begin_fails rows_keep dest: at_commit)

lemma ingest_keeps:
  assumes "ingest lib (new_obs_handler refuses) path rid b w = (rsp, w')" and "P (w_tabs w)"
  shows "P (w_tabs w')"
proof -
  have built: "list_all row_built rows" if "ingest_screen lib rid b = Inr rows" for rows
    using screen_Inr [OF that] by (auto simp: row_built_def list_all_iff)
  from assms show ?thesis
    by (auto simp: ingest_def new_obs_handler_def db_event_store_def obs_noop_rate_limiter_def Let_def
        split: prod.splits sum.splits dest!: built dest: batch_keeps)
qed

subsection \<open>The whole server and the commands\<close>

lemma mux_keeps:
  assumes "app_mux a cfg c hs rq w = (ops, out, w')"
    and "app_auth a = new_handler pl kdf d ul" and "app_obs a = new_obs_handler refuses" and "P (w_tabs w)"
  shows "P (w_tabs w')"
proof -
  have m: "P (w_tabs w')" if "module_handler f c hs rq w = (ops, out, w')"
    and "\<And>rid b rsp. f rid b w = (rsp, w') \<Longrightarrow> P (w_tabs w')" for f
    using that by (auto simp: module_handler_def split: prod.splits)
  have login: "P (w_tabs w')" if "module_handler (login (app_auth a)) c hs rq w = (ops, out, w')"
    using m [OF that] login_keeps assms(2,4) by metis
  have refr: "P (w_tabs w')" if "module_handler refresh c hs rq w = (ops, out, w')"
    using m [OF that] refresh_keeps assms(4) by metis
  have ing: "P (w_tabs w')" if "ingest_handler (app_lib a) (app_obs a) c hs rq w = (ops, out, w')"
    using m [OF that [unfolded ingest_handler_def]] ingest_keeps assms(3,4) by metis
  show ?thesis
  proof (cases "app_redirect a rq")
    case (Some ops)
    with assms(1,4) show ?thesis by (simp add: app_mux_def mux_serve_def)
  next
    case None
    consider "rq_method rq = ''POST''" "rq_path rq = login_path" | "rq_method rq = ''POST''" "rq_path rq = refresh_path"
      | "rq_method rq = ''POST''" "rq_path rq = events_path"
      | "\<not> (rq_method rq = ''POST'' \<and> rq_path rq \<in> {login_path, refresh_path, events_path})" by blast
    then show ?thesis
    proof cases
      case 1
      with assms(1) login show ?thesis by (simp add: mux_login [OF None])
    next
      case 2
      with assms(1) refr show ?thesis by (simp add: mux_refresh [OF None])
    next
      case 3
      with assms(1,4) ing show ?thesis
        by (auto simp: mux_events [OF None] ingest_verifier_cases not_found_handler_def split: if_splits)
    next
      case 4
      with assms(1,4) None show ?thesis
        by (auto simp: app_mux_def mux_serve_def registrars_def auth_routes_def ingest_verifier_registrar_def
            route_matches_def method_matches_def livez_handler_def not_found_handler_def split: if_splits)
    qed
  qed
qed

lemma chain_keeps:
  assumes "chain version h None rq r w = (out, r', w')" and "P (w_tabs w)"
    and "\<And>c hs v ops o' v'. h c hs rq v = (ops, o', v') \<Longrightarrow> P (w_tabs v) \<Longrightarrow> P (w_tabs v')"
  shows "P (w_tabs w')"
proof -
  let ?log = "access_log_middleware version (run_handler h)"
  have log: "P (w_tabs v')" if "?log c rq q v = (o', q', v')" and "P (w_tabs v)" for c q v o' q' v'
  proof -
    obtain ops o1 v1 where "h c (rc_header q) rq v = (ops, o1, v1)" by (metis prod_cases3)
    with that(1) assms(3) [OF this that(2)] show ?thesis
      by (auto simp: access_log_middleware_def run_handler_def Let_def)
  qed
  obtain o1 q1 w1 where q: "request_id_middleware ?log None rq r w = (o1, q1, w1)" by (metis prod_cases3)
  obtain i v where n: "new_request_id w = (i, v)" by (cases "new_request_id w")
  then have "w_tabs v = w_tabs w"
    by (auto simp: new_request_id_def split: prod.splits sum.splits dest!: random_bytes_frame)
  with assms(2) have v: "P (w_tabs v)" by simp
  have w1: "P (w_tabs w1)"
  proof (cases "rq_header rq request_id_header = []")
    case False
    with q have "?log (Some (rq_header rq request_id_header)) rq
        (set_header request_id_header (rq_header rq request_id_header) r) w = (o1, q1, w1)"
      by (simp add: request_id_middleware_def)
    then show ?thesis using assms(2) by (rule log)
  next
    case True
    show ?thesis
    proof (cases i)
      case None
      with True q n v show ?thesis by (simp add: request_id_middleware_def)
    next
      case (Some j)
      with True q n have "?log (Some j) rq (set_header request_id_header j r) v = (o1, q1, w1)"
        by (simp add: request_id_middleware_def)
      then show ?thesis using v by (rule log)
    qed
  qed
  have "w_tabs w' = w_tabs w1"
    using assms(1) q by (cases o1) (auto simp: chain_def recover_middleware_def Let_def split: if_splits)
  with w1 show ?thesis by simp
qed

lemma serve_keeps:
  assumes "serve_app a cfg rq w = (out, r, w')"
    and "app_auth a = new_handler pl kdf d ul" and "app_obs a = new_obs_handler refuses" and "P (w_tabs w)"
  shows "P (w_tabs w')"
  using assms(1) [unfolded serve_app_chain] assms(4) by (rule chain_keeps) (rule mux_keeps [OF _ assms(2,3)])

lemma seed_keeps:
  assumes "run_seed pl kdf open_pool env w = (r, w')" and "P (w_tabs w)"
    and "\<And>pw v hash v'. hash_password kdf pw v = (Inr hash, v') \<Longrightarrow> hash_ok hash"
  shows "P (w_tabs w')"
proof -
  have h: "w_tabs v' = w_tabs v" "q = Inr hash \<Longrightarrow> hash_ok hash" if "hash_password kdf p v = (q, v')" for p v q v' hash
    using that assms(3) by (auto simp: hash_password_def split: prod.splits sum.splits dest!: random_bytes_frame)
  show ?thesis
  proof (cases "hash_password kdf (env ''SEED_PASSWORD'') w")
    case (Pair q w1)
    note h = h [OF Pair]
    have create: "P (w_tabs v')" if "exec_stmt k (create_user pl i n hash) v = (a, v')" "q = Inr hash" "P (w_tabs v)"
      for k i n hash v a v'
      using exec_keeps [where P = P, OF that(1) create_keeps that(3)] h(2) that(2) by blast
    from assms(1,2) Pair h(1) show ?thesis
      by (auto simp: run_seed_def Let_def split: if_splits prod.splits sum.splits dest!: next_id_D
          dest: create)
  qed
qed

lemma unlock_keeps:
  assumes "run_unlock pl open_pool env w = (r, w')" and "P (w_tabs w)"
  shows "P (w_tabs w')"
  using assms
  by (auto simp: run_unlock_def Let_def split: if_splits prod.splits sum.splits
      dest!: exec_keeps [where P = P, OF _ keeps_read_only [OF read_only_queries(1)]]
      dest: exec_keeps [where P = P, OF _ reset_keeps])

end

section \<open>The migrations' constraints are such an invariant\<close>

lemma keepsI: "(\<And>now t. P t \<Longrightarrow> P (snd (st now t))) \<Longrightarrow> keeps P st"
  by (simp add: keeps_def)

lemma users_schema_update:
  assumes "users_schema pl t"
    and "\<And>u. u_id (f u) = u_id u" and "\<And>u. u_username (f u) = u_username u"
    and "\<And>u. u \<in> set (users t) \<Longrightarrow> q u \<Longrightarrow> - max_int4 - 1 \<le> u_failed_attempts (f u) \<and> u_failed_attempts (f u) \<le> max_int4"
  shows "users_schema pl (t\<lparr>users := update_where q f (users t)\<rparr>)"
    and "u_id ` set (update_where q f (users t)) = u_id ` set (users t)"
proof -
  have m: "map u_id (update_where q f (users t)) = map u_id (users t)"
    by (rule map_update_where) (rule assms(2))
  then show "u_id ` set (update_where q f (users t)) = u_id ` set (users t)"
    by (metis list.set_map)
  show "users_schema pl (t\<lparr>users := update_where q f (users t)\<rparr>)"
    using assms(1,4) m
    by (auto simp: users_schema_def map_update_where assms(3) list_all_iff in_update_where)
qed

text \<open>Rewriting user rows under their keys keeps everything.\<close>

lemma schema_users_update:
  assumes "schema_ok pl t"
    and "\<And>u. u_id (f u) = u_id u" and "\<And>u. u_username (f u) = u_username u"
    and "\<And>u. u \<in> set (users t) \<Longrightarrow> q u \<Longrightarrow> - max_int4 - 1 \<le> u_failed_attempts (f u) \<and> u_failed_attempts (f u) \<le> max_int4"
  shows "schema_ok pl (t\<lparr>users := update_where q f (users t)\<rparr>)"
  using users_schema_update [OF _ assms(2-4), of pl] assms(1)
  by (simp add: schema_ok_def refresh_tokens_schema_def access_tokens_schema_def events_schema_def)

lemma schema_tokens_update:
  assumes "schema_ok pl t" and "\<And>r. rt_id (f r) = rt_id r" and "\<And>r. rt_selector (f r) = rt_selector r"
    and "\<And>r. rt_user_id (f r) = rt_user_id r" and "\<And>r. rt_expires_at (f r) = rt_expires_at r"
  shows "schema_ok pl (t\<lparr>refresh_tokens := update_where q f (refresh_tokens t)\<rparr>)"
  using assms(1)
  by (auto simp: schema_ok_def users_schema_def refresh_tokens_schema_def access_tokens_schema_def
      events_schema_def map_update_where assms(2-5) list_all_iff in_update_where)

lemma attempts_range:
  "schema_ok pl t \<Longrightarrow> u \<in> set (users t) \<Longrightarrow>
     - max_int4 - 1 \<le> u_failed_attempts u \<and> u_failed_attempts u \<le> max_int4"
  by (auto simp: schema_ok_def users_schema_def list_all_iff)

interpretation migrations: table_invariant "schema_ok pl" pl refuses hash_ok for pl refuses hash_ok
proof (unfold_locales; rule keepsI)
  fix i name hash now t assume "schema_ok pl t"
  then show "schema_ok pl (snd (create_user pl i name hash now t))"
    by (auto simp: create_user_def Let_def schema_ok_def users_schema_def refresh_tokens_schema_def
        access_tokens_schema_def events_schema_def list_all_iff max_int4_def)
next
  fix i d now t assume s: "schema_ok pl t"
  show "schema_ok pl (snd (record_login_failure i lockout_threshold d now t))"
  proof (cases "find (\<lambda>u. u_id u = i) (users t)")
    case None
    with s show ?thesis by (simp add: record_login_failure_def)
  next
    case (Some old)
    then have "old \<in> set (users t)" by (auto simp: find_Some_iff)
    with s have "- max_int4 - 1 \<le> u_failed_attempts old" by (simp add: attempts_range)
    then have "- max_int4 - 1 \<le> failed_next (u_failed_attempts old) (u_locked_until old) now"
      by (auto simp: failed_next_def max_int4_def)
    with Some s show ?thesis
      by (auto simp: record_login_failure_def Let_def intro!: schema_users_update)
  qed
next
  fix i now t assume "schema_ok pl t"
  then show "schema_ok pl (snd (set_user_lock i 0 None now t))"
    by (auto simp: set_user_lock_def max_int4_def intro!: schema_users_update)
next
  fix i now t assume "schema_ok pl t"
  then show "schema_ok pl (snd (touch_user_timing i now t))"
    by (auto simp: touch_user_timing_def intro!: schema_users_update dest: attempts_range)
next
  fix rows i now t assume "schema_ok pl t"
  then show "schema_ok pl (snd (insert_access_token i (sr_access rows) now t))"
    by (auto simp: insert_access_token_def Let_def schema_ok_def users_schema_def refresh_tokens_schema_def
        access_tokens_schema_def events_schema_def list_all_iff intro: rev_image_eqI)
next
  fix rows i now t assume "schema_ok pl t"
  then show "schema_ok pl (snd (insert_refresh_token i (sr_refresh rows) now t))"
    by (auto simp: insert_refresh_token_def Let_def schema_ok_def users_schema_def refresh_tokens_schema_def
        access_tokens_schema_def events_schema_def list_all_iff intro: rev_image_eqI)
next
  fix i now t assume "schema_ok pl t"
  then show "schema_ok pl (snd (mark_refresh_token_used i now t))"
    by (auto simp: mark_refresh_token_used_def intro!: schema_tokens_update)
next
  fix i now t assume "schema_ok pl t"
  then show "schema_ok pl (snd (revoke_token_family i now t))"
    by (auto simp: revoke_token_family_def intro!: schema_tokens_update)
next
  fix c now t assume "schema_ok pl t"
  then show "schema_ok pl (snd (insert_event refuses c now t))"
    by (auto simp: insert_event_def schema_ok_def users_schema_def refresh_tokens_schema_def
        access_tokens_schema_def events_schema_def event_key_def event_row_of_def split: option.splits)
qed

end
