(* ===== verification/Deployment.thy ===== *)
theory Deployment
  imports Schema Fixture
begin

text \<open>
  One deployment over its whole life: requests through the server, \<^verbatim>\<open>-seed\<close> and \<^verbatim>\<open>-unlock\<close>, in any order and
  with any failures.  Two invariants are instances of \<open>table_invariant\<close>: what the program itself keeps true of
  what it stores (\<open>stored_ok\<close>; the database enforces none of it beyond the constraints of theory Schema), and
  that nothing the program does takes a session away (\<open>session_kept\<close>).
\<close>

section \<open>Deployments\<close>

text \<open>What happens to the tables of one deployment: a request served from start to end, a run of
  \<^verbatim>\<open>-seed\<close> or \<^verbatim>\<open>-unlock\<close> in any environment, and anything that leaves the tables alone (time, the
  scripts of failures and randomness).\<close>

inductive deploy_step ::
  "(string \<Rightarrow> string) \<Rightarrow> kdf \<Rightarrow> (string \<Rightarrow> gerr + 'pool) \<Rightarrow>
     (request \<Rightarrow> world \<Rightarrow> outcome \<times> recorder \<times> world) \<Rightarrow> world \<Rightarrow> world \<Rightarrow> bool"
  for pl kdf open_pool srv where
  step_request: "srv rq w = (out, r, w') \<Longrightarrow> deploy_step pl kdf open_pool srv w w'"
| step_seed: "run_seed pl kdf open_pool env w = (res, w') \<Longrightarrow> deploy_step pl kdf open_pool srv w w'"
| step_unlock: "run_unlock pl open_pool env w = (res, w') \<Longrightarrow> deploy_step pl kdf open_pool srv w w'"
| step_quiet: "w_tabs w' = w_tabs w \<Longrightarrow> deploy_step pl kdf open_pool srv w w'"

inductive_cases deploy_stepE: "deploy_step pl kdf open_pool srv w w'"

abbreviation deployed ::
  "(string \<Rightarrow> string) \<Rightarrow> kdf \<Rightarrow> (string \<Rightarrow> gerr + 'pool) \<Rightarrow>
     (request \<Rightarrow> world \<Rightarrow> outcome \<times> recorder \<times> world) \<Rightarrow> world \<Rightarrow> world \<Rightarrow> bool" where
  "deployed pl kdf open_pool srv \<equiv> (deploy_step pl kdf open_pool srv)\<^sup>*\<^sup>*"

context table_invariant begin

lemma step_keeps:
  assumes "deploy_step pl kdf open_pool (serve_app a cfg) w w'"
    and "app_auth a = new_handler pl kdf d ul" and "app_obs a = new_obs_handler refuses" and "P (w_tabs w)"
    and "\<And>pw v hash v'. hash_password kdf pw v = (Inr hash, v') \<Longrightarrow> hash_ok hash"
  shows "P (w_tabs w')"
  using assms(1)
proof (cases rule: deploy_step.cases)
  case (step_request rq out r)
  then show ?thesis using assms(2-4) by (rule serve_keeps)
next
  case (step_seed env res)
  then show ?thesis using assms(4,5) by (rule seed_keeps)
next
  case (step_unlock env res)
  then show ?thesis using assms(4) by (rule unlock_keeps)
qed (use assms(4) in simp)

lemma history_keeps:
  assumes "deployed pl kdf open_pool (serve_app a cfg) w w'"
    and "app_auth a = new_handler pl kdf d ul" and "app_obs a = new_obs_handler refuses" and "P (w_tabs w)"
    and "\<And>pw v hash v'. hash_password kdf pw v = (Inr hash, v') \<Longrightarrow> hash_ok hash"
  shows "P (w_tabs w')"
  using assms(1)
proof (induction rule: rtranclp_induct)
  case (step v v')
  from step_keeps [OF step(2) assms(2,3) step(3) assms(5)] show ?case .
qed (rule assms(4))

end

section \<open>What is stored is sound\<close>

text \<open>A user as the program writes it: a password hash that decodes, the active status, a counter and a lock
  that agree with the lockout policy.\<close>

definition user_sound :: "user_row \<Rightarrow> bool" where
  "user_sound u \<longleftrightarrow> parses (u_password_hash u) \<and> u_status u = ''active'' \<and> account_ok (account_of u)"

text \<open>An event: a time in whole milliseconds, attributes that are a JSON object.\<close>

definition event_sound :: "event_row \<Rightarrow> bool" where
  "event_sound e \<longleftrightarrow> ev_event_ts e mod millisecond = 0 \<and> (\<exists>m. ev_attributes e = ''{'' @ m @ ''}'')"

definition stored_ok :: "(string \<Rightarrow> string) \<Rightarrow> tables \<Rightarrow> bool" where
  "stored_ok pl t \<longleftrightarrow>
     schema_ok pl t \<and> list_all user_sound (users t) \<and>
     list_all (\<lambda>r. length (rt_verifier_hash r) = 32) (refresh_tokens t) \<and>
     list_all (\<lambda>a. length (at_token_hash a) = 32) (access_tokens t) \<and> list_all event_sound (events t)"

lemma stored_schema: "stored_ok pl t \<Longrightarrow> schema_ok pl t"
  by (simp add: stored_ok_def)









section \<open>Nothing takes a session away\<close>

lemma pg_time_ge_milli: "unix_milli t * millisecond \<le> pg_time t"
proof -
  have "t div 1000 div 1000 * 1000 \<le> t div 1000"
    unfolding minus_mod_eq_div_mult [symmetric] by simp
  moreover have "t div 1000000 = t div 1000 div 1000" using zdiv_zmult2_eq [of 1000 t 1000] by simp
  ultimately have "t div 1000000 * 1000000 \<le> t div 1000 * 1000" by linarith
  then show ?thesis by (simp add: unix_milli_def pg_time_def duration_defs)
qed

lemma pg_time_mono: "a \<le> b \<Longrightarrow> pg_time a \<le> pg_time b"
  by (simp add: pg_time_def zdiv_mono1)

lemma cleared_find:
  assumes "distinct (map u_id (users t))" and "u \<in> set (users t)"
  shows "\<exists>v. find (\<lambda>v. u_id v = u_id u) (users (cleared (u_id u) now t)) = Some v \<and> u_status v = u_status u"
proof -
  let ?f = "\<lambda>u. u\<lparr>u_failed_attempts := 0, u_locked_until := None, u_updated_at := now\<rparr>"
  have "find (\<lambda>v. u_id v = u_id u) (users t) = Some u" by (rule find_unique [OF assms])
  then show ?thesis
    by (simp add: cleared_def set_user_lock_def find_update_where)
qed

text \<open>The rows of a session of user \<open>i\<close> with access digest \<open>h\<close>, selector \<open>s\<close> and verifier digest \<open>v\<close>.\<close>

definition session_kept :: "uuid \<Rightarrow> bytes \<Rightarrow> time \<Rightarrow> string \<Rightarrow> bytes \<Rightarrow> time \<Rightarrow> tables \<Rightarrow> bool" where
  "session_kept i h e s v e' t \<longleftrightarrow>
     (\<exists>a. find (\<lambda>r. at_token_hash r = h) (access_tokens t) = Some a \<and> at_user_id a = i \<and>
        at_expires_at a = Some e \<and> at_revoked_at a = None) \<and>
     (\<exists>u. find (\<lambda>u. u_id u = i) (users t) = Some u \<and> u_status u = ''active'') \<and>
     (\<exists>q. find (\<lambda>r. rt_selector r = s) (refresh_tokens t) = Some q \<and> rt_verifier_hash q = v \<and>
        rt_user_id q = i \<and> rt_expires_at q = Some e')"

lemma active_updated:
  assumes "find (\<lambda>u. u_id u = i) us = Some u" and "u_status u = ''active''"
    and "\<And>u. u_id (f u) = u_id u" and "\<And>u. u_status (f u) = u_status u"
  shows "\<exists>u. find (\<lambda>u. u_id u = i) (update_where q f us) = Some u \<and> u_status u = ''active''"
  using assms(1,2) by (simp add: find_update_where assms(3,4))

lemma refresh_updated:
  assumes "find (\<lambda>r. rt_selector r = s) rs = Some r"
    and "\<And>r. rt_selector (f r) = rt_selector r" and "\<And>r. rt_verifier_hash (f r) = rt_verifier_hash r"
    and "\<And>r. rt_user_id (f r) = rt_user_id r" and "\<And>r. rt_expires_at (f r) = rt_expires_at r"
  shows "\<exists>q. find (\<lambda>r. rt_selector r = s) (update_where p f rs) = Some q \<and> rt_verifier_hash q = rt_verifier_hash r \<and>
    rt_user_id q = rt_user_id r \<and> rt_expires_at q = rt_expires_at r"
  using assms(1) by (simp add: find_update_where assms(2-5))

interpretation kept: table_invariant "session_kept i h e s v e'" pl refuses "\<lambda>_. True" for i h e s v e' pl refuses
proof (unfold_locales; rule keepsI)
  fix j name hash now t assume "session_kept i h e s v e' t"
  then show "session_kept i h e s v e' (snd (create_user pl j name hash now t))"
    by (auto simp: session_kept_def create_user_def Let_def find_append)
next
  fix j d now t assume k: "session_kept i h e s v e' t"
  show "session_kept i h e s v e' (snd (record_login_failure j lockout_threshold d now t))"
    using k
    by (auto simp: session_kept_def record_login_failure_def Let_def split: option.splits intro!: active_updated)
next
  fix j now t assume "session_kept i h e s v e' t"
  then show "session_kept i h e s v e' (snd (set_user_lock j 0 None now t))"
    by (auto simp: session_kept_def set_user_lock_def intro!: active_updated)
next
  fix j now t assume "session_kept i h e s v e' t"
  then show "session_kept i h e s v e' (snd (touch_user_timing j now t))"
    by (auto simp: session_kept_def touch_user_timing_def intro!: active_updated)
next
  fix rows j now t assume "session_kept i h e s v e' t"
  then show "session_kept i h e s v e' (snd (insert_access_token j (sr_access rows) now t))"
    by (auto simp: session_kept_def insert_access_token_def Let_def find_append)
next
  fix rows j now t assume "session_kept i h e s v e' t"
  then show "session_kept i h e s v e' (snd (insert_refresh_token j (sr_refresh rows) now t))"
    by (auto simp: session_kept_def insert_refresh_token_def Let_def find_append)
next
  fix j now t assume "session_kept i h e s v e' t"
  then show "session_kept i h e s v e' (snd (mark_refresh_token_used j now t))"
    using refresh_updated [of s "refresh_tokens t" _ "\<lambda>r. r\<lparr>rt_used_at := Some now\<rparr>" "\<lambda>r. rt_id r = j"]
    by (fastforce simp: session_kept_def mark_refresh_token_used_def)
next
  fix f now t assume "session_kept i h e s v e' t"
  then show "session_kept i h e s v e' (snd (revoke_token_family f now t))"
    using refresh_updated [of s "refresh_tokens t" _ "\<lambda>r. r\<lparr>rt_revoked_at := Some now\<rparr>" "\<lambda>r. rt_token_family r = f \<and> rt_revoked_at r = None"]
    by (fastforce simp: session_kept_def revoke_token_family_def)
next
  fix c now t assume "session_kept i h e s v e' t"
  then show "session_kept i h e s v e' (snd (insert_event refuses c now t))"
    by (auto simp: session_kept_def insert_event_def split: option.splits)
qed

text \<open>A login starts it.\<close>

lemma issued_kept:
  assumes "issued i app t t' s" and "find (\<lambda>v. u_id v = i) (users t) = Some u" and "u_status u = ''active''"
  obtains raw sel ver where "length raw = 32" and "length sel = 16" and "length ver = 16"
    and "s = session_of i (access_of raw) (refresh_of sel ver) app"
    and "session_kept i (sha256 raw) (pg_time (app + access_token_ttl)) (raw_url_enc sel) (sha256 ver)
      (pg_time (app + refresh_token_ttl)) t'"
proof -
  obtain raw sel ver fb where raw: "length raw = 32" "length sel = 16" "length ver = 16"
    "s = session_of i (access_of raw) (refresh_of sel ver) app"
    and ins: "session_inserted (rows_for i (access_of raw) (refresh_of sel ver) (v4_bits fb) app) t t'"
    using assms(1) by (auto simp: issued_def)
  let ?rows = "rows_for i (access_of raw) (refresh_of sel ver) (v4_bits fb) app"
  obtain j k n where t': "access_tokens t' = access_tokens t @ [access_row_of j (sr_access ?rows) n]"
    "refresh_tokens t' = refresh_tokens t @ [refresh_row_of k (sr_refresh ?rows) n]" "users t' = users t"
    and fresh: "\<forall>q \<in> set (access_tokens t). at_token_hash q \<noteq> sha256 raw"
      "\<forall>q \<in> set (refresh_tokens t). rt_selector q \<noteq> raw_url_enc sel"
    using ins by (auto simp: session_inserted_def Let_def access_row_of_def refresh_row_of_def rows_for_def
        access_of_def refresh_of_def)
  have "find (\<lambda>r. at_token_hash r = sha256 raw) (access_tokens t) = None"
    "find (\<lambda>r. rt_selector r = raw_url_enc sel) (refresh_tokens t) = None"
    using fresh by (simp_all add: find_None_all)
  with assms(2,3) have "session_kept i (sha256 raw) (pg_time (app + access_token_ttl)) (raw_url_enc sel) (sha256 ver)
      (pg_time (app + refresh_token_ttl)) t'"
    by (simp add: session_kept_def t' find_append access_row_of_def refresh_row_of_def rows_for_def access_of_def
        refresh_of_def)
  with raw that show thesis by blast
qed

text \<open>As long as it is there, the access token is admitted.\<close>

lemma kept_admitted:
  assumes "session_kept i (sha256 raw) e s v e' t" and "raw \<noteq> []" and "now < e"
  shows "admitted (bearer_prefix @ raw_url_enc raw) (uuid_to_string i) now t"
  using assms unfolding admitted_def session_kept_def
  by (intro exI [of _ "raw_url_enc raw"] exI [of _ raw]) (auto simp: expired_def rawurl.dec_enc)

text \<open>A refresh token that was neither used nor revoked.\<close>

definition live_token :: "string \<Rightarrow> tables \<Rightarrow> bool" where
  "live_token token t \<longleftrightarrow>
     (\<exists>selector verifier q. cut_on refresh_separator token = Some (selector, verifier) \<and>
        find (\<lambda>r. rt_selector r = selector) (refresh_tokens t) = Some q \<and>
        rt_used_at q = None \<and> rt_revoked_at q = None)"

text \<open>The next random values of a world are there, and fresh.\<close>

definition draws_fresh :: "world \<Rightarrow> bool" where
  "draws_fresh w \<longleftrightarrow>
     (\<exists>i j ids raw sel ver rs. w_ids w = j # i # ids \<and> w_rand w = Some raw # Some sel # Some ver # rs \<and>
        length raw = 32 \<and> length sel = 16 \<and> length ver = 16 \<and>
        (\<forall>q \<in> set (access_tokens (w_tabs w)). at_id q \<noteq> i \<and> at_token_hash q \<noteq> sha256 raw) \<and>
        (\<forall>q \<in> set (refresh_tokens (w_tabs w)). rt_id q \<noteq> j \<and> rt_selector q \<noteq> raw_url_enc sel))"

lemma kept_refreshed:
  assumes "session_kept i h e (raw_url_enc sel) (sha256 ver) e' (w_tabs w)" and "sel \<noteq> []" and "ver \<noteq> []"
    and "live_token (ref_plaintext (refresh_of sel ver)) (w_tabs w)" and "w_app w < e'" and "w_script w = []"
    and "draws_fresh w" and "decode_refresh_request b = Some \<lparr>rr_refresh_token = ref_plaintext (refresh_of sel ver)\<rparr>"
  shows "rsp_status (fst (refresh rid b w)) = 200"
proof -
  have c: "cut_on refresh_separator (ref_plaintext (refresh_of sel ver)) = Some (raw_url_enc sel, raw_url_enc ver)"
    by (rule refresh_of_cut)
  obtain q where q: "find (\<lambda>r. rt_selector r = raw_url_enc sel) (refresh_tokens (w_tabs w)) = Some q"
    "rt_used_at q = None" "rt_revoked_at q = None" "rt_verifier_hash q = sha256 ver" "rt_user_id q = i"
    "rt_expires_at q = Some e'"
    using assms(1,4) by (auto simp: live_token_def c session_kept_def)
  obtain u where u: "find (\<lambda>u. u_id u = i) (users (w_tabs w)) = Some u" "u_status u = ''active''"
    using assms(1) by (auto simp: session_kept_def)
  let ?row = "refresh_row.extend q \<lparr>rt_db_now = w_db w\<rparr>"
  have l: "locked_row (raw_url_enc sel) (w_db w) (w_tabs w) = Some ?row" by (simp add: locked_row_def q(1))
  have m: "may_rotate ?row (raw_url_enc ver) (w_app w) (w_tabs w)"
    using locked_row_fields [OF l] q u assms(5) by (auto simp: may_rotate_def expired_def rawurl.dec_enc)
  obtain x y ids raw' sel' ver' rs where d: "w_ids w = y # x # ids" "w_rand w = Some raw' # Some sel' # Some ver' # rs"
    "length raw' = 32" "length sel' = 16" "length ver' = 16"
    "\<forall>q \<in> set (access_tokens (w_tabs w)). at_id q \<noteq> x \<and> at_token_hash q \<noteq> sha256 raw'"
    "\<forall>q \<in> set (refresh_tokens (w_tabs w)). rt_id q \<noteq> y \<and> rt_selector q \<noteq> raw_url_enc sel'"
    using assms(7) unfolding draws_fresh_def by blast
  have "raw_url_enc sel \<noteq> []" "raw_url_enc ver \<noteq> []"
    using refresh_of_parts [OF assms(2,3)] by simp_all
  from refresh_quiet [OF assms(8) _ this assms(6) l m d] c show ?thesis by simp
qed

section \<open>The properties\<close>


text \<open>C28: What a login hands out works, whatever happens in between.  After a login (on tables with distinct user
  ids, the primary key) that was answered with a session, the server may serve any other requests and users
  may be seeded and unlocked, one after the other in any order and with any failures: until the instant the response names, the access token is admitted as the user
  it was issued to, and the refresh token, unless it was used or revoked meanwhile, is exchanged; the
  request that uses the token must itself meet no failure and, for the exchange, fresh random values.  Only
  an operator who writes to the tables directly can end a session sooner.\<close>

theorem login_session_usable:
  assumes "run_setup open_pool version env build = Inr (cfg, srv)" and "open_pool (env ''NEON_DSN'') = Inr pool"
    and "app_auth (build pool) = new_handler pl kdf d ul" and "app_obs (build pool) = new_obs_handler refuses"
    and "login (new_handler pl kdf d ul) rid b w = (rsp, w')" and "rsp_status rsp = 200"
    and "distinct (map u_id (users (w_tabs w)))"
  shows "\<exists>s. rsp = session_response s \<and>
    (\<forall>w2. deployed pl kdf open_pool srv w' w2 \<and> w_script w2 = [] \<and> w_app w2 < ls_expires_at s * millisecond \<longrightarrow>
       fst (authenticate (bearer_prefix @ ls_access_token s) w2) = Some (ls_user_id s) \<and>
       (\<forall>b2 rid2. decode_refresh_request b2 = Some \<lparr>rr_refresh_token = ls_refresh_token s\<rparr> \<and>
          live_token (ls_refresh_token s) (w_tabs w2) \<and> draws_fresh w2 \<longrightarrow>
          rsp_status (fst (refresh rid2 b2 w2)) = 200))"
proof -
  obtain u n app s where u: "u \<in> set (users (w_tabs w))" "u_status u = ''active''"
    and iss: "issued (u_id u) app (cleared (u_id u) n (w_tabs w)) (w_tabs w') s" and rsp: "rsp = session_response s"
    using login_accepted [OF assms(5,6)] by blast
  obtain v where v: "find (\<lambda>v. u_id v = u_id u) (users (cleared (u_id u) n (w_tabs w))) = Some v" "u_status v = ''active''"
    using cleared_find [OF assms(7) u(1)] u(2) by auto
  obtain raw sel ver where len: "length raw = 32" "length sel = 16" "length ver = 16"
    and s: "s = session_of (u_id u) (access_of raw) (refresh_of sel ver) app"
    and k: "session_kept (u_id u) (sha256 raw) (pg_time (app + access_token_ttl)) (raw_url_enc sel) (sha256 ver)
      (pg_time (app + refresh_token_ttl)) (w_tabs w')"
    by (rule issued_kept [OF iss v])
  have ne: "raw \<noteq> []" "sel \<noteq> []" "ver \<noteq> []" using len by auto
  have srv: "srv = serve_app (build pool) cfg" using run_setup_Inr [OF assms(1,2)] by metis
  have later: "fst (authenticate (bearer_prefix @ ls_access_token s) w2) = Some (ls_user_id s)"
    "\<lbrakk>decode_refresh_request b2 = Some \<lparr>rr_refresh_token = ls_refresh_token s\<rparr>;
      live_token (ls_refresh_token s) (w_tabs w2); draws_fresh w2\<rbrakk> \<Longrightarrow> rsp_status (fst (refresh rid2 b2 w2)) = 200"
    if w2: "deployed pl kdf open_pool srv w' w2" "w_script w2 = []" "w_app w2 < ls_expires_at s * millisecond"
    for w2 b2 rid2
  proof -
    have k2: "session_kept (u_id u) (sha256 raw) (pg_time (app + access_token_ttl)) (raw_url_enc sel) (sha256 ver)
      (pg_time (app + refresh_token_ttl)) (w_tabs w2)"
      by (rule kept.history_keeps [OF w2(1) [unfolded srv] assms(3,4) k]) simp
    have a: "w_app w2 < pg_time (app + access_token_ttl)"
      using w2(3) pg_time_ge_milli [of "app + access_token_ttl"] by (simp add: s session_of_def)
    moreover have "pg_time (app + access_token_ttl) \<le> pg_time (app + refresh_token_ttl)"
      by (rule pg_time_mono) (simp add: access_token_ttl_def refresh_token_ttl_def duration_defs)
    ultimately have r: "w_app w2 < pg_time (app + refresh_token_ttl)" by simp
    show "fst (authenticate (bearer_prefix @ ls_access_token s) w2) = Some (ls_user_id s)"
      using kept_admitted [OF k2 ne(1) a] w2(2)
      by (simp add: authenticate_quiet_iff s session_of_def access_of_def)
    show "rsp_status (fst (refresh rid2 b2 w2)) = 200"
      if "decode_refresh_request b2 = Some \<lparr>rr_refresh_token = ls_refresh_token s\<rparr>"
        "live_token (ls_refresh_token s) (w_tabs w2)" "draws_fresh w2"
      using kept_refreshed [OF k2 ne(2,3) _ r w2(2)] that by (simp add: s session_of_def)
  qed
  show ?thesis by (rule exI [of _ s]) (use rsp later in blast)
qed




theorem login_session_usable_witness:
  "\<exists>s. fst (login (new_handler id toy_kdf (toy_hash ''dummy'') id) ''r'' toy_body toy_world) = session_response s \<and>
     (\<forall>w2. deployed id toy_kdf (\<lambda>_. Inr ())
          (serve_app ((toy_app ())\<lparr>app_auth := new_handler id toy_kdf (toy_hash ''dummy'') id\<rparr>) toy_cfg)
          (snd (login (new_handler id toy_kdf (toy_hash ''dummy'') id) ''r'' toy_body toy_world)) w2 \<and>
        w_script w2 = [] \<and> w_app w2 < ls_expires_at s * millisecond \<longrightarrow>
        fst (authenticate (bearer_prefix @ ls_access_token s) w2) = Some (ls_user_id s))"
proof -
  let ?build = "\<lambda>u :: unit. (toy_app u)\<lparr>app_auth := new_handler id toy_kdf (toy_hash ''dummy'') id\<rparr>"
  have h: "new_handler id toy_kdf (toy_hash ''dummy'') id = toy_handler"
    by (simp add: toy_handler_def id_def)
  have up: "run_setup (\<lambda>_. Inr ()) ''dev'' toy_env ?build = Inr (toy_cfg, serve_app (?build ()) toy_cfg)"
    using toy_setup by (auto simp: run_setup_def Let_def split: sum.splits)
  have l: "rsp_status (fst (login (new_handler id toy_kdf (toy_hash ''dummy'') id) ''r'' toy_body toy_world)) = 200"
    using toy_login [of "''r''"] by (auto simp: h)
  from login_session_usable [OF up, of "()" id toy_kdf "toy_hash ''dummy''" id "\<lambda>_. None" "''r''" toy_body toy_world,
      OF _ _ _ prod.collapse [symmetric] l]
  show ?thesis by (simp add: toy_app_def) blast
qed

end
