(* ===== verification/Spec2Isabelle.thy ===== *)
theory Spec2Isabelle
  imports AuthSystem Lockout RefreshAlone LoginConcSpec Queries PoolRefine Pool IngestSpec IngestConcSpec SchemaInit SignSpec ServerSpec AdminSpec CommandLine Listener Deployment
begin

text \<open>
  A verification library of \<^verbatim>\<open>server-infra-toolkit\<close>, a Go server (\<^verbatim>\<open>cmd/api\<close>) that authenticates the
  users of an app (\<^verbatim>\<open>internal/modules/auth\<close>), takes in the app's events
  (\<^verbatim>\<open>internal/modules/observability\<close>), signs the manifest of its offline package
  (\<^verbatim>\<open>internal/platform/offlinesig\<close>), and rests on a PostgreSQL database that may be asleep
  (\<^verbatim>\<open>internal/platform/db\<close>).  Every definition is translated from the sources; each theory names the
  files it models.  This root theory only collects them.

  \<^bold>\<open>The parts and how they meet.\<close>  A request comes in at the middleware chain of \<^verbatim>\<open>internal/http\<close>
  (theory HttpShell), which gives it an id, logs it once and catches panics.  The router hands it to a
  module: login (Login), refresh (Refresh), or, behind the ingest-token verifier (IngestAuth), the
  ingest handler (Ingest).  Protected routes pass the Bearer check (Bearer).  The modules run SQL
  statements (Database) alone or in transactions, through the store interfaces (Store, EventStore);
  every method of the pool underneath retries a connection that could not be made (Retry, Pool).
  The process is configured from its environment (Config) and wired in \<^verbatim>\<open>main.go\<close> (Server), which
  also has the seed, unlock, smoke and signing commands (SignCommand over OfflineSig).

  \<^bold>\<open>Foundations.\<close>
  \<^item> Prelude: byte strings, times in nanoseconds, Go errors (\<^verbatim>\<open>gerr\<close>) with \<^verbatim>\<open>errors.Is\<close>, list lemmas.
  \<^item> GoStrings, GoFmt, GoEncoding, GoJson, Sha256: what the program uses of Go's library, computed:
    \<^verbatim>\<open>strings\<close>, \<^verbatim>\<open>Sscanf\<close>, base64 in its non-strict mode, hex, UTF-8, the JSON encoder and parser, the
    decoding into structs, SHA-256.  The locale \<open>codec\<close> (and its extension \<open>token_codec\<close>) is the
    contract of an encoding, interpreted for the three base64 alphabets.
  \<^item> Database: tables, statements and transactions over a \<open>world\<close>.  A world carries a script that
    fixes, for every round trip, its duration and whether it fails before or after taking effect, the
    random bytes, and the trace of the work done; a theorem over an arbitrary world is one over every
    latency, every failure and every lost acknowledgement.

  \<^bold>\<open>Components\<close> (theory; source; what is shown).
  \<^item> Password, Token: \<^verbatim>\<open>password.go\<close>, \<^verbatim>\<open>dummy.go\<close>, \<^verbatim>\<open>token.go\<close>; PHC strings and minted tokens decode to
    what they were made of, malformed ones are errors.
  \<^item> Wire: the three writers of the error envelope write the same bytes.
  \<^item> Store: the interface of the login flow, as the locale \<open>auth_store\<close>; \<open>dbst\<close> interprets it on the
    production store.
  \<^item> Queries: \<^verbatim>\<open>internal/platform/db/gen\<close>; the methods of \<^verbatim>\<open>Querier\<close> over the two providers of \<^verbatim>\<open>DBTX\<close>, whose
    contract is the locale \<open>provider\<close> (interpreted on the pool and on a transaction); the stores'
    operations are these methods, which answer in a transaction as through the pool.
  \<^item> Login, LoginSpec: \<^verbatim>\<open>login.go\<close>, \<^verbatim>\<open>lockout.go\<close>, \<^verbatim>\<open>credential.go\<close>, \<^verbatim>\<open>ratelimit.go\<close>, \<^verbatim>\<open>handler.go\<close>; who
    gets a session and who does not, equal answers and equal work of refusals, atomicity, success
    when nothing fails.
  \<^item> Refresh, RefreshSpec: \<^verbatim>\<open>refresh.go\<close>; rotation, replay detection, the leeway for races, atomicity.
  \<^item> RefreshConc, RefreshConcInv, RefreshConcSpec, RefreshAlone: the same rotation statement by statement, any
    number of requests interleaved at READ COMMITTED (\<open>conc_step\<close>, an inductive relation) with the advisory
    lock, the row locks and the claims on unique keys.  The invariant \<open>conc_inv\<close> gives: the system does
    what whole rotations and revocations do one after the other, one token has one session, nothing
    escapes a revocation, nobody waits in a circle; a transaction that runs alone is theory Refresh.
  \<^item> Bearer, AuthSystem: \<^verbatim>\<open>middleware.go\<close>, and the module as a transition system (\<open>auth_step\<close>, an
    inductive relation): invariants of the token tables by rule induction, single use of refresh
    tokens, finality of revocation, what an answered replay leaves of its family.
  \<^item> Lockout: the lockout statements refine an abstract machine (\<open>account\<close>) under every
    interleaving; at most five wrong guesses per window are compared and refused, whatever fails.
  \<^item> LoginConc, LoginConcSpec: logins interleaved between their round trips; one that runs alone is the handler,
    and how many passwords the requests that race each other get compared (where no round trip fails and
    nobody knows the right one).
  \<^item> Retry, RetrySpec: \<^verbatim>\<open>retry.go\<close>; only transient failures are tried again, termination within the
    budget, a waking compute is reached, the log is complete.
  \<^item> PoolRefine: a statement through \<^verbatim>\<open>Exec\<close> of the retrying pool refines the single round trip \<open>exec_stmt\<close>
    of theory Database, on which every module is verified.  \<^verbatim>\<open>Query\<close> and \<^verbatim>\<open>QueryRow\<close> answer before the
    outcome of their statement is known and are outside this refinement.
  \<^item> Pool: \<^verbatim>\<open>pool.go\<close> and \<^verbatim>\<open>db.go\<close>, with \<^verbatim>\<open>net/url\<close> as far as the detection of \<^verbatim>\<open>pool_max_conns\<close> needs it; the
    size is bounded, and which keyword DSNs the detection gets wrong.
  \<^item> EventSchema, EventRows, EventStore, Ingest, SchemaInit, IngestSpec: the observability module; the
    specification of a landed batch is \<open>land_events\<close>, the contract of the store is the locale
    \<open>batch_store\<close>, interpreted (\<open>dbes\<close>) on the production store; every answer tells what happened to
    the table, retries land exactly once, no event is stored twice.
  \<^item> IngestConc, IngestConcSpec: \<^verbatim>\<open>insertBatch\<close> statement by statement, any number of batches interleaved at
    READ COMMITTED (\<open>ing_step\<close>, an inductive relation) with the claims of uncommitted rows on the unique
    index.  By the invariant \<open>ing_inv\<close> every batch lands as a whole and the counts that clients are told
    add up; a batch that runs alone is \<open>db_insert_batch\<close>.  Batches in a common order never block each
    other; \<open>crossed_batches_block\<close> shows that two batches with their events in opposite orders do,
    until the database makes one of them fail.
  \<^item> Schema: \<^verbatim>\<open>db/migrations\<close>; the constraints as a predicate on the tables (\<open>schema_ok\<close>), and the interface
    between the statements and everything that runs them as the locale \<open>table_invariant\<close>: whatever the
    statements keep when they get the arguments the program gives them (a hash, the threshold, minted
    rows, built events), the whole server and the commands keep.  Interpreted (\<open>migrations\<close>) on the
    constraints.
  \<^item> Deployment: the life of a deployment (\<open>deploy_step\<close>, an inductive relation: requests through the whole
    server, seeds and unlocks, one after the other).  Two more instances of \<open>table_invariant\<close>: what is stored is sound
    (\<open>stored\<close> on \<open>stored_ok\<close>, which the database does not enforce), and nothing the program does takes a
    session away (\<open>kept\<close> on \<open>session_kept\<close>), so that what a login hands out stays usable.
  \<^item> Config, IngestAuth: \<^verbatim>\<open>config.go\<close>, \<^verbatim>\<open>ingest_auth.go\<close>; a loaded configuration has at most two well-formed
    digests, none of them that of the empty token, and the digests of the operator's own tokens load.
  \<^item> HttpShell: \<^verbatim>\<open>middleware.go\<close>, \<^verbatim>\<open>server.go\<close>, \<^verbatim>\<open>log.go\<close>; a handler is the list of operations on its writer
    and whether it panics; one answer for each request and one log line for each that has an id, if the handler
    writes no informational status (100 to 199, except 101); what the recorder makes of such a status, which
    \<^verbatim>\<open>net/http\<close> does not take for the response, is \<open>informational_status_misrecorded\<close>.
  \<^item> Server, ServerSpec: \<^verbatim>\<open>main.go\<close> and the \<^verbatim>\<open>RegisterRoutes\<close> of the modules; what the whole stack adds to a
    handler, what stands before the events, the time a shutdown takes.
  \<^item> CommandLine: the flags of \<^verbatim>\<open>main.go\<close> and \<^verbatim>\<open>signactive.go\<close> and \<^verbatim>\<open>flag.Parse\<close>, computed; the values of a
    signing run are read as they were typed.
  \<^item> Listener: the \<^verbatim>\<open>http.Server\<close> with its timeouts, against the budget of the retries.
  \<^item> AdminSpec: a user that was seeded, or unlocked, can log in.
  \<^item> OfflineSig, SignCommand, SignSpec: \<^verbatim>\<open>offlinesig\<close> and \<^verbatim>\<open>signactive.go\<close>; the payload determines its
    fields, and what the command emits the app accepts.
  \<^item> Fixture: a small concrete deployment for the witnesses.

  \<^bold>\<open>Bounds and fuel.\<close>  The JSON parser and \<open>raw_elems\<close>/\<open>raw_members\<close> recurse on a fuel that is the length of
  their input; each call consumes at least one byte, so it never runs out on a value that the grammar
  admits.  The retry loop terminates by its attempt counter.  Machine integers are unbounded with
  their ranges written out where the code can reach them (the \<^verbatim>\<open>%d\<close> scanner, \<^verbatim>\<open>int64\<close> of \<^verbatim>\<open>timestampMs\<close>,
  \<^verbatim>\<open>int4\<close> of the failure counter, the saturation of \<^verbatim>\<open>time.Time.Sub\<close>).  Times of the database are
  truncated to microseconds where they are stored.

  \<^bold>\<open>Parameters,\<close> with what is assumed of them: argon2id (the documented output length), Unicode lower
  case and the collation of user names (functions), Ed25519 (a key from a seed, and that a signature
  under a key verifies under its public half), pgx and pgxpool (operations over a context and a clock;
  how long they outlast it, and after which errors a statement had no effect, are named hypotheses), the JSON Schema library (what the two documents
  accept, only where a theorem says so), what PostgreSQL refuses of the values of an event, what
  \<^verbatim>\<open>http.ServeMux\<close> redirects.

  \<^bold>\<open>Not modelled.\<close>  Within the modelled parts: the texts of wrapped internal errors, the value of a panic,
  how \<^verbatim>\<open>http.Server\<close> enforces its timeouts, exit codes, usage and console lines of the commands,
  cancellation of a request's context while a handler runs (it shows only as a
  failing round trip).  In the interleaved rotations, the two
  insertions of a login commit as one step; the locks of one statement are taken together (rows are
  only locked under the family's lock, so no request ever waits for a row); the share locks of the
  foreign keys are left out, as nobody deletes users or changes their keys.  Interleaved logins share
  one world, so a transaction of theirs, which inserts fresh rows only, is one step.
  How goose executes the migrations is not modelled, only what they promise (theory Schema); the
  identity column of the events is left out, as no query of the program reads it.  Scripts, containers, tests and documents are not part of the program.
\<close>

end
